(* ===== verification/Prelude.thy ===== *)
theory Prelude
  imports Main "HOL-Library.Word" "HOL-Library.Stream" "HOL-Library.Sublist"
    "HOL-Library.Finite_Map" "HOL-Library.Multiset" "HOL-Library.Char_ord" "HOL-Library.List_Lexorder"
begin

text \<open>
  Shared ground of the development: the named fact collections, the two loop shapes that the
  in-memory providers use over slices (find-and-update the first match, collect the matches up to
  a limit), the iteration order of a Go map, and the generic lemmas the components rest on.
\<close>

named_theorems flames_ops "definitions of the operations, unfolded to evaluate or split a call"
named_theorems flames_inv "preservation of the component invariants"

subsection \<open>Searching a slice for its first match\<close>

text \<open>
  The shape \<^verbatim>\<open>for i := range xs { if p(xs[i]) { xs[i] = f(xs[i]); return xs[i] } }\<close>: the updated
  element together with the updated slice, or nothing if no element matches.
\<close>

fun update_first :: "('a \<Rightarrow> bool) \<Rightarrow> ('a \<Rightarrow> 'a) \<Rightarrow> 'a list \<Rightarrow> ('a \<times> 'a list) option" where
  "update_first p f [] = None"
| "update_first p f (x # xs) =
     (if p x then Some (f x, f x # xs)
      else map_option (\<lambda>(y, ys). (y, x # ys)) (update_first p f xs))"

text \<open>
  The shape \<^verbatim>\<open>for i, e := range xs { if p(e) { return append(xs[:i], xs[i+1:]...) } }\<close>: the slice
  without its first match, or nothing if no element matches.
\<close>

fun delete_first :: "('a \<Rightarrow> bool) \<Rightarrow> 'a list \<Rightarrow> 'a list option" where
  "delete_first p [] = None"
| "delete_first p (x # xs) =
     (if p x then Some xs else map_option (\<lambda>ys. x # ys) (delete_first p xs))"

text \<open>
  The shape of the listing loops: skip elements that do not match, append the others to the
  accumulated slice, stop when a positive limit is reached.
\<close>

fun collect_loop :: "('a \<Rightarrow> bool) \<Rightarrow> int \<Rightarrow> 'a list \<Rightarrow> 'a list \<Rightarrow> 'a list" where
  "collect_loop keep limit [] result = result"
| "collect_loop keep limit (x # xs) result =
     (if \<not> keep x then collect_loop keep limit xs result
      else if 0 < limit \<and> limit \<le> int (length (result @ [x])) then result @ [x]
      else collect_loop keep limit xs (result @ [x]))"

text \<open>What a limit means: a positive one cuts the list, any other one leaves it whole.\<close>

definition limited :: "int \<Rightarrow> 'a list \<Rightarrow> 'a list" where
  "limited limit xs = (if 0 < limit then take (nat limit) xs else xs)"

subsection \<open>Ranging over a Go map\<close>

text \<open>
  \<^verbatim>\<open>for k, v := range m\<close> visits every entry once, in an order the language leaves open. An order is
  the list of visited keys; \<open>range_order m ks\<close> says that \<open>ks\<close> is such an order, and
  \<open>range_map m ks\<close> are the entries in the order of the visit.
\<close>

definition range_order :: "('k \<rightharpoonup> 'v) \<Rightarrow> 'k list \<Rightarrow> bool" where
  "range_order m ks \<longleftrightarrow> distinct ks \<and> set ks = dom m"

definition range_map :: "('k \<rightharpoonup> 'v) \<Rightarrow> 'k list \<Rightarrow> ('k \<times> 'v) list" where
  "range_map m ks = List.map_filter (\<lambda>k. map_option (Pair k) (m k)) ks"

text \<open>
  What the runtime decides before a loop starts: how it would enumerate any finite set of keys. The
  type holds exactly the valid choices, so every order is covered and no other one.
\<close>

typedef 'k map_order = "{f :: 'k set \<Rightarrow> 'k list. \<forall>A. finite A \<longrightarrow> distinct (f A) \<and> set (f A) = A}"
  morphisms visit Abs_map_order
proof -
  have "\<forall>A. \<exists>xs :: 'k list. finite A \<longrightarrow> distinct xs \<and> set xs = A"
    using finite_distinct_list by blast
  from choice[OF this] show ?thesis by auto
qed

definition sorted_order :: "'k::linorder map_order" where
  "sorted_order = Abs_map_order sorted_list_of_set"

subsection \<open>Lemmas on the loops\<close>

lemma update_first_None_iff: "update_first p f xs = None \<longleftrightarrow> (\<forall>x\<in>set xs. \<not> p x)"
  by (induction xs) auto

lemma update_first_SomeE:
  assumes "update_first p f xs = Some (y, ys)"
  obtains us x vs where "xs = us @ x # vs" "ys = us @ f x # vs" "y = f x" "p x"
    "\<forall>u\<in>set us. \<not> p u"
proof -
  have "\<exists>us x vs. xs = us @ x # vs \<and> ys = us @ f x # vs \<and> y = f x \<and> p x \<and> (\<forall>u\<in>set us. \<not> p u)"
    using assms
  proof (induction xs arbitrary: ys)
    case Nil
    then show ?case by simp
  next
    case (Cons a as)
    show ?case
    proof (cases "p a")
      case True
      with Cons.prems have "ys = f a # as" "y = f a" by auto
      with True have "a # as = [] @ a # as \<and> ys = [] @ f a # as \<and> y = f a \<and> p a \<and>
          (\<forall>u\<in>set []. \<not> p u)" by simp
      then show ?thesis by blast
    next
      case False
      with Cons.prems obtain zs where zs: "update_first p f as = Some (y, zs)" "ys = a # zs" by auto
      from Cons.IH[OF zs(1)] obtain us x vs where
        "as = us @ x # vs" "zs = us @ f x # vs" "y = f x" "p x" "\<forall>u\<in>set us. \<not> p u" by blast
      with zs(2) False have "a # as = (a # us) @ x # vs \<and> ys = (a # us) @ f x # vs \<and> y = f x \<and>
          p x \<and> (\<forall>u\<in>set (a # us). \<not> p u)" by simp
      then show ?thesis by blast
    qed
  qed
  with that show thesis by blast
qed

lemma update_first_append:
  "\<forall>u\<in>set us. \<not> p u \<Longrightarrow> p x \<Longrightarrow>
    update_first p f (us @ x # vs) = Some (f x, us @ f x # vs)"
  by (induction us) auto

lemma update_first_map:
  assumes "\<And>x. g (f x) = f' (g x)"
  shows "map_option (\<lambda>(y, ys). (g y, map g ys)) (update_first (\<lambda>x. p (g x)) f xs) =
    update_first p f' (map g xs)"
proof (induction xs)
  case (Cons x xs)
  from Cons[symmetric] show ?case
    by (cases "update_first (\<lambda>x. p (g x)) f xs") (auto simp: assms split: prod.splits)
qed simp

lemma delete_first_None_iff: "delete_first p xs = None \<longleftrightarrow> (\<forall>x\<in>set xs. \<not> p x)"
  by (induction xs) auto

lemma delete_first_SomeE:
  assumes "delete_first p xs = Some ys"
  obtains us x vs where "xs = us @ x # vs" "ys = us @ vs" "p x" "\<forall>u\<in>set us. \<not> p u"
proof -
  have "\<exists>us x vs. xs = us @ x # vs \<and> ys = us @ vs \<and> p x \<and> (\<forall>u\<in>set us. \<not> p u)"
    using assms
  proof (induction xs arbitrary: ys)
    case Nil
    then show ?case by simp
  next
    case (Cons a as)
    show ?case
    proof (cases "p a")
      case True
      with Cons.prems have "a # as = [] @ a # as \<and> ys = [] @ as \<and> p a \<and> (\<forall>u\<in>set []. \<not> p u)"
        by simp
      then show ?thesis by blast
    next
      case False
      with Cons.prems obtain zs where zs: "delete_first p as = Some zs" "ys = a # zs" by auto
      from Cons.IH[OF zs(1)] obtain us x vs where
        "as = us @ x # vs" "zs = us @ vs" "p x" "\<forall>u\<in>set us. \<not> p u" by blast
      with zs(2) False have "a # as = (a # us) @ x # vs \<and> ys = (a # us) @ vs \<and> p x \<and>
          (\<forall>u\<in>set (a # us). \<not> p u)" by simp
      then show ?thesis by blast
    qed
  qed
  with that show thesis by blast
qed

lemma delete_first_append:
  "\<forall>u\<in>set us. \<not> p u \<Longrightarrow> p x \<Longrightarrow> delete_first p (us @ x # vs) = Some (us @ vs)"
  by (induction us) auto

text \<open>
  Where the searched key is unique, removing the first match is a filter and updating it a map.
\<close>

lemma delete_first_distinct:
  assumes "distinct (map g xs)" and "k \<in> g ` set xs"
  shows "delete_first (\<lambda>x. g x = k) xs = Some (filter (\<lambda>x. g x \<noteq> k) xs)"
  using assms
proof (induction xs)
  case Nil
  then show ?case by simp
next
  case (Cons a as)
  show ?case
  proof (cases "g a = k")
    case True
    with Cons.prems have "\<forall>x\<in>set as. g x \<noteq> k" by (metis distinct.simps(2) image_eqI list.set_map list.simps(9))
    with True show ?thesis by simp
  next
    case False
    with Cons show ?thesis by simp
  qed
qed

lemma update_first_distinct:
  assumes "distinct (map g xs)" and "k \<in> g ` set xs" and "\<And>x. g (f x) = g x"
  shows "\<exists>y. update_first (\<lambda>x. g x = k) f xs = Some (y, map (\<lambda>x. if g x = k then f x else x) xs)"
  using assms(1,2)
proof (induction xs)
  case Nil
  then show ?case by simp
next
  case (Cons a as)
  show ?case
  proof (cases "g a = k")
    case True
    with Cons.prems have "\<forall>x\<in>set as. g x \<noteq> k" by (metis distinct.simps(2) image_eqI list.set_map list.simps(9))
    then have "map (\<lambda>x. if g x = k then f x else x) as = as" by (simp add: map_idI)
    with True show ?thesis by simp
  next
    case False
    with Cons show ?thesis by auto
  qed
qed

lemma collect_loop_eq:
  assumes "0 < limit \<longrightarrow> int (length result) < limit"
  shows "collect_loop keep limit xs result = limited limit (result @ filter keep xs)"
  using assms
proof (induction keep limit xs result rule: collect_loop.induct)
  case (1 keep limit result)
  then show ?case by (auto simp: limited_def)
next
  case (2 keep limit x xs result)
  consider (skip) "\<not> keep x" | (stop) "keep x" "0 < limit" "limit \<le> int (length (result @ [x]))"
    | (go) "keep x" "\<not> (0 < limit \<and> limit \<le> int (length (result @ [x])))" by blast
  then show ?case
  proof cases
    case skip
    with 2 show ?thesis by simp
  next
    case stop
    with "2.prems" have "nat limit = length (result @ [x])" by auto
    with stop show ?thesis by (simp add: limited_def)
  next
    case go
    with 2 show ?thesis by auto
  qed
qed

corollary collect_loop_Nil:
  "collect_loop keep limit xs [] = limited limit (filter keep xs)"
  by (simp add: collect_loop_eq)

lemma limited_prefix: "prefix (limited limit xs) xs"
  by (simp add: limited_def take_is_prefix)

lemma set_limited: "x \<in> set (limited limit xs) \<Longrightarrow> x \<in> set xs"
  by (auto simp: limited_def dest: in_set_takeD split: if_splits)

lemma limited_length: "0 < limit \<Longrightarrow> length (limited limit xs) = min (nat limit) (length xs)"
  by (simp add: limited_def)

lemma range_map_Nil [simp]: "range_map m [] = []"
  by (simp add: range_map_def List.map_filter_def)

lemma range_map_Cons [simp]:
  "range_map m (k # ks) =
    (case m k of None \<Rightarrow> range_map m ks | Some v \<Rightarrow> (k, v) # range_map m ks)"
  by (auto simp: range_map_def List.map_filter_def split: option.splits)

lemma range_map_eq: "set ks \<subseteq> dom m \<Longrightarrow> range_map m ks = map (\<lambda>k. (k, the (m k))) ks"
  by (induction ks) auto

lemma set_range_map: "(k, v) \<in> set (range_map m ks) \<longleftrightarrow> k \<in> set ks \<and> m k = Some v"
  by (induction ks) (auto split: option.splits)

lemma set_range_map_order:
  assumes "range_order m ks"
  shows "set (range_map m ks) = {(k, v). m k = Some v}"
  using assms by (auto simp: range_order_def set_range_map)

lemma distinct_range_map: "distinct ks \<Longrightarrow> distinct (map fst (range_map m ks))"
proof (induction ks)
  case (Cons k ks)
  then have "k \<notin> fst ` set (range_map m ks)" by (auto simp: set_range_map)
  with Cons show ?case by (auto split: option.splits)
qed simp

lemma range_order_empty [simp]: "range_order Map.empty ks \<longleftrightarrow> ks = []"
  by (auto simp: range_order_def)

lemma visit_order: "finite (dom m) \<Longrightarrow> range_order m (visit f (dom m))"
  using visit[of f] by (auto simp: range_order_def)

lemma visit_sorted [simp]: "visit sorted_order A = sorted_list_of_set A"
proof -
  have "visit (Abs_map_order sorted_list_of_set) = (sorted_list_of_set :: 'a set \<Rightarrow> 'a list)"
    by (rule Abs_map_order_inverse) simp
  then show ?thesis by (simp add: sorted_order_def)
qed

text \<open>
  A loop over the values of a map that keeps some of them and stops at a limit: whatever the order,
  it yields as many values as the limit allows, all of them wanted and each from a key of its own.
\<close>

lemma range_collect:
  assumes fin: "finite (dom m)"
    and xs: "xs = collect_loop keep limit (map snd (range_map m (visit f (dom m)))) []"
  shows "set xs \<subseteq> {v \<in> ran m. keep v}"
    and "int (length xs) =
      (let n = card {k \<in> dom m. keep (the (m k))} in if 0 < limit then min limit (int n) else int n)"
    and "\<not> 0 < limit \<Longrightarrow> set xs = {v \<in> ran m. keep v}"
    and "inj_on (\<lambda>k. the (m k)) (dom m) \<Longrightarrow> distinct xs"
proof -
  let ?ks = "visit f (dom m)"
  from visit_order[OF fin] have ks: "distinct ?ks" "set ?ks = dom m" by (auto simp: range_order_def)
  have vals: "map snd (range_map m ?ks) = map (\<lambda>k. the (m k)) ?ks"
    using ks by (simp add: range_map_eq)
  have xs': "xs = limited limit (filter keep (map (\<lambda>k. the (m k)) ?ks))"
    using xs by (simp add: vals collect_loop_Nil)
  have set_all: "set (filter keep (map (\<lambda>k. the (m k)) ?ks)) = {v \<in> ran m. keep v}"
    using ks by (force simp: ran_def)
  show "set xs \<subseteq> {v \<in> ran m. keep v}" using set_all by (auto simp: xs' dest: set_limited)
  show "\<not> 0 < limit \<Longrightarrow> set xs = {v \<in> ran m. keep v}" using set_all by (simp add: xs' limited_def)
  have "length (filter keep (map (\<lambda>k. the (m k)) ?ks)) = length (filter (\<lambda>k. keep (the (m k))) ?ks)"
    by (simp add: filter_map o_def)
  also have "\<dots> = card {k \<in> dom m. keep (the (m k))}"
    using ks distinct_card[of "filter (\<lambda>k. keep (the (m k))) ?ks"] by simp
  finally show "int (length xs) =
      (let n = card {k \<in> dom m. keep (the (m k))} in if 0 < limit then min limit (int n) else int n)"
    by (auto simp: xs' limited_def Let_def)
  assume "inj_on (\<lambda>k. the (m k)) (dom m)"
  with ks have "distinct (map (\<lambda>k. the (m k)) ?ks)" by (simp add: distinct_map)
  then show "distinct xs" by (auto simp: xs' limited_def)
qed

end
