(* ===== verification/Go_Stdlib.thy ===== *)
theory Go_Stdlib
  imports Prelude
begin

text \<open>
  The parts of the Go language and of its standard library that the program uses: bytes and
  strings, machine integers, \<^verbatim>\<open>time\<close>, \<^verbatim>\<open>crypto/rand\<close>, \<^verbatim>\<open>encoding/hex\<close>, \<^verbatim>\<open>strings.HasPrefix\<close> and
  \<^verbatim>\<open>strconv.Atoi\<close>. What a run takes from outside (the clock, the random source, the iteration
  order of maps) is the \<open>world\<close>, from which each call takes the next sample.
\<close>

unbundle bit_operations_syntax

subsection \<open>Bytes, strings, integers\<close>

type_synonym byte = "8 word"
type_synonym bytes = "byte list"

text \<open>
  A Go string is a byte sequence, as an Isabelle \<open>string\<close> is; \<^verbatim>\<open>[]byte(s)\<close> is \<open>bytes_of\<close>.
  An \<^verbatim>\<open>int\<close> (or \<^verbatim>\<open>int64\<close>) is an \<open>int\<close> in the 64-bit range; arithmetic that can leave the range is
  wrapped explicitly with \<open>wrap64\<close>.
\<close>

definition bytes_of :: "string \<Rightarrow> bytes" where
  "bytes_of s = map of_char s"

definition wrap64 :: "int \<Rightarrow> int" where
  "wrap64 x = (x + 2 ^ 63) mod 2 ^ 64 - 2 ^ 63"

definition max_int64 :: int where "max_int64 = 2 ^ 63 - 1"
definition min_int64 :: int where "min_int64 = - (2 ^ 63)"

definition int64_range :: "int \<Rightarrow> bool" where
  "int64_range x \<longleftrightarrow> min_int64 \<le> x \<and> x \<le> max_int64"

subsection \<open>Time\<close>

text \<open>
  A \<^verbatim>\<open>time.Time\<close> is the number of nanoseconds since the zero time (January 1, year 1, UTC), so the
  zero time is \<open>0\<close> and a time in year 0 is negative; a \<^verbatim>\<open>time.Duration\<close> is a signed number of
  nanoseconds. \<^verbatim>\<open>Time\<close> keeps 64-bit seconds, so adding a duration does not overflow. \<^verbatim>\<open>Time.Sub\<close> (which
  \<^verbatim>\<open>time.Since\<close> calls) saturates at the smallest and largest durations.
\<close>

type_synonym time = int
type_synonym duration = int

definition time_IsZero :: "time \<Rightarrow> bool" where "time_IsZero t \<longleftrightarrow> t = 0"
definition time_After :: "time \<Rightarrow> time \<Rightarrow> bool" where "time_After t u \<longleftrightarrow> u < t"
definition time_Before :: "time \<Rightarrow> time \<Rightarrow> bool" where "time_Before t u \<longleftrightarrow> t < u"
definition time_Add :: "time \<Rightarrow> duration \<Rightarrow> time" where "time_Add t d = t + d"

definition time_Sub :: "time \<Rightarrow> time \<Rightarrow> duration" where
  "time_Sub t u = max min_int64 (min max_int64 (t - u))"

lemmas time_defs = time_IsZero_def time_After_def time_Before_def time_Add_def

definition Millisecond :: duration where "Millisecond = 10 ^ 6"
definition Second :: duration where "Second = 10 ^ 9"
definition Hour :: duration where "Hour = 3600 * 10 ^ 9"

subsection \<open>The world outside\<close>

text \<open>
  \<open>clock\<close> are the successive readings of \<^verbatim>\<open>time.Now()\<close>, \<open>entropy\<close> the bytes that successive
  \<^verbatim>\<open>rand.Read\<close> calls deliver (since Go 1.24 \<^verbatim>\<open>rand.Read\<close> does not fail), \<open>map_orders\<close> the orders
  in which successive \<^verbatim>\<open>range\<close> loops visit a map. Nothing is assumed of the three streams; where a
  property needs a clock that does not go back or identifiers that do not collide, it says so.
\<close>

record world =
  clock :: "time stream"
  entropy :: "byte stream"
  map_orders :: "string map_order stream"

definition time_Now :: "world \<Rightarrow> time \<times> world" where
  "time_Now w = (shd (clock w), w\<lparr>clock := stl (clock w)\<rparr>)"

definition rand_Read :: "nat \<Rightarrow> world \<Rightarrow> bytes \<times> world" where
  "rand_Read n w = (stake n (entropy w), w\<lparr>entropy := sdrop n (entropy w)\<rparr>)"

definition map_range :: "(string \<rightharpoonup> 'v) \<Rightarrow> world \<Rightarrow> (string \<times> 'v) list \<times> world" where
  "map_range m w =
    (range_map m (visit (shd (map_orders w)) (dom m)), w\<lparr>map_orders := stl (map_orders w)\<rparr>)"

definition ascending :: "time stream \<Rightarrow> bool" where
  "ascending ts \<longleftrightarrow> (\<forall>n. ts !! n \<le> ts !! Suc n)"

definition mono_clock :: "world \<Rightarrow> bool" where
  "mono_clock w \<longleftrightarrow> ascending (clock w)"

text \<open>An operation on a provider with state \<open>'s\<close>: the result, the new state and the new world.\<close>

type_synonym ('s, 'a) action = "'s \<Rightarrow> world \<Rightarrow> 'a \<times> 's \<times> world"

subsection \<open>encoding/hex\<close>

definition hextable :: string where "hextable = ''0123456789abcdef''"

primrec hex_EncodeToString :: "bytes \<Rightarrow> string" where
  "hex_EncodeToString [] = []"
| "hex_EncodeToString (v # src) =
     hextable ! unat (drop_bit 4 v) # hextable ! unat (v AND 15) # hex_EncodeToString src"

subsection \<open>strconv.Atoi\<close>

datatype num_error = ErrSyntax | ErrRange

definition is_digit :: "char \<Rightarrow> bool" where
  "is_digit c \<longleftrightarrow> 48 \<le> (of_char c :: nat) \<and> (of_char c :: nat) \<le> 57"

definition digit_val :: "char \<Rightarrow> nat" where
  "digit_val c = of_char c - 48"

text \<open>
  The digit loop of \<^verbatim>\<open>strconv.ParseUint(s, 10, 64)\<close>: a character that is no digit is a syntax error,
  a value above the largest \<^verbatim>\<open>uint64\<close> a range error at once, without a look at what follows.
\<close>

fun parse_uint_loop :: "nat \<Rightarrow> string \<Rightarrow> num_error + nat" where
  "parse_uint_loop n [] = Inr n"
| "parse_uint_loop n (c # cs) =
     (if \<not> is_digit c then Inl ErrSyntax
      else if 2 ^ 64 \<le> n * 10 + digit_val c then Inl ErrRange
      else parse_uint_loop (n * 10 + digit_val c) cs)"

definition parse_uint :: "string \<Rightarrow> num_error + nat" where
  "parse_uint s = (if s = [] then Inl ErrSyntax else parse_uint_loop 0 s)"

text \<open>
  \<^verbatim>\<open>strconv.Atoi\<close> on a 64-bit platform: the returned number together with the error. On a range
  error the number is the nearest 64-bit integer, on a syntax error it is \<open>0\<close>.
\<close>

definition Atoi :: "string \<Rightarrow> int \<times> num_error option" where
  "Atoi s =
    (let neg = (s \<noteq> [] \<and> hd s = CHR ''-'');
         ds = (if s \<noteq> [] \<and> (hd s = CHR ''-'' \<or> hd s = CHR ''+'') then tl s else s)
     in case parse_uint ds of
          Inl ErrSyntax \<Rightarrow> (0, Some ErrSyntax)
        | Inl ErrRange \<Rightarrow> (if neg then min_int64 else max_int64, Some ErrRange)
        | Inr n \<Rightarrow>
            if \<not> neg \<and> 2 ^ 63 \<le> n then (max_int64, Some ErrRange)
            else if neg \<and> 2 ^ 63 < n then (min_int64, Some ErrRange)
            else (if neg then - int n else int n, None))"

subsection \<open>Lemmas\<close>

lemma wrap64_range: "int64_range (wrap64 x)"
proof -
  have "0 \<le> (x + 2 ^ 63) mod 2 ^ 64" "(x + 2 ^ 63) mod 2 ^ 64 < (2 ^ 64 :: int)" by simp_all
  then show ?thesis by (simp add: wrap64_def int64_range_def min_int64_def max_int64_def)
qed

lemma wrap64_id: "int64_range x \<Longrightarrow> wrap64 x = x"
  by (simp add: wrap64_def int64_range_def min_int64_def max_int64_def)

lemma time_Sub_greater_iff:
  "min_int64 \<le> d \<Longrightarrow> d < max_int64 \<Longrightarrow> d < time_Sub t u \<longleftrightarrow> d < t - u"
  by (auto simp: time_Sub_def)

lemma ascending_SCons [simp]: "ascending (t ## ts) \<longleftrightarrow> t \<le> shd ts \<and> ascending ts"
proof -
  have "(\<forall>n. (t ## ts) !! n \<le> (t ## ts) !! Suc n) \<longleftrightarrow>
      (t ## ts) !! 0 \<le> (t ## ts) !! Suc 0 \<and> (\<forall>n. (t ## ts) !! Suc n \<le> (t ## ts) !! Suc (Suc n))"
    by (metis not0_implies_Suc)
  then show ?thesis by (simp add: ascending_def)
qed

lemma ascending_sconst [simp]: "ascending (sconst t)"
  by (simp add: ascending_def)

lemma ascending_stl: "ascending ts \<Longrightarrow> ascending (stl ts) \<and> shd ts \<le> shd (stl ts)"
  by (cases ts) simp

lemma mono_clockD: "mono_clock w \<Longrightarrow> i \<le> j \<Longrightarrow> clock w !! i \<le> clock w !! j"
  by (auto simp: mono_clock_def ascending_def intro: lift_Suc_mono_le)

lemma mono_clock_cong: "clock w' = clock w \<Longrightarrow> mono_clock w' = mono_clock w"
  by (simp add: mono_clock_def)

lemma mono_clock_next:
  "mono_clock w \<Longrightarrow> clock w' = stl (clock w) \<Longrightarrow> mono_clock w' \<and> shd (clock w) \<le> shd (clock w')"
  by (simp add: mono_clock_def ascending_stl)

text \<open>A world with a given clock, for concrete runs: the random bytes are zero, maps are visited in key order.\<close>

definition clock_world :: "time stream \<Rightarrow> world" where
  "clock_world ts = \<lparr>clock = ts, entropy = sconst 0, map_orders = sconst sorted_order\<rparr>"

lemma clock_world_simps [simp]:
  "clock (clock_world ts) = ts" "entropy (clock_world ts) = sconst 0"
  "map_orders (clock_world ts) = sconst sorted_order"
  by (simp_all add: clock_world_def)

lemma length_hex [simp]: "length (hex_EncodeToString bs) = 2 * length bs"
  by (induction bs) auto

lemma newID_nonempty: "hex_EncodeToString (stake 16 bs) \<noteq> ''''"
proof -
  have "length (hex_EncodeToString (stake 16 bs)) = 32" by simp
  then show ?thesis by (metis list.size(3) zero_neq_numeral)
qed

lemma hextable_inj: "i < 16 \<Longrightarrow> j < 16 \<Longrightarrow> hextable ! i = hextable ! j \<Longrightarrow> i = j"
proof -
  have "distinct hextable" "length hextable = 16" by (simp_all add: hextable_def)
  then show "i < 16 \<Longrightarrow> j < 16 \<Longrightarrow> hextable ! i = hextable ! j \<Longrightarrow> i = j"
    by (simp add: nth_eq_iff_index_eq)
qed

lemma byte_nibbles: "v = push_bit 4 (drop_bit 4 v) + (v AND 15)" for v :: byte
proof -
  have "v AND 15 = take_bit 4 v" by (simp add: take_bit_eq_mask mask_eq_exp_minus_1)
  then show ?thesis using bits_ident[of 4 v] by simp
qed

lemma nibble_bounds: "unat (drop_bit 4 v) < 16" "unat (v AND 15) < 16" for v :: byte
proof -
  have "unat (drop_bit 4 v) = drop_bit 4 (unat v)" by (rule unat_drop_bit_eq)
  then have "unat (drop_bit 4 v) = unat v div 16" by (simp only: drop_bit_eq_div) simp
  moreover have "unat v < 256" using unsigned_less[where ?'a = nat, of v] by simp
  ultimately show "unat (drop_bit 4 v) < 16" by simp
  have "v AND 15 = take_bit 4 v" by (simp add: take_bit_eq_mask mask_eq_exp_minus_1)
  then have "unat (v AND 15) = take_bit 4 (unat v)" by (simp only: unsigned_take_bit_eq)
  then have "unat (v AND 15) = unat v mod 16" by (simp only: take_bit_eq_mod) simp
  then show "unat (v AND 15) < 16" by simp
qed

lemma hex_byte_inj:
  fixes u v :: byte
  assumes "hextable ! unat (drop_bit 4 u) = hextable ! unat (drop_bit 4 v)"
    and "hextable ! unat (u AND 15) = hextable ! unat (v AND 15)"
  shows "u = v"
proof -
  from assms have "unat (drop_bit 4 u) = unat (drop_bit 4 v)" "unat (u AND 15) = unat (v AND 15)"
    by (auto intro: hextable_inj nibble_bounds)
  then have "drop_bit 4 u = drop_bit 4 v" "u AND 15 = v AND 15"
    by (simp_all add: word_unat_eq_iff)
  then show ?thesis by (metis byte_nibbles)
qed

lemma hex_inj: "hex_EncodeToString xs = hex_EncodeToString ys \<longleftrightarrow> xs = ys"
proof
  assume "hex_EncodeToString xs = hex_EncodeToString ys"
  then show "xs = ys"
  proof (induction xs arbitrary: ys)
    case Nil
    then show ?case by (cases ys) auto
  next
    case (Cons x xs)
    then obtain y ys' where ys: "ys = y # ys'" by (cases ys) auto
    with Cons.prems have "x = y" by (auto intro: hex_byte_inj)
    with Cons ys show ?case by simp
  qed
qed simp

lemma Atoi_range: "int64_range (fst (Atoi s))"
  by (auto simp: Atoi_def Let_def int64_range_def min_int64_def max_int64_def
      split: sum.splits num_error.splits)

text \<open>One world is reached from another by reading the clock some number of times.\<close>

definition clock_after :: "world \<Rightarrow> world \<Rightarrow> bool" where
  "clock_after w w' \<longleftrightarrow> (\<exists>n. clock w' = sdrop n (clock w))"

lemma clock_after_refl: "clock w' = clock w \<Longrightarrow> clock_after w w'"
  unfolding clock_after_def by (rule exI[of _ 0]) simp

lemma clock_after_read: "clock w' = stl (clock w) \<Longrightarrow> clock_after w w'"
  unfolding clock_after_def by (rule exI[of _ 1]) simp

lemma clock_after_trans: "clock_after w w' \<Longrightarrow> clock_after w' w'' \<Longrightarrow> clock_after w w''"
  unfolding clock_after_def by (metis sdrop_add)

lemma clock_after_mono:
  assumes "mono_clock w" and "clock_after w w'"
  shows "mono_clock w'" and "shd (clock w) \<le> shd (clock w')"
proof -
  from assms(2) obtain n where n: "clock w' = sdrop n (clock w)" by (auto simp: clock_after_def)
  with assms(1) show "mono_clock w'" by (auto simp: mono_clock_def ascending_def sdrop_snth)
  from mono_clockD[OF assms(1), of 0 n] n show "shd (clock w) \<le> shd (clock w')" by simp
qed

text \<open>A clock that does not go back and has left the zero time behind.\<close>

definition clock_ok :: "world \<Rightarrow> bool" where
  "clock_ok w \<longleftrightarrow> mono_clock w \<and> 0 < shd (clock w)"

lemma clock_ok_after:
  assumes "clock_ok w" and "clock_after w w'"
  shows "clock_ok w'" and "shd (clock w) \<le> shd (clock w')"
  using assms clock_after_mono[of w w'] by (auto simp: clock_ok_def)

end
