(* ===== verification/Model.thy ===== *)
theory Model
  imports Go_Stdlib
begin

text \<open>
  The domain types of \<^verbatim>\<open>src/model/\<close>, one record per Go struct. A Go named string type
  (\<^verbatim>\<open>DesiredState\<close>, \<^verbatim>\<open>ObservedState\<close>, \<^verbatim>\<open>RestartPolicy\<close>) is open: any string is a value of it, and its
  constants are definitions. A slice or map that can be nil is an option, \<open>None\<close> being nil; a
  \<^verbatim>\<open>map[string]string\<close> is a finite map.
\<close>

subsection \<open>vm.go\<close>

type_synonym DesiredState = string

definition DesiredRunning :: DesiredState where "DesiredRunning = ''running''"
definition DesiredStopped :: DesiredState where "DesiredStopped = ''stopped''"
definition DesiredDeleted :: DesiredState where "DesiredDeleted = ''deleted''"

lemmas desired_state_defs = DesiredRunning_def DesiredStopped_def DesiredDeleted_def

type_synonym ObservedState = string

definition ObservedPending :: ObservedState where "ObservedPending = ''pending''"
definition ObservedScheduled :: ObservedState where "ObservedScheduled = ''scheduled''"
definition ObservedPreparing :: ObservedState where "ObservedPreparing = ''preparing''"
definition ObservedStarting :: ObservedState where "ObservedStarting = ''starting''"
definition ObservedRunning :: ObservedState where "ObservedRunning = ''running''"
definition ObservedStopping :: ObservedState where "ObservedStopping = ''stopping''"
definition ObservedStopped :: ObservedState where "ObservedStopped = ''stopped''"
definition ObservedFailed :: ObservedState where "ObservedFailed = ''failed''"
definition ObservedDeleted :: ObservedState where "ObservedDeleted = ''deleted''"

lemmas observed_state_defs = ObservedPending_def ObservedScheduled_def ObservedPreparing_def
  ObservedStarting_def ObservedRunning_def ObservedStopping_def ObservedStopped_def
  ObservedFailed_def ObservedDeleted_def

type_synonym RestartPolicy = string

definition RestartNever :: RestartPolicy where "RestartNever = ''never''"
definition RestartOnFailure :: RestartPolicy where "RestartOnFailure = ''on_failure''"
definition RestartAlways :: RestartPolicy where "RestartAlways = ''always''"

type_synonym string_map = "(string, string) fmap option"

record ResourceSpec =
  rs_VCPUs :: int
  rs_MemoryMB :: int

record LifecycleSpec =
  ls_TimeoutSeconds :: int
  ls_AutoDelete :: bool
  ls_RestartPolicy :: RestartPolicy

record RuntimeSpec =
  rt_Command :: string
  rt_Args :: "string list option"
  rt_Env :: string_map

record PortMapping =
  pm_Guest :: int
  pm_Host :: int
  pm_Protocol :: string

record NetworkSpec =
  ns_Ports :: "PortMapping list option"

record StorageSpec =
  st_RootDiskSizeMB :: int

record PlacementSpec =
  pl_Labels :: string_map

record VMSpec =
  sp_Resources :: ResourceSpec
  sp_Lifecycle :: LifecycleSpec
  sp_Runtime :: RuntimeSpec
  sp_Network :: NetworkSpec
  sp_Storage :: StorageSpec
  sp_Placement :: PlacementSpec
  sp_Metadata :: string_map

record VM =
  vm_ID :: string
  vm_DesiredState :: DesiredState
  vm_ObservedState :: ObservedState
  vm_ImageID :: string
  vm_ControllerID :: string
  vm_Spec :: VMSpec
  vm_CreatedAt :: time
  vm_UpdatedAt :: time

subsection \<open>controller.go\<close>

record CapacityInfo =
  cap_TotalVCPUs :: int
  cap_TotalMemoryMB :: int
  cap_UsedVCPUs :: int
  cap_UsedMemoryMB :: int

record Controller =
  ct_ID :: string
  ct_Status :: string
  ct_Labels :: string_map
  ct_Capacity :: CapacityInfo
  ct_LastHeartbeatAt :: time

record Heartbeat =
  hb_Status :: string
  hb_Capacity :: CapacityInfo

record ControllerFilter =
  cf_Status :: string
  cf_Limit :: int

subsection \<open>event.go\<close>

record Event =
  ev_ID :: string
  ev_VMID :: string
  ev_ControllerID :: string
  ev_Type :: string
  ev_Payload :: "bytes option"
  ev_CreatedAt :: time

record EventFilter =
  ef_VMID :: string
  ef_ControllerID :: string
  ef_Type :: string
  ef_Since :: time
  ef_Limit :: int

subsection \<open>blob.go, job.go, endpoint.go\<close>

record BlobMeta =
  bm_Key :: string
  bm_Size :: int
  bm_Checksum :: string
  bm_ContentType :: string
  bm_Metadata :: string_map
  bm_CreatedAt :: time

record Job =
  jb_ID :: string
  jb_Topic :: string
  jb_Payload :: bytes
  jb_LeaseExpiresAt :: time
  jb_EnqueuedAt :: time
  jb_DequeueCount :: int

record Route =
  ro_Host :: string
  ro_Path :: string

record Target =
  ta_Address :: string
  ta_Port :: int

record Endpoint =
  ep_VMID :: string
  ep_Route :: Route
  ep_Target :: Target

subsection \<open>Zero values\<close>

text \<open>The zero values \<^verbatim>\<open>VMSpec{}\<close>, \<^verbatim>\<open>CapacityInfo{}\<close>, \<^verbatim>\<open>Controller{}\<close>, \<^verbatim>\<open>Event{}\<close> and \<^verbatim>\<open>BlobMeta{}\<close>.\<close>

definition zero_VMSpec :: VMSpec where
  "zero_VMSpec =
    \<lparr>sp_Resources = \<lparr>rs_VCPUs = 0, rs_MemoryMB = 0\<rparr>,
     sp_Lifecycle = \<lparr>ls_TimeoutSeconds = 0, ls_AutoDelete = False, ls_RestartPolicy = ''''\<rparr>,
     sp_Runtime = \<lparr>rt_Command = '''', rt_Args = None, rt_Env = None\<rparr>,
     sp_Network = \<lparr>ns_Ports = None\<rparr>,
     sp_Storage = \<lparr>st_RootDiskSizeMB = 0\<rparr>,
     sp_Placement = \<lparr>pl_Labels = None\<rparr>,
     sp_Metadata = None\<rparr>"

definition zero_CapacityInfo :: CapacityInfo where
  "zero_CapacityInfo =
    \<lparr>cap_TotalVCPUs = 0, cap_TotalMemoryMB = 0, cap_UsedVCPUs = 0, cap_UsedMemoryMB = 0\<rparr>"

definition zero_Controller :: Controller where
  "zero_Controller =
    \<lparr>ct_ID = '''', ct_Status = '''', ct_Labels = None, ct_Capacity = zero_CapacityInfo,
     ct_LastHeartbeatAt = 0\<rparr>"

definition zero_Heartbeat :: Heartbeat where
  "zero_Heartbeat = \<lparr>hb_Status = '''', hb_Capacity = zero_CapacityInfo\<rparr>"

definition zero_ControllerFilter :: ControllerFilter where
  "zero_ControllerFilter = \<lparr>cf_Status = '''', cf_Limit = 0\<rparr>"

definition zero_Event :: Event where
  "zero_Event =
    \<lparr>ev_ID = '''', ev_VMID = '''', ev_ControllerID = '''', ev_Type = '''', ev_Payload = None,
     ev_CreatedAt = 0\<rparr>"

definition zero_EventFilter :: EventFilter where
  "zero_EventFilter =
    \<lparr>ef_VMID = '''', ef_ControllerID = '''', ef_Type = '''', ef_Since = 0, ef_Limit = 0\<rparr>"

definition zero_BlobMeta :: BlobMeta where
  "zero_BlobMeta =
    \<lparr>bm_Key = '''', bm_Size = 0, bm_Checksum = '''', bm_ContentType = '''', bm_Metadata = None,
     bm_CreatedAt = 0\<rparr>"

end
