(* ===== verification/Provider_Err.thy ===== *)
theory Provider_Err
  imports Model
begin

text \<open>
  \<^verbatim>\<open>src/provider/providererr/errors.go\<close>: the structured provider error, its sentinels and
  constructors, and the chain walks \<^verbatim>\<open>errors.Is\<close> and \<^verbatim>\<open>errors.As\<close> of the standard library that callers
  use on it. A Go call that returns \<^verbatim>\<open>(T, error)\<close> is modelled by the sum \<open>go_error + 'a\<close>.
\<close>

subsection \<open>Errors and their chains\<close>

text \<open>
  An error value is a \<^verbatim>\<open>*ProviderError\<close> or an error of some other type, known by its text and by the
  errors it wraps (none, one, or several for a joined error).
\<close>

datatype go_error =
    ProviderError (pe_Code: string) (pe_Message: string) (pe_ResourceType: string)
      (pe_ResourceID: string) (pe_Err: "go_error option")
  | OtherError (oe_text: string) (oe_causes: "go_error list")

definition ErrNotFound :: go_error where
  "ErrNotFound = ProviderError ''not_found'' '''' '''' '''' None"
definition ErrAlreadyExists :: go_error where
  "ErrAlreadyExists = ProviderError ''already_exists'' '''' '''' '''' None"
definition ErrConflict :: go_error where
  "ErrConflict = ProviderError ''conflict'' '''' '''' '''' None"
definition ErrNotSupported :: go_error where
  "ErrNotSupported = ProviderError ''not_supported'' '''' '''' '''' None"
definition ErrCacheMiss :: go_error where
  "ErrCacheMiss = ProviderError ''cache_miss'' '''' '''' '''' None"
definition ErrNoJobs :: go_error where
  "ErrNoJobs = ProviderError ''no_jobs'' '''' '''' '''' None"

lemmas sentinel_defs = ErrNotFound_def ErrAlreadyExists_def ErrConflict_def ErrNotSupported_def
  ErrCacheMiss_def ErrNoJobs_def

fun err_Error :: "go_error \<Rightarrow> string" where
  "err_Error (ProviderError code msg rt rid _) =
     (if msg \<noteq> '''' then msg
      else if rt \<noteq> '''' \<and> rid \<noteq> '''' then code @ '': '' @ rt @ '' '' @ rid
      else code)"
| "err_Error (OtherError text _) = text"

fun err_Unwrap :: "go_error \<Rightarrow> go_error list" where
  "err_Unwrap (ProviderError _ _ _ _ e) = (case e of None \<Rightarrow> [] | Some e' \<Rightarrow> [e'])"
| "err_Unwrap (OtherError _ es) = es"

fun ProviderError_Is :: "go_error \<Rightarrow> go_error \<Rightarrow> bool" where
  "ProviderError_Is (ProviderError c _ _ _ _) (ProviderError c' _ _ _ _) = (c = c')"
| "ProviderError_Is _ _ = False"

definition NotFound :: "string \<Rightarrow> string \<Rightarrow> go_error" where
  "NotFound rt rid = ProviderError ''not_found'' (rt @ '' not found: '' @ rid) rt rid None"

definition AlreadyExists :: "string \<Rightarrow> string \<Rightarrow> go_error" where
  "AlreadyExists rt rid =
     ProviderError ''already_exists'' (rt @ '' already exists: '' @ rid) rt rid None"

definition Conflict :: "string \<Rightarrow> string \<Rightarrow> string \<Rightarrow> go_error" where
  "Conflict rt rid msg = ProviderError ''conflict'' msg rt rid None"

lemmas constructor_defs = NotFound_def AlreadyExists_def Conflict_def

subsection \<open>errors.Is and errors.As\<close>

text \<open>
  \<^verbatim>\<open>errors.Is(err, target)\<close> walks the chain depth first and accepts a node that is the target or whose
  \<^verbatim>\<open>Is\<close> method accepts it. The program only uses \<^verbatim>\<open>*ProviderError\<close> targets; for these the identity
  test adds nothing to \<^verbatim>\<open>ProviderError.Is\<close>, which compares codes. \<^verbatim>\<open>errors.As(err, &pe)\<close> yields the
  first \<^verbatim>\<open>*ProviderError\<close> of the same walk.
\<close>

fun errors_Is :: "go_error \<Rightarrow> go_error \<Rightarrow> bool" where
  "errors_Is (ProviderError c m rt rid None) target =
     ProviderError_Is (ProviderError c m rt rid None) target"
| "errors_Is (ProviderError c m rt rid (Some e)) target =
     (ProviderError_Is (ProviderError c m rt rid (Some e)) target \<or> errors_Is e target)"
| "errors_Is (OtherError text es) target = (\<exists>e\<in>set es. errors_Is e target)"

fun errors_As :: "go_error \<Rightarrow> go_error option"
  and errors_As_list :: "go_error list \<Rightarrow> go_error option" where
  "errors_As (ProviderError c m rt rid e) = Some (ProviderError c m rt rid e)"
| "errors_As (OtherError text es) = errors_As_list es"
| "errors_As_list [] = None"
| "errors_As_list (e # es) =
     (case errors_As e of Some pe \<Rightarrow> Some pe | None \<Rightarrow> errors_As_list es)"

type_synonym 'a result = "go_error + 'a"

subsection \<open>Lemmas\<close>

text \<open>All the errors that a walk visits, in its order.\<close>

fun err_chain :: "go_error \<Rightarrow> go_error list" where
  "err_chain (ProviderError c m rt rid None) = [ProviderError c m rt rid None]"
| "err_chain (ProviderError c m rt rid (Some e)) = ProviderError c m rt rid (Some e) # err_chain e"
| "err_chain (OtherError text es) = OtherError text es # concat (map err_chain es)"

fun is_ProviderErr :: "go_error \<Rightarrow> bool" where
  "is_ProviderErr (ProviderError _ _ _ _ _) = True"
| "is_ProviderErr (OtherError _ _) = False"

lemma ProviderError_Is_iff:
  "ProviderError_Is e t \<longleftrightarrow> is_ProviderErr e \<and> is_ProviderErr t \<and> pe_Code e = pe_Code t"
  by (cases "(e, t)" rule: ProviderError_Is.cases) auto

lemma errors_Is_chain: "errors_Is e t \<longleftrightarrow> (\<exists>x\<in>set (err_chain e). ProviderError_Is x t)"
  by (induction e t rule: errors_Is.induct) auto

lemma errors_Is_constructors [simp]:
  "errors_Is (NotFound rt rid) ErrNotFound" "\<not> errors_Is (NotFound rt rid) ErrAlreadyExists"
  "\<not> errors_Is (NotFound rt rid) ErrConflict"
  "errors_Is (AlreadyExists rt rid) ErrAlreadyExists" "\<not> errors_Is (AlreadyExists rt rid) ErrNotFound"
  "\<not> errors_Is (AlreadyExists rt rid) ErrConflict"
  "errors_Is (Conflict rt rid msg) ErrConflict" "\<not> errors_Is (Conflict rt rid msg) ErrNotFound"
  "\<not> errors_Is (Conflict rt rid msg) ErrAlreadyExists"
  "errors_Is ErrCacheMiss ErrCacheMiss" "errors_Is ErrNoJobs ErrNoJobs"
  "\<not> errors_Is ErrCacheMiss ErrNotFound" "\<not> errors_Is ErrNoJobs ErrNotFound"
  by (simp_all add: sentinel_defs constructor_defs)

lemma err_Unwrap_size: "e' \<in> set (err_Unwrap e) \<Longrightarrow> size e' < size e"
proof (cases e)
  case (ProviderError c m rt rid c')
  assume "e' \<in> set (err_Unwrap e)"
  with ProviderError show ?thesis by (auto split: option.splits)
next
  case (OtherError t es)
  assume "e' \<in> set (err_Unwrap e)"
  with OtherError show ?thesis by (auto simp: less_Suc_eq_le intro: size_list_estimation')
qed

lemma errors_As_Some:
  "errors_As e = Some p \<Longrightarrow> is_ProviderErr p \<and> p \<in> set (err_chain e)"
  and errors_As_list_Some:
  "errors_As_list es = Some p \<Longrightarrow> is_ProviderErr p \<and> p \<in> (\<Union>e\<in>set es. set (err_chain e))"
proof (induction e and es rule: errors_As_errors_As_list.induct)
  case (1 c m rt rid e)
  then show ?case by (cases e) auto
next
  case (4 e es)
  then show ?case by (auto split: option.splits)
qed auto

end
