(* ===== verification/Provider_Interfaces.thy ===== *)
theory Provider_Interfaces
  imports Provider_Err
begin

text \<open>
  The five provider interfaces of \<^verbatim>\<open>src/provider/\<close>. A Go interface value is a record of its methods,
  each an action on the provider's state, so that a client such as the API service takes the
  provider as an argument the way the code injects it. For the state store the theory also gives
  the contract its clients rely on: an abstract control-plane state and, as a locale, what every
  method promises of it. (The contracts of the other providers are stated next to them.)
\<close>

subsection \<open>provider/state/state.go\<close>

record 's StateStore =
  ss_CreateVM :: "VMSpec \<Rightarrow> ('s, string result) action"
  ss_GetVM :: "string \<Rightarrow> ('s, VM result) action"
  ss_UpdateVMDesiredState :: "string \<Rightarrow> DesiredState \<Rightarrow> ('s, unit result) action"
  ss_UpdateVMObservedState :: "string \<Rightarrow> ObservedState \<Rightarrow> string \<Rightarrow> ('s, unit result) action"
  ss_AssignVM :: "string \<Rightarrow> string \<Rightarrow> ('s, unit result) action"
  ss_ListPendingVMs :: "('s, VM list result) action"
  ss_AppendEvent :: "Event \<Rightarrow> ('s, unit result) action"
  ss_ListEvents :: "EventFilter \<Rightarrow> ('s, Event list result) action"
  ss_RegisterController :: "Controller \<Rightarrow> ('s, unit result) action"
  ss_UpdateControllerHeartbeat :: "string \<Rightarrow> Heartbeat \<Rightarrow> ('s, unit result) action"
  ss_ListControllers :: "ControllerFilter \<Rightarrow> ('s, Controller list result) action"

subsection \<open>provider/queue/queue.go, cache/cache.go, blob/blob.go, ingress/ingress.go\<close>

record 'q WorkQueue =
  wq_Enqueue :: "string \<Rightarrow> bytes \<Rightarrow> ('q, string result) action"
  wq_Dequeue :: "string \<Rightarrow> duration \<Rightarrow> ('q, Job result) action"
  wq_Ack :: "string \<Rightarrow> ('q, unit result) action"
  wq_Nack :: "string \<Rightarrow> time \<Rightarrow> ('q, unit result) action"

record 'c CacheStore =
  cs_Get :: "string \<Rightarrow> ('c, bytes result) action"
  cs_Set :: "string \<Rightarrow> bytes \<Rightarrow> duration \<Rightarrow> ('c, unit result) action"
  cs_Delete :: "string \<Rightarrow> ('c, unit result) action"

record 'c AtomicCacheStore = "'c CacheStore" +
  cs_CompareAndSet :: "string \<Rightarrow> bytes option \<Rightarrow> bytes \<Rightarrow> duration \<Rightarrow> ('c, bool result) action"

text \<open>An \<^verbatim>\<open>io.Reader\<close> is known by what \<^verbatim>\<open>io.ReadAll\<close> makes of it: its bytes, or a read error.\<close>

type_synonym io_reader = "bytes result"

record 'b BlobStore =
  bs_Put :: "string \<Rightarrow> io_reader \<Rightarrow> BlobMeta \<Rightarrow> ('b, unit result) action"
  bs_Get :: "string \<Rightarrow> ('b, io_reader result) action"
  bs_Head :: "string \<Rightarrow> ('b, BlobMeta result) action"
  bs_Delete :: "string \<Rightarrow> ('b, unit result) action"
  bs_Exists :: "string \<Rightarrow> ('b, bool result) action"
  bs_List :: "string \<Rightarrow> ('b, BlobMeta list result) action"

record 'i IngressProvider =
  ip_RegisterEndpoint :: "string \<Rightarrow> Route \<Rightarrow> Target \<Rightarrow> ('i, Endpoint result) action"
  ip_UnregisterEndpoint :: "string \<Rightarrow> ('i, unit result) action"
  ip_GetEndpoint :: "string \<Rightarrow> ('i, Endpoint result) action"

subsection \<open>The abstract control plane\<close>

text \<open>
  What a state store is about, whatever backs it: VM records and controller records by identifier
  and an append-only event log.
\<close>

record cp_view =
  cp_vms :: "string \<rightharpoonup> VM"
  cp_ctrls :: "string \<rightharpoonup> Controller"
  cp_log :: "Event list"

text \<open>A new VM record, as \<^verbatim>\<open>CreateVM\<close> promises it; the timestamps are the store's own.\<close>

definition fresh_vm :: "string \<Rightarrow> VMSpec \<Rightarrow> VM \<Rightarrow> bool" where
  "fresh_vm vid spec vm \<longleftrightarrow>
     vm_ID vm = vid \<and> vm_DesiredState vm = DesiredRunning \<and> vm_ObservedState vm = ObservedPending \<and>
     vm_ImageID vm = '''' \<and> vm_ControllerID vm = '''' \<and> vm_Spec vm = spec \<and>
     vm_UpdatedAt vm = vm_CreatedAt vm"

text \<open>What the log holds for an appended event: a missing identifier or time is filled in.\<close>

definition completes :: "Event \<Rightarrow> Event \<Rightarrow> bool" where
  "completes e e' \<longleftrightarrow>
     e' = e\<lparr>ev_ID := ev_ID e', ev_CreatedAt := ev_CreatedAt e'\<rparr> \<and> ev_ID e' \<noteq> '''' \<and>
     (ev_ID e \<noteq> '''' \<longrightarrow> ev_ID e' = ev_ID e) \<and>
     (ev_CreatedAt e \<noteq> 0 \<longrightarrow> ev_CreatedAt e' = ev_CreatedAt e)"

text \<open>The filters, with the convention that a zero-value field is ignored.\<close>

definition event_matches :: "EventFilter \<Rightarrow> Event \<Rightarrow> bool" where
  "event_matches f e \<longleftrightarrow>
     (ef_VMID f = '''' \<or> ev_VMID e = ef_VMID f) \<and>
     (ef_ControllerID f = '''' \<or> ev_ControllerID e = ef_ControllerID f) \<and>
     (ef_Type f = '''' \<or> ev_Type e = ef_Type f) \<and>
     (ef_Since f = 0 \<or> ef_Since f \<le> ev_CreatedAt e)"

definition controller_matches :: "ControllerFilter \<Rightarrow> Controller \<Rightarrow> bool" where
  "controller_matches f c \<longleftrightarrow> cf_Status f = '''' \<or> ct_Status c = cf_Status f"

definition heartbeat_applied :: "Heartbeat \<Rightarrow> Controller \<Rightarrow> Controller \<Rightarrow> bool" where
  "heartbeat_applied hb c c' \<longleftrightarrow>
     (\<exists>t. c' = c\<lparr>ct_Status := hb_Status hb, ct_Capacity := hb_Capacity hb, ct_LastHeartbeatAt := t\<rparr>)"

subsection \<open>The contract of a state store\<close>

text \<open>
  \<open>view\<close> abstracts the store. A method that reports an error leaves the abstract state as it was
  (updates are atomic); one that succeeds has the promised effect and no other. A store may fail
  for reasons of its own, but it reports a missing record as \<^verbatim>\<open>ErrNotFound\<close>.
\<close>

locale state_store =
  fixes ops :: "'s StateStore" and inv :: "'s \<Rightarrow> bool" and view :: "'s \<Rightarrow> cp_view"
  assumes create_ok: "inv s \<Longrightarrow> ss_CreateVM ops spec s w = (Inr vid, s', w') \<Longrightarrow>
      inv s' \<and> vid \<noteq> '''' \<and>
      (\<exists>vm. fresh_vm vid spec vm \<and> view s' = (view s)\<lparr>cp_vms := (cp_vms (view s))(vid \<mapsto> vm)\<rparr>)"
    and create_err: "inv s \<Longrightarrow> ss_CreateVM ops spec s w = (Inl e, s', w') \<Longrightarrow> inv s' \<and> view s' = view s"
    and get_view: "inv s \<Longrightarrow> ss_GetVM ops vid s w = (r, s', w') \<Longrightarrow> inv s' \<and> view s' = view s"
    and get_ok: "inv s \<Longrightarrow> ss_GetVM ops vid s w = (Inr vm, s', w') \<Longrightarrow> cp_vms (view s) vid = Some vm"
    and get_missing: "inv s \<Longrightarrow> cp_vms (view s) vid = None \<Longrightarrow>
      \<exists>e s' w'. ss_GetVM ops vid s w = (Inl e, s', w') \<and> errors_Is e ErrNotFound"
    and desired_ok: "inv s \<Longrightarrow> ss_UpdateVMDesiredState ops vid d s w = (Inr u, s', w') \<Longrightarrow>
      inv s' \<and> (\<exists>vm t. cp_vms (view s) vid = Some vm \<and> view s' = (view s)\<lparr>cp_vms :=
        (cp_vms (view s))(vid \<mapsto> vm\<lparr>vm_DesiredState := d, vm_UpdatedAt := t\<rparr>)\<rparr>)"
    and desired_err: "inv s \<Longrightarrow> ss_UpdateVMDesiredState ops vid d s w = (Inl e, s', w') \<Longrightarrow>
      inv s' \<and> view s' = view s"
    and desired_missing: "inv s \<Longrightarrow> cp_vms (view s) vid = None \<Longrightarrow>
      \<exists>e s' w'. ss_UpdateVMDesiredState ops vid d s w = (Inl e, s', w') \<and> errors_Is e ErrNotFound"
    and append_ok: "inv s \<Longrightarrow> ss_AppendEvent ops ev s w = (Inr u, s', w') \<Longrightarrow>
      inv s' \<and> (\<exists>ev'. completes ev ev' \<and> view s' = (view s)\<lparr>cp_log := cp_log (view s) @ [ev']\<rparr>)"
    and append_err: "inv s \<Longrightarrow> ss_AppendEvent ops ev s w = (Inl e, s', w') \<Longrightarrow>
      inv s' \<and> view s' = view s"
    and events_view: "inv s \<Longrightarrow> ss_ListEvents ops f s w = (re, s', w') \<Longrightarrow> inv s' \<and> view s' = view s"
    and events_ok: "inv s \<Longrightarrow> ss_ListEvents ops f s w = (Inr evs, s', w') \<Longrightarrow>
      evs = limited (ef_Limit f) (filter (event_matches f) (cp_log (view s)))"
    and register_ok: "inv s \<Longrightarrow> ss_RegisterController ops c s w = (Inr u, s', w') \<Longrightarrow>
      inv s' \<and> cp_ctrls (view s) (ct_ID c) = None \<and>
      view s' = (view s)\<lparr>cp_ctrls := (cp_ctrls (view s))(ct_ID c \<mapsto> c)\<rparr>"
    and register_err: "inv s \<Longrightarrow> ss_RegisterController ops c s w = (Inl e, s', w') \<Longrightarrow>
      inv s' \<and> view s' = view s"
    and register_exists: "inv s \<Longrightarrow> cp_ctrls (view s) (ct_ID c) \<noteq> None \<Longrightarrow>
      \<exists>e s' w'. ss_RegisterController ops c s w = (Inl e, s', w') \<and> errors_Is e ErrAlreadyExists"
    and heartbeat_ok: "inv s \<Longrightarrow> ss_UpdateControllerHeartbeat ops vid hb s w = (Inr u, s', w') \<Longrightarrow>
      inv s' \<and> (\<exists>c c'. cp_ctrls (view s) vid = Some c \<and> heartbeat_applied hb c c' \<and>
        view s' = (view s)\<lparr>cp_ctrls := (cp_ctrls (view s))(vid \<mapsto> c')\<rparr>)"
    and heartbeat_err: "inv s \<Longrightarrow> ss_UpdateControllerHeartbeat ops vid hb s w = (Inl e, s', w') \<Longrightarrow>
      inv s' \<and> view s' = view s"
    and heartbeat_missing: "inv s \<Longrightarrow> cp_ctrls (view s) vid = None \<Longrightarrow>
      \<exists>e s' w'. ss_UpdateControllerHeartbeat ops vid hb s w = (Inl e, s', w') \<and>
        errors_Is e ErrNotFound"
    and controllers_view: "inv s \<Longrightarrow> ss_ListControllers ops cf s w = (rc, s', w') \<Longrightarrow>
      inv s' \<and> view s' = view s"
    and controllers_ok: "inv s \<Longrightarrow> ss_ListControllers ops cf s w = (Inr cs, s', w') \<Longrightarrow>
      distinct cs \<and> set cs \<subseteq> {c \<in> ran (cp_ctrls (view s)). controller_matches cf c} \<and>
      (let n = card {k \<in> dom (cp_ctrls (view s)).
                     controller_matches cf (the (cp_ctrls (view s) k))}
       in int (length cs) = (if 0 < cf_Limit cf then min (cf_Limit cf) (int n) else int n))"
    and observed_ok: "inv s \<Longrightarrow> ss_UpdateVMObservedState ops vid ob cid s w = (Inr u, s', w') \<Longrightarrow>
      inv s' \<and> (\<exists>vm t. cp_vms (view s) vid = Some vm \<and> view s' = (view s)\<lparr>cp_vms :=
        (cp_vms (view s))(vid \<mapsto>
          vm\<lparr>vm_ObservedState := ob, vm_ControllerID := cid, vm_UpdatedAt := t\<rparr>)\<rparr>)"
    and observed_err: "inv s \<Longrightarrow> ss_UpdateVMObservedState ops vid ob cid s w = (Inl e, s', w') \<Longrightarrow>
      inv s' \<and> view s' = view s"
    and assign_ok: "inv s \<Longrightarrow> ss_AssignVM ops vid cid s w = (Inr u, s', w') \<Longrightarrow>
      inv s' \<and> (\<exists>vm t. cp_vms (view s) vid = Some vm \<and> vm_ControllerID vm = '''' \<and>
        view s' = (view s)\<lparr>cp_vms := (cp_vms (view s))(vid \<mapsto>
          vm\<lparr>vm_ControllerID := cid, vm_UpdatedAt := t\<rparr>)\<rparr>)"
    and assign_err: "inv s \<Longrightarrow> ss_AssignVM ops vid cid s w = (Inl e, s', w') \<Longrightarrow>
      inv s' \<and> view s' = view s"
    and assign_taken: "inv s \<Longrightarrow> cp_vms (view s) vid = Some vm \<Longrightarrow> vm_ControllerID vm \<noteq> '''' \<Longrightarrow>
      \<exists>e s' w'. ss_AssignVM ops vid cid s w = (Inl e, s', w') \<and> errors_Is e ErrConflict"
    and pending_view: "inv s \<Longrightarrow> ss_ListPendingVMs ops s w = (rp, s', w') \<Longrightarrow> inv s' \<and> view s' = view s"
    and pending_ok: "inv s \<Longrightarrow> ss_ListPendingVMs ops s w = (Inr vs, s', w') \<Longrightarrow>
      distinct vs \<and>
      set vs = {vm \<in> ran (cp_vms (view s)). vm_ObservedState vm = ObservedPending}"

text \<open>A store whose event log does not fail: the service ignores the result of \<^verbatim>\<open>AppendEvent\<close>.\<close>

locale reliable_state_store = state_store +
  assumes append_total: "inv s \<Longrightarrow> \<exists>s' w'. ss_AppendEvent ops ev s w = (Inr (), s', w')"

lemma event_matches_zero: "event_matches zero_EventFilter e"
  by (simp add: event_matches_def zero_EventFilter_def)

lemma completesD:
  assumes "completes e e'"
  shows "ev_VMID e' = ev_VMID e" "ev_Type e' = ev_Type e" "ev_ControllerID e' = ev_ControllerID e"
    "ev_Payload e' = ev_Payload e"
proof -
  from assms have e': "e' = e\<lparr>ev_ID := ev_ID e', ev_CreatedAt := ev_CreatedAt e'\<rparr>"
    by (simp add: completes_def)
  show "ev_VMID e' = ev_VMID e" by (subst e') simp
  show "ev_Type e' = ev_Type e" by (subst e') simp
  show "ev_ControllerID e' = ev_ControllerID e" by (subst e') simp
  show "ev_Payload e' = ev_Payload e" by (subst e') simp
qed

end
