(* ===== verification/Mem_State.thy ===== *)
theory Mem_State
  imports Provider_Interfaces
begin

text \<open>
  \<^verbatim>\<open>src/provider/state/memstate/memstate.go\<close>: the in-memory state store. Each method holds the mutex
  around all of its accesses to the maps, so it is one atomic action and a concurrent history is a
  sequence of them. The theory has the methods, the store's invariant, the proof that the store
  meets the contract \<open>reliable_state_store\<close>, and the history properties.
\<close>

subsection \<open>The store and its methods\<close>

record memstate =
  ms_vms :: "string \<rightharpoonup> VM"
  ms_controllers :: "string \<rightharpoonup> Controller"
  ms_events :: "Event list"

definition memstate_New :: memstate where
  "memstate_New = \<lparr>ms_vms = Map.empty, ms_controllers = Map.empty, ms_events = []\<rparr>"

definition memstate_newID :: "world \<Rightarrow> string \<times> world" where
  "memstate_newID w = (let (b, w) = rand_Read 16 w in (hex_EncodeToString b, w))"

definition memstate_CreateVM :: "VMSpec \<Rightarrow> (memstate, string result) action" where
  [flames_ops]: "memstate_CreateVM spec s w =
    (let (vid, w) = memstate_newID w;
         (now, w) = time_Now w;
         vm = \<lparr>vm_ID = vid, vm_DesiredState = DesiredRunning, vm_ObservedState = ObservedPending,
               vm_ImageID = '''', vm_ControllerID = '''', vm_Spec = spec,
               vm_CreatedAt = now, vm_UpdatedAt = now\<rparr>
     in (Inr vid, s\<lparr>ms_vms := (ms_vms s)(vid \<mapsto> vm)\<rparr>, w))"

definition memstate_GetVM :: "string \<Rightarrow> (memstate, VM result) action" where
  [flames_ops]: "memstate_GetVM vmID s w =
    (case ms_vms s vmID of
       None \<Rightarrow> (Inl (NotFound ''vm'' vmID), s, w)
     | Some vm \<Rightarrow> (Inr vm, s, w))"

definition memstate_UpdateVMDesiredState ::
    "string \<Rightarrow> DesiredState \<Rightarrow> (memstate, unit result) action" where
  [flames_ops]: "memstate_UpdateVMDesiredState vmID desired s w =
    (case ms_vms s vmID of
       None \<Rightarrow> (Inl (NotFound ''vm'' vmID), s, w)
     | Some vm \<Rightarrow>
         let vm = vm\<lparr>vm_DesiredState := desired\<rparr>;
             (now, w) = time_Now w;
             vm = vm\<lparr>vm_UpdatedAt := now\<rparr>
         in (Inr (), s\<lparr>ms_vms := (ms_vms s)(vmID \<mapsto> vm)\<rparr>, w))"

definition memstate_UpdateVMObservedState ::
    "string \<Rightarrow> ObservedState \<Rightarrow> string \<Rightarrow> (memstate, unit result) action" where
  [flames_ops]: "memstate_UpdateVMObservedState vmID observed controllerID s w =
    (case ms_vms s vmID of
       None \<Rightarrow> (Inl (NotFound ''vm'' vmID), s, w)
     | Some vm \<Rightarrow>
         let vm = vm\<lparr>vm_ObservedState := observed, vm_ControllerID := controllerID\<rparr>;
             (now, w) = time_Now w;
             vm = vm\<lparr>vm_UpdatedAt := now\<rparr>
         in (Inr (), s\<lparr>ms_vms := (ms_vms s)(vmID \<mapsto> vm)\<rparr>, w))"

definition memstate_AssignVM :: "string \<Rightarrow> string \<Rightarrow> (memstate, unit result) action" where
  [flames_ops]: "memstate_AssignVM vmID controllerID s w =
    (case ms_vms s vmID of
       None \<Rightarrow> (Inl (NotFound ''vm'' vmID), s, w)
     | Some vm \<Rightarrow>
         if vm_ControllerID vm \<noteq> '''' then
           (Inl (Conflict ''vm'' vmID (''vm already assigned to controller '' @ vm_ControllerID vm)),
            s, w)
         else
           let vm = vm\<lparr>vm_ControllerID := controllerID\<rparr>;
               (now, w) = time_Now w;
               vm = vm\<lparr>vm_UpdatedAt := now\<rparr>
           in (Inr (), s\<lparr>ms_vms := (ms_vms s)(vmID \<mapsto> vm)\<rparr>, w))"

definition memstate_ListPendingVMs :: "(memstate, VM list result) action" where
  [flames_ops]: "memstate_ListPendingVMs s w =
    (let (entries, w) = map_range (ms_vms s) w
     in (Inr (collect_loop (\<lambda>vm. vm_ObservedState vm = ObservedPending) 0 (map snd entries) []), s, w))"

definition memstate_AppendEvent :: "Event \<Rightarrow> (memstate, unit result) action" where
  [flames_ops]: "memstate_AppendEvent event s w =
    (let (event, w) =
           (if ev_ID event = '''' then
              let (eid, w) = memstate_newID w in (event\<lparr>ev_ID := eid\<rparr>, w)
            else (event, w));
         (event, w) =
           (if time_IsZero (ev_CreatedAt event) then
              let (now, w) = time_Now w in (event\<lparr>ev_CreatedAt := now\<rparr>, w)
            else (event, w))
     in (Inr (), s\<lparr>ms_events := ms_events s @ [event]\<rparr>, w))"

text \<open>The four \<^verbatim>\<open>continue\<close> guards of the listing loop.\<close>

definition memstate_skip_event :: "EventFilter \<Rightarrow> Event \<Rightarrow> bool" where
  "memstate_skip_event flt e =
    (if ef_VMID flt \<noteq> '''' \<and> ev_VMID e \<noteq> ef_VMID flt then True
     else if ef_ControllerID flt \<noteq> '''' \<and> ev_ControllerID e \<noteq> ef_ControllerID flt then True
     else if ef_Type flt \<noteq> '''' \<and> ev_Type e \<noteq> ef_Type flt then True
     else if \<not> time_IsZero (ef_Since flt) \<and> time_Before (ev_CreatedAt e) (ef_Since flt) then True
     else False)"

definition memstate_ListEvents :: "EventFilter \<Rightarrow> (memstate, Event list result) action" where
  [flames_ops]: "memstate_ListEvents flt s w =
    (Inr (collect_loop (\<lambda>e. \<not> memstate_skip_event flt e) (ef_Limit flt) (ms_events s) []), s, w)"

definition memstate_RegisterController :: "Controller \<Rightarrow> (memstate, unit result) action" where
  [flames_ops]: "memstate_RegisterController controller s w =
    (case ms_controllers s (ct_ID controller) of
       Some _ \<Rightarrow> (Inl (AlreadyExists ''controller'' (ct_ID controller)), s, w)
     | None \<Rightarrow>
         (Inr (), s\<lparr>ms_controllers := (ms_controllers s)(ct_ID controller \<mapsto> controller)\<rparr>, w))"

definition memstate_UpdateControllerHeartbeat ::
    "string \<Rightarrow> Heartbeat \<Rightarrow> (memstate, unit result) action" where
  [flames_ops]: "memstate_UpdateControllerHeartbeat controllerID heartbeat s w =
    (case ms_controllers s controllerID of
       None \<Rightarrow> (Inl (NotFound ''controller'' controllerID), s, w)
     | Some c \<Rightarrow>
         let c = c\<lparr>ct_Status := hb_Status heartbeat, ct_Capacity := hb_Capacity heartbeat\<rparr>;
             (now, w) = time_Now w;
             c = c\<lparr>ct_LastHeartbeatAt := now\<rparr>
         in (Inr (), s\<lparr>ms_controllers := (ms_controllers s)(controllerID \<mapsto> c)\<rparr>, w))"

definition memstate_ListControllers :: "ControllerFilter \<Rightarrow> (memstate, Controller list result) action" where
  [flames_ops]: "memstate_ListControllers flt s w =
    (let (entries, w) = map_range (ms_controllers s) w
     in (Inr (collect_loop (\<lambda>c. \<not> (cf_Status flt \<noteq> '''' \<and> ct_Status c \<noteq> cf_Status flt))
                (cf_Limit flt) (map snd entries) []), s, w))"

definition memstate_ops :: "memstate StateStore" where
  "memstate_ops =
    \<lparr>ss_CreateVM = memstate_CreateVM,
     ss_GetVM = memstate_GetVM,
     ss_UpdateVMDesiredState = memstate_UpdateVMDesiredState,
     ss_UpdateVMObservedState = memstate_UpdateVMObservedState,
     ss_AssignVM = memstate_AssignVM,
     ss_ListPendingVMs = memstate_ListPendingVMs,
     ss_AppendEvent = memstate_AppendEvent,
     ss_ListEvents = memstate_ListEvents,
     ss_RegisterController = memstate_RegisterController,
     ss_UpdateControllerHeartbeat = memstate_UpdateControllerHeartbeat,
     ss_ListControllers = memstate_ListControllers\<rparr>"

subsection \<open>Invariant and abstraction\<close>

definition memstate_inv :: "memstate \<Rightarrow> bool" where
  "memstate_inv s \<longleftrightarrow>
     finite (dom (ms_vms s)) \<and> finite (dom (ms_controllers s)) \<and>
     (\<forall>k vm. ms_vms s k = Some vm \<longrightarrow> vm_ID vm = k \<and> k \<noteq> '''') \<and>
     (\<forall>k c. ms_controllers s k = Some c \<longrightarrow> ct_ID c = k) \<and>
     (\<forall>e\<in>set (ms_events s). ev_ID e \<noteq> '''')"

definition memstate_view :: "memstate \<Rightarrow> cp_view" where
  "memstate_view s = \<lparr>cp_vms = ms_vms s, cp_ctrls = ms_controllers s, cp_log = ms_events s\<rparr>"

lemma memstate_view_simps [simp]:
  "cp_vms (memstate_view s) = ms_vms s" "cp_ctrls (memstate_view s) = ms_controllers s"
  "cp_log (memstate_view s) = ms_events s"
  by (simp_all add: memstate_view_def)

lemma memstate_inv_New: "memstate_inv memstate_New"
  by (simp add: memstate_inv_def memstate_New_def)

lemma memstate_newID_eq:
  "memstate_newID w =
    (hex_EncodeToString (stake 16 (entropy w)), w\<lparr>entropy := sdrop 16 (entropy w)\<rparr>)"
  by (simp add: memstate_newID_def rand_Read_def)

lemma memstate_skip_event_iff: "\<not> memstate_skip_event f e \<longleftrightarrow> event_matches f e"
  by (auto simp: memstate_skip_event_def event_matches_def time_defs)

lemmas memstate_simps = memstate_newID_eq time_Now_def map_range_def Let_def newID_nonempty

text \<open>Updates that keep the invariant, by the part of the store they touch.\<close>

lemma memstate_inv_vms [flames_inv]:
  "memstate_inv s \<Longrightarrow> vm_ID vm = k \<Longrightarrow> k \<noteq> '''' \<Longrightarrow>
    memstate_inv (s\<lparr>ms_vms := (ms_vms s)(k \<mapsto> vm)\<rparr>)"
  by (auto simp: memstate_inv_def)

lemma memstate_inv_controllers [flames_inv]:
  "memstate_inv s \<Longrightarrow> ct_ID c = k \<Longrightarrow>
    memstate_inv (s\<lparr>ms_controllers := (ms_controllers s)(k \<mapsto> c)\<rparr>)"
  by (auto simp: memstate_inv_def)

lemma memstate_inv_events [flames_inv]:
  "memstate_inv s \<Longrightarrow> ev_ID e \<noteq> '''' \<Longrightarrow> memstate_inv (s\<lparr>ms_events := ms_events s @ [e]\<rparr>)"
  by (auto simp: memstate_inv_def)

lemma memstate_invD:
  assumes "memstate_inv s"
  shows "ms_vms s k = Some vm \<Longrightarrow> vm_ID vm = k \<and> k \<noteq> ''''"
    and "ms_controllers s k = Some c \<Longrightarrow> ct_ID c = k"
    and "finite (dom (ms_vms s))" and "finite (dom (ms_controllers s))"
    and "inj_on (\<lambda>k. the (ms_vms s k)) (dom (ms_vms s))"
    and "inj_on (\<lambda>k. the (ms_controllers s k)) (dom (ms_controllers s))"
proof -
  show vm: "ms_vms s k = Some vm \<Longrightarrow> vm_ID vm = k \<and> k \<noteq> ''''" for k vm
    using assms by (auto simp: memstate_inv_def)
  show ct: "ms_controllers s k = Some c \<Longrightarrow> ct_ID c = k" for k c
    using assms by (auto simp: memstate_inv_def)
  show "finite (dom (ms_vms s))" "finite (dom (ms_controllers s))"
    using assms by (auto simp: memstate_inv_def)
  show "inj_on (\<lambda>k. the (ms_vms s k)) (dom (ms_vms s))"
    by (rule inj_onI) (metis vm domD option.sel)
  show "inj_on (\<lambda>k. the (ms_controllers s k)) (dom (ms_controllers s))"
    by (rule inj_onI) (metis ct domD option.sel)
qed

text \<open>The event that \<^verbatim>\<open>AppendEvent\<close> stores.\<close>

definition stored_event :: "Event \<Rightarrow> world \<Rightarrow> Event" where
  "stored_event e w =
    e\<lparr>ev_ID := (if ev_ID e = '''' then fst (memstate_newID w) else ev_ID e),
      ev_CreatedAt := (if ev_CreatedAt e = 0 then shd (clock w) else ev_CreatedAt e)\<rparr>"

lemma memstate_AppendEvent_eq:
  "memstate_AppendEvent e s w =
    (Inr (), s\<lparr>ms_events := ms_events s @ [stored_event e w]\<rparr>, snd (snd (memstate_AppendEvent e s w)))"
  by (auto simp: memstate_AppendEvent_def stored_event_def memstate_simps time_defs)

lemma completes_stored_event: "completes e (stored_event e w)"
  by (cases e) (auto simp: completes_def stored_event_def memstate_simps)

lemma memstate_AppendEvent_ok:
  assumes "memstate_inv s" "memstate_AppendEvent e s w = (r, s', w')"
  shows "r = Inr () \<and> memstate_inv s' \<and> s' = s\<lparr>ms_events := ms_events s @ [stored_event e w]\<rparr>"
proof -
  have "ev_ID (stored_event e w) \<noteq> ''''" using completes_stored_event by (simp add: completes_def)
  with assms show ?thesis by (subst (asm) memstate_AppendEvent_eq) (auto intro: flames_inv)
qed

lemma memstate_ListPendingVMs_ok:
  assumes "memstate_inv s" "memstate_ListPendingVMs s w = (Inr vs, s', w')"
  shows "distinct vs \<and> set vs = {vm \<in> ran (ms_vms s). vm_ObservedState vm = ObservedPending}"
proof -
  let ?keep = "\<lambda>vm. vm_ObservedState vm = ObservedPending"
  from assms(2) have vs: "vs = collect_loop ?keep 0
      (map snd (range_map (ms_vms s) (visit (shd (map_orders w)) (dom (ms_vms s))))) []"
    by (auto simp: memstate_ListPendingVMs_def map_range_def)
  from range_collect(3,4)[OF memstate_invD(3)[OF assms(1)] vs] memstate_invD(5)[OF assms(1)]
  show ?thesis by simp
qed

lemma memstate_ListControllers_ok:
  assumes "memstate_inv s" "memstate_ListControllers f s w = (Inr cs, s', w')"
  shows "distinct cs \<and> set cs \<subseteq> {c \<in> ran (ms_controllers s). controller_matches f c} \<and>
    (let n = card {k \<in> dom (ms_controllers s). controller_matches f (the (ms_controllers s k))}
     in int (length cs) = (if 0 < cf_Limit f then min (cf_Limit f) (int n) else int n))"
proof -
  have keep: "controller_matches f = (\<lambda>c. \<not> (cf_Status f \<noteq> '''' \<and> ct_Status c \<noteq> cf_Status f))"
    by (auto simp: controller_matches_def)
  from assms(2) have cs: "cs = collect_loop (controller_matches f) (cf_Limit f)
      (map snd (range_map (ms_controllers s) (visit (shd (map_orders w)) (dom (ms_controllers s))))) []"
    by (auto simp: memstate_ListControllers_def map_range_def keep)
  from range_collect(1,2,4)[OF memstate_invD(4)[OF assms(1)] cs] memstate_invD(6)[OF assms(1)]
  show ?thesis by (simp add: Let_def)
qed

lemma memstate_ListEvents_eq:
  "memstate_ListEvents f s w = (Inr (limited (ef_Limit f) (filter (event_matches f) (ms_events s))), s, w)"
  by (simp add: memstate_ListEvents_def collect_loop_Nil memstate_skip_event_iff)

text \<open>The record that \<^verbatim>\<open>CreateVM\<close> stores.\<close>

definition created_vm :: "VMSpec \<Rightarrow> world \<Rightarrow> VM" where
  "created_vm spec w =
    \<lparr>vm_ID = fst (memstate_newID w), vm_DesiredState = DesiredRunning,
     vm_ObservedState = ObservedPending, vm_ImageID = '''', vm_ControllerID = '''', vm_Spec = spec,
     vm_CreatedAt = shd (clock w), vm_UpdatedAt = shd (clock w)\<rparr>"

lemma fresh_created_vm: "fresh_vm (fst (memstate_newID w)) spec (created_vm spec w)"
  by (simp add: fresh_vm_def created_vm_def)

lemma memstate_CreateVM_eq:
  "memstate_CreateVM spec s w =
    (Inr (fst (memstate_newID w)),
     s\<lparr>ms_vms := (ms_vms s)(fst (memstate_newID w) \<mapsto> created_vm spec w)\<rparr>,
     snd (time_Now (snd (memstate_newID w))))"
  by (simp add: memstate_CreateVM_def created_vm_def memstate_simps)

lemma memstate_CreateVM_ok:
  assumes "memstate_inv s" "memstate_CreateVM spec s w = (r, s', w')"
  shows "r = Inr (fst (memstate_newID w)) \<and> fst (memstate_newID w) \<noteq> '''' \<and> memstate_inv s' \<and>
    s' = s\<lparr>ms_vms := (ms_vms s)(fst (memstate_newID w) \<mapsto> created_vm spec w)\<rparr>"
proof -
  have "fst (memstate_newID w) \<noteq> ''''" by (simp add: memstate_simps)
  moreover have "vm_ID (created_vm spec w) = fst (memstate_newID w)" by (simp add: created_vm_def)
  ultimately show ?thesis using assms by (auto simp: memstate_CreateVM_eq intro: flames_inv)
qed

subsection \<open>The store meets the contract\<close>

lemma memstate_reliable: "reliable_state_store memstate_ops memstate_inv memstate_view"
proof (unfold memstate_ops_def, unfold_locales; (simp only: StateStore.select_convs)?)
  fix s spec w vid s' w'
  assume "memstate_inv s" "memstate_CreateVM spec s w = (Inr vid, s', w')"
  from memstate_CreateVM_ok[OF this] fresh_created_vm[of w spec] show "memstate_inv s' \<and> vid \<noteq> '''' \<and> (\<exists>vm. fresh_vm vid spec vm \<and>
      memstate_view s' = (memstate_view s)\<lparr>cp_vms := (cp_vms (memstate_view s))(vid \<mapsto> vm)\<rparr>)"
    by (auto simp: memstate_view_def)
next
  fix s e w u s' w'
  assume "memstate_inv s" "memstate_AppendEvent e s w = (Inr u, s', w')"
  from memstate_AppendEvent_ok[OF this] completes_stored_event
  show "memstate_inv s' \<and> (\<exists>e'. completes e e' \<and>
      memstate_view s' = (memstate_view s)\<lparr>cp_log := cp_log (memstate_view s) @ [e']\<rparr>)"
    by (auto simp: memstate_view_def)
next
  fix s f w cs s' w'
  assume "memstate_inv s" "memstate_ListControllers f s w = (Inr cs, s', w')"
  from memstate_ListControllers_ok[OF this]
  show "distinct cs \<and> set cs \<subseteq> {c \<in> ran (cp_ctrls (memstate_view s)). controller_matches f c} \<and>
    (let n = card {k \<in> dom (cp_ctrls (memstate_view s)).
                   controller_matches f (the (cp_ctrls (memstate_view s) k))}
     in int (length cs) = (if 0 < cf_Limit f then min (cf_Limit f) (int n) else int n))"
    by simp
next
  fix s w vs s' w'
  assume "memstate_inv s" "memstate_ListPendingVMs s w = (Inr vs, s', w')"
  from memstate_ListPendingVMs_ok[OF this]
  show "distinct vs \<and>
      set vs = {vm \<in> ran (cp_vms (memstate_view s)). vm_ObservedState vm = ObservedPending}"
    by simp
next
  fix s f w evs s' w'
  assume "memstate_ListEvents f s w = (Inr evs, s', w')"
  then show "evs = limited (ef_Limit f) (filter (event_matches f) (cp_log (memstate_view s)))"
    by (auto simp: memstate_ListEvents_eq)
qed (auto simp: flames_ops memstate_simps memstate_view_def heartbeat_applied_def
    split: option.splits if_splits intro!: flames_inv dest: memstate_invD)

interpretation memstate: reliable_state_store memstate_ops memstate_inv memstate_view
  by (rule memstate_reliable)

subsection \<open>Histories\<close>

text \<open>
  One rule per method: a concurrent history is a sequence of such steps, in the order in which the
  callers obtain the mutex. The only guard is that the random identifier of a new VM is not one in
  use, which 128 random bits make practically certain and nothing in the code checks.
\<close>

inductive memstate_step :: "memstate \<times> world \<Rightarrow> memstate \<times> world \<Rightarrow> bool" where
  step_create: "fst (memstate_newID w) \<notin> dom (ms_vms s) \<Longrightarrow>
    memstate_CreateVM spec s w = (rs, s', w') \<Longrightarrow> memstate_step (s, w) (s', w')"
| step_get: "memstate_GetVM vmID s w = (rv, s', w') \<Longrightarrow> memstate_step (s, w) (s', w')"
| step_desired: "memstate_UpdateVMDesiredState vmID d s w = (ru, s', w') \<Longrightarrow>
    memstate_step (s, w) (s', w')"
| step_observed: "memstate_UpdateVMObservedState vmID ob cid s w = (ru, s', w') \<Longrightarrow>
    memstate_step (s, w) (s', w')"
| step_assign: "memstate_AssignVM vmID cid s w = (ru, s', w') \<Longrightarrow> memstate_step (s, w) (s', w')"
| step_pending: "memstate_ListPendingVMs s w = (rl, s', w') \<Longrightarrow> memstate_step (s, w) (s', w')"
| step_append: "memstate_AppendEvent e s w = (ru, s', w') \<Longrightarrow> memstate_step (s, w) (s', w')"
| step_events: "memstate_ListEvents f s w = (re, s', w') \<Longrightarrow> memstate_step (s, w) (s', w')"
| step_register: "memstate_RegisterController c s w = (ru, s', w') \<Longrightarrow> memstate_step (s, w) (s', w')"
| step_heartbeat: "memstate_UpdateControllerHeartbeat cid hb s w = (ru, s', w') \<Longrightarrow>
    memstate_step (s, w) (s', w')"
| step_controllers: "memstate_ListControllers cf s w = (rc, s', w') \<Longrightarrow>
    memstate_step (s, w) (s', w')"

text \<open>
  What a later state keeps of an earlier one: the whole log as a prefix, every VM with its
  identifier, specification, image and creation time, every controller with its identifier and
  labels.
\<close>

definition memstate_extends :: "memstate \<Rightarrow> memstate \<Rightarrow> bool" where
  "memstate_extends s s' \<longleftrightarrow>
     prefix (ms_events s) (ms_events s') \<and>
     (\<forall>k vm. ms_vms s k = Some vm \<longrightarrow>
        (\<exists>vm'. ms_vms s' k = Some vm' \<and> vm_ID vm' = vm_ID vm \<and> vm_Spec vm' = vm_Spec vm \<and>
               vm_ImageID vm' = vm_ImageID vm \<and> vm_CreatedAt vm' = vm_CreatedAt vm)) \<and>
     (\<forall>k c. ms_controllers s k = Some c \<longrightarrow>
        (\<exists>c'. ms_controllers s' k = Some c' \<and> ct_ID c' = ct_ID c \<and> ct_Labels c' = ct_Labels c))"

lemma memstate_extends_refl [simp]: "memstate_extends s s"
  by (auto simp: memstate_extends_def)

lemma memstate_extends_trans:
  "memstate_extends s t \<Longrightarrow> memstate_extends t u \<Longrightarrow> memstate_extends s u"
  unfolding memstate_extends_def
  by (intro conjI; (elim conjE, blast intro: prefix_order.trans | elim conjE, metis))

lemma memstate_step_extends: "memstate_step (s, w) (s', w') \<Longrightarrow> memstate_extends s s'"
proof (induction "(s, w)" "(s', w')" rule: memstate_step.induct)
  case (step_append e ru)
  then have "s' = s\<lparr>ms_events := ms_events s @ [stored_event e w]\<rparr>"
    by (subst (asm) memstate_AppendEvent_eq) auto
  then show ?case by (auto simp: memstate_extends_def)
qed (auto simp: flames_ops memstate_simps memstate_CreateVM_eq memstate_extends_def
    split: option.splits if_splits)

lemma memstate_step_inv: "memstate_step (s, w) (s', w') \<Longrightarrow> memstate_inv s \<Longrightarrow> memstate_inv s'"
proof (induction "(s, w)" "(s', w')" rule: memstate_step.induct)
  case (step_append e ru)
  then show ?case using memstate_AppendEvent_ok by blast
next
  case (step_create spec rs)
  then show ?case using memstate_CreateVM_ok by blast
qed (auto simp: flames_ops memstate_simps
    split: option.splits if_splits intro!: flames_inv dest: memstate_invD)

text \<open>The order of the times in the store, relative to the next reading of a clock that never goes back.\<close>

definition memstate_times :: "memstate \<Rightarrow> world \<Rightarrow> bool" where
  "memstate_times s w \<longleftrightarrow> mono_clock w \<and>
     (\<forall>vm\<in>ran (ms_vms s). vm_CreatedAt vm \<le> vm_UpdatedAt vm \<and> vm_UpdatedAt vm \<le> shd (clock w))"

lemma memstate_times_step:
  assumes "memstate_times s w"
    and "clock w' = clock w \<or> clock w' = stl (clock w)"
    and "\<And>k vm'. ms_vms s' k = Some vm' \<Longrightarrow> ms_vms s k = Some vm' \<or>
      clock w' = stl (clock w) \<and> vm_UpdatedAt vm' = shd (clock w) \<and>
      (vm_CreatedAt vm' = shd (clock w) \<or>
        (\<exists>vm. ms_vms s k = Some vm \<and> vm_CreatedAt vm' = vm_CreatedAt vm))"
  shows "memstate_times s' w'"
proof -
  from assms(1) have mono: "mono_clock w"
    and old: "\<And>vm. vm \<in> ran (ms_vms s) \<Longrightarrow> vm_CreatedAt vm \<le> vm_UpdatedAt vm \<and> vm_UpdatedAt vm \<le> shd (clock w)"
    by (auto simp: memstate_times_def)
  have mono': "mono_clock w'" and le: "shd (clock w) \<le> shd (clock w')"
    using assms(2) mono mono_clock_cong[of w' w] mono_clock_next[of w w'] by auto
  have "vm_CreatedAt vm' \<le> vm_UpdatedAt vm' \<and> vm_UpdatedAt vm' \<le> shd (clock w')"
    if "ms_vms s' k = Some vm'" for k vm'
    using assms(3)[OF that] old le by (force simp: ran_def)
  with mono' show ?thesis by (auto simp: memstate_times_def ran_def)
qed

lemma memstate_step_times: "memstate_step (s, w) (s', w') \<Longrightarrow> memstate_times s w \<Longrightarrow> memstate_times s' w'"
proof (induction "(s, w)" "(s', w')" rule: memstate_step.induct)
  case (step_append e ru)
  from step_append(1) show ?case
    by (intro memstate_times_step[OF step_append(2)])
      (auto simp: memstate_AppendEvent_def memstate_simps time_defs split: if_splits)
next
  case (step_create spec rs)
  from step_create(2) show ?case
    by (intro memstate_times_step[OF step_create(3)])
      (auto simp: memstate_CreateVM_eq created_vm_def memstate_simps split: if_splits)
qed (erule memstate_times_step,
    (auto simp: flames_ops memstate_simps split: option.splits if_splits)[2])+

lemma memstate_steps_keep:
  assumes "memstate_step\<^sup>*\<^sup>* p q"
  shows "memstate_extends (fst p) (fst q)" and "memstate_inv (fst p) \<Longrightarrow> memstate_inv (fst q)"
    and "memstate_times (fst p) (snd p) \<Longrightarrow> memstate_times (fst q) (snd q)"
proof -
  have "memstate_extends (fst p) (fst q) \<and> (memstate_inv (fst p) \<longrightarrow> memstate_inv (fst q)) \<and>
      (memstate_times (fst p) (snd p) \<longrightarrow> memstate_times (fst q) (snd q))"
    using assms
  proof (induction rule: rtranclp_induct)
    case base
    show ?case by simp
  next
    case (step y z)
    from step.hyps(2) have "memstate_step (fst y, snd y) (fst z, snd z)" by simp
    with step.IH show ?case
      by (meson memstate_step_extends memstate_step_inv memstate_step_times memstate_extends_trans)
  qed
  then show "memstate_extends (fst p) (fst q)" "memstate_inv (fst p) \<Longrightarrow> memstate_inv (fst q)"
    "memstate_times (fst p) (snd p) \<Longrightarrow> memstate_times (fst q) (snd q)" by auto
qed



subsection \<open>Properties\<close>


text \<open>
  C21: In every history of the store, whatever the interleaving of callers, nothing recorded is lost
  or rewritten: the event log only grows at its end, no VM disappears or changes its identifier,
  specification, image or creation time, no controller disappears or changes its labels, and the
  invariant of the maps holds throughout.
\<close>

theorem memstate_history:
  assumes "memstate_step\<^sup>*\<^sup>* (s, w) (s', w')" and "memstate_inv s"
  shows "memstate_inv s' \<and> memstate_extends s s'"
  using memstate_steps_keep(1,2)[OF assms(1)] assms(2) by simp

theorem memstate_history_witness:
  "\<exists>s' w'. ms_events s' \<noteq> [] \<and> memstate_inv s' \<and> memstate_extends memstate_New s'"
proof -
  define w0 where "w0 = clock_world (sconst 5)"
  obtain r s1 w1 where step: "memstate_AppendEvent zero_Event memstate_New w0 = (r, s1, w1)"
    by (metis prod.exhaust)
  then have "memstate_step\<^sup>*\<^sup>* (memstate_New, w0) (s1, w1)" by (blast intro: memstate_step.intros)
  from memstate_history[OF this memstate_inv_New]
  have "memstate_inv s1 \<and> memstate_extends memstate_New s1" .
  moreover have "ms_events s1 \<noteq> []" using step by (subst (asm) memstate_AppendEvent_eq) auto
  ultimately show ?thesis by blast
qed





text \<open>
  C31: \<^verbatim>\<open>ListEvents\<close> returns the matching events in the order of the log and leaves the store
  unchanged. On a log whose times ascend, as they do when the store stamps the events, a limit keeps
  the oldest matches and drops the newest: every event that is left out is at least as new as every
  event that is returned.
\<close>

theorem memstate_list_events:
  assumes "sorted (map ev_CreatedAt (ms_events s))" and "0 < ef_Limit f"
  shows "\<exists>evs rest. memstate_ListEvents f s w = (Inr evs, s, w) \<and>
    evs @ rest = filter (event_matches f) (ms_events s) \<and>
    length evs = min (nat (ef_Limit f)) (length (evs @ rest)) \<and>
    (\<forall>e\<in>set evs. \<forall>e'\<in>set rest. ev_CreatedAt e \<le> ev_CreatedAt e')"
proof -
  let ?ms = "filter (event_matches f) (ms_events s)" and ?n = "nat (ef_Limit f)"
  have "sorted (map ev_CreatedAt (take ?n ?ms @ drop ?n ?ms))"
    using assms(1) by (simp add: sorted_filter)
  then have "\<forall>e\<in>set (take ?n ?ms). \<forall>e'\<in>set (drop ?n ?ms). ev_CreatedAt e \<le> ev_CreatedAt e'"
    by (simp only: map_append sorted_append) auto
  moreover have "memstate_ListEvents f s w = (Inr (take ?n ?ms), s, w)"
    using assms(2) by (simp add: memstate_ListEvents_eq limited_def)
  ultimately show ?thesis by (intro exI[of _ "take ?n ?ms"] exI[of _ "drop ?n ?ms"]) auto
qed

theorem memstate_list_events_witness:
  "\<exists>evs rest. memstate_ListEvents (zero_EventFilter\<lparr>ef_Limit := 1\<rparr>)
      (memstate_New\<lparr>ms_events := [zero_Event\<lparr>ev_ID := ''a'', ev_CreatedAt := 1\<rparr>,
                                  zero_Event\<lparr>ev_ID := ''b'', ev_CreatedAt := 2\<rparr>]\<rparr>)
      (clock_world (sconst 5)) = (Inr evs, rest) \<and> length evs = 1"
proof -
  let ?s = "memstate_New\<lparr>ms_events := [zero_Event\<lparr>ev_ID := ''a'', ev_CreatedAt := 1\<rparr>,
                                  zero_Event\<lparr>ev_ID := ''b'', ev_CreatedAt := 2\<rparr>]\<rparr>"
  let ?f = "zero_EventFilter\<lparr>ef_Limit := 1\<rparr>"
  have "sorted (map ev_CreatedAt (ms_events ?s))" "0 < ef_Limit ?f" by simp_all
  from memstate_list_events[OF this, of "clock_world (sconst 5)"] obtain evs rest where
    "memstate_ListEvents ?f ?s (clock_world (sconst 5)) = (Inr evs, ?s, clock_world (sconst 5))"
    "evs @ rest = filter (event_matches ?f) (ms_events ?s)"
    "length evs = min (nat (ef_Limit ?f)) (length (evs @ rest))" by blast
  then show ?thesis by (simp add: event_matches_def zero_EventFilter_def)
qed

end
