(* ===== verification/Work_Queue.thy ===== *)
theory Work_Queue
  imports Provider_Interfaces
begin

text \<open>
  The contract of a work queue (\<^verbatim>\<open>src/provider/queue/queue.go\<close>): jobs per topic in the order of their
  arrival, leases, at-least-once delivery. The locale \<open>work_queue\<close> states what each method promises
  of the abstract job lists; the delivery guarantees that consumers rely on follow from it.
\<close>

subsection \<open>Availability and leases\<close>

definition job_available :: "time \<Rightarrow> Job \<Rightarrow> bool" where
  "job_available now j \<longleftrightarrow> jb_LeaseExpiresAt j = 0 \<or> jb_LeaseExpiresAt j < now"

definition leased :: "time \<Rightarrow> duration \<Rightarrow> Job \<Rightarrow> Job" where
  "leased now lease j =
     j\<lparr>jb_LeaseExpiresAt := now + lease, jb_DequeueCount := wrap64 (jb_DequeueCount j + 1)\<rparr>"

definition new_job :: "string \<Rightarrow> string \<Rightarrow> bytes \<Rightarrow> Job \<Rightarrow> bool" where
  "new_job jid topic payload j \<longleftrightarrow>
     jb_ID j = jid \<and> jb_Topic j = topic \<and> jb_Payload j = payload \<and> jb_LeaseExpiresAt j = 0 \<and>
     jb_DequeueCount j = 0"

text \<open>The identifiers of all jobs that are in the queue.\<close>

definition job_ids :: "(string \<Rightarrow> Job list) \<Rightarrow> string set" where
  "job_ids js = (\<Union>t. jb_ID ` set (js t))"

text \<open>A consumer that asks \<open>n\<close> times in a row for a job of the same topic.\<close>

fun dequeue_n :: "'q WorkQueue \<Rightarrow> nat \<Rightarrow> string \<Rightarrow> duration \<Rightarrow> ('q, Job result list) action" where
  "dequeue_n ops 0 topic lease q w = ([], q, w)"
| "dequeue_n ops (Suc n) topic lease q w =
     (let (r, q, w) = wq_Dequeue ops topic lease q w;
          (rs, q, w) = dequeue_n ops n topic lease q w
      in (r # rs, q, w))"

text \<open>The jobs that a sequence of requests delivered.\<close>

fun projr_list :: "'a result list \<Rightarrow> 'a list" where
  "projr_list [] = []"
| "projr_list (Inl e # rs) = projr_list rs"
| "projr_list (Inr x # rs) = x # projr_list rs"

lemma job_available_mono: "job_available t j \<Longrightarrow> t \<le> t' \<Longrightarrow> job_available t' j"
  by (auto simp: job_available_def)

lemma leased_unavailable:
  "t + lease \<noteq> 0 \<Longrightarrow> t' \<le> t + lease \<Longrightarrow> \<not> job_available t' (leased t lease j)"
  by (simp add: job_available_def leased_def)

lemma leased_simps [simp]:
  "jb_ID (leased t d j) = jb_ID j" "jb_Topic (leased t d j) = jb_Topic j"
  "jb_Payload (leased t d j) = jb_Payload j" "jb_EnqueuedAt (leased t d j) = jb_EnqueuedAt j"
  by (simp_all add: leased_def)

subsection \<open>The contract\<close>

locale work_queue =
  fixes ops :: "'q WorkQueue" and inv :: "'q \<Rightarrow> bool" and jobs :: "'q \<Rightarrow> string \<Rightarrow> Job list"
  assumes enqueue_ok: "inv q \<Longrightarrow> wq_Enqueue ops topic payload q w = (Inr jid, q', w') \<Longrightarrow>
      jid \<notin> job_ids (jobs q) \<Longrightarrow>
      inv q' \<and> (\<exists>j. new_job jid topic payload j \<and>
        jobs q' = (jobs q)(topic := jobs q topic @ [j]))"
    and dequeue_ok: "inv q \<Longrightarrow> wq_Dequeue ops topic lease q w = (rj, q', w') \<Longrightarrow>
      inv q' \<and> clock w' = stl (clock w) \<and>
      (case update_first (job_available (shd (clock w))) (leased (shd (clock w)) lease) (jobs q topic) of
         None \<Rightarrow> (\<exists>e. rj = Inl e \<and> errors_Is e ErrNoJobs) \<and> jobs q' = jobs q
       | Some (j, js) \<Rightarrow> rj = Inr j \<and> jobs q' = (jobs q)(topic := js))"
    and ack_ok: "inv q \<Longrightarrow> jid \<in> job_ids (jobs q) \<Longrightarrow> wq_Ack ops jid q w = (ru, q', w') \<Longrightarrow>
      ru = Inr () \<and> inv q' \<and> jobs q' = (\<lambda>t. filter (\<lambda>j. jb_ID j \<noteq> jid) (jobs q t))"
    and ack_missing: "inv q \<Longrightarrow> jid \<notin> job_ids (jobs q) \<Longrightarrow> wq_Ack ops jid q w = (ru, q', w') \<Longrightarrow>
      (\<exists>e. ru = Inl e \<and> errors_Is e ErrNotFound) \<and> inv q' \<and> jobs q' = jobs q"
    and nack_ok: "inv q \<Longrightarrow> jid \<in> job_ids (jobs q) \<Longrightarrow> wq_Nack ops jid at q w = (ru, q', w') \<Longrightarrow>
      ru = Inr () \<and> inv q' \<and>
      jobs q' = (\<lambda>t. map (\<lambda>j. if jb_ID j = jid then j\<lparr>jb_LeaseExpiresAt := at\<rparr> else j) (jobs q t))"
    and nack_missing: "inv q \<Longrightarrow> jid \<notin> job_ids (jobs q) \<Longrightarrow> wq_Nack ops jid at q w = (ru, q', w') \<Longrightarrow>
      (\<exists>e. ru = Inl e \<and> errors_Is e ErrNotFound) \<and> inv q' \<and> jobs q' = jobs q"
    and distinct_ids: "inv q \<Longrightarrow> distinct (map jb_ID (jobs q t))"
    and disjoint_ids: "inv q \<Longrightarrow> j \<in> set (jobs q t) \<Longrightarrow> j' \<in> set (jobs q t') \<Longrightarrow>
      jb_ID j = jb_ID j' \<Longrightarrow> t = t'"
begin

lemma dequeue_none:
  assumes "inv q" and "\<forall>j\<in>set (jobs q topic). \<not> job_available (shd (clock w)) j"
  shows "\<exists>e q' w'. wq_Dequeue ops topic lease q w = (Inl e, q', w') \<and> errors_Is e ErrNoJobs \<and>
    inv q' \<and> jobs q' = jobs q \<and> clock w' = stl (clock w)"
proof -
  obtain r q' w' where call: "wq_Dequeue ops topic lease q w = (r, q', w')" by (metis prod.exhaust)
  have "update_first (job_available (shd (clock w))) (leased (shd (clock w)) lease) (jobs q topic) = None"
    using assms(2) by (simp add: update_first_None_iff)
  with dequeue_ok[OF assms(1) call] call show ?thesis by auto
qed

lemma dequeue_first:
  assumes "inv q" and "jobs q topic = us @ j # vs" and "job_available (shd (clock w)) j"
    and "\<forall>u\<in>set us. \<not> job_available (shd (clock w)) u"
  shows "\<exists>q' w'. wq_Dequeue ops topic lease q w = (Inr (leased (shd (clock w)) lease j), q', w') \<and>
    inv q' \<and> jobs q' = (jobs q)(topic := us @ leased (shd (clock w)) lease j # vs) \<and>
    clock w' = stl (clock w)"
proof -
  obtain r q' w' where call: "wq_Dequeue ops topic lease q w = (r, q', w')" by (metis prod.exhaust)
  have "update_first (job_available (shd (clock w))) (leased (shd (clock w)) lease) (jobs q topic) =
      Some (leased (shd (clock w)) lease j, us @ leased (shd (clock w)) lease j # vs)"
    unfolding assms(2) by (rule update_first_append) (use assms in auto)
  with dequeue_ok[OF assms(1) call] call show ?thesis by auto
qed

text \<open>
  Draining a topic: if all its waiting jobs are available, successive requests within the lease
  deliver them one by one in the order of arrival. \<open>done\<close> are the jobs already handed out.
\<close>

lemma drain_step:
  assumes "inv q" and "jobs q topic = done @ js" and "mono_clock w" and "n = length js"
    and "\<forall>j\<in>set js. job_available (shd (clock w)) j"
    and "\<forall>j\<in>set done. \<not> job_available (clock w !! n) j"
    and "clock w !! n \<le> shd (clock w) + lease" and "0 < shd (clock w)" and "0 \<le> lease"
  shows "\<exists>rs q' w'. dequeue_n ops n topic lease q w = (map Inr rs, q', w') \<and>
    map jb_ID rs = map jb_ID js \<and> map jb_Payload rs = map jb_Payload js \<and> inv q' \<and>
    (\<forall>j\<in>set (jobs q' topic). \<not> job_available (shd (clock w')) j) \<and> clock w' = sdrop n (clock w)"
  using assms
proof (induction n arbitrary: js "done" q w)
  case 0
  then show ?case by simp
next
  case (Suc n)
  then obtain j js' where js: "js = j # js'" and n: "n = length js'" by (cases js) auto
  let ?t = "shd (clock w)"
  have later: "?t \<le> clock w !! m" for m using mono_clockD[OF Suc.prems(3), of 0 m] by simp
  have busy: "\<not> job_available t u" if "u \<in> set done" "t \<le> clock w !! Suc n" for u t
    using Suc.prems(6) that job_available_mono by blast
  have nb: "\<forall>u\<in>set done. \<not> job_available ?t u" using busy later by blast
  from Suc.prems(2) js have split: "jobs q topic = done @ j # js'" by simp
  from Suc.prems(5) js have av: "job_available ?t j" by simp
  obtain q1 w1 where d: "wq_Dequeue ops topic lease q w = (Inr (leased ?t lease j), q1, w1)"
    "inv q1" "jobs q1 = (jobs q)(topic := done @ leased ?t lease j # js')" "clock w1 = stl (clock w)"
    using dequeue_first[OF Suc.prems(1) split av nb] by blast
  note m1 = mono_clock_next[OF Suc.prems(3) d(4)]
  have "\<forall>u\<in>set (done @ [leased ?t lease j]). \<not> job_available (clock w1 !! n) u"
    using busy leased_unavailable[of ?t lease "clock w1 !! n" j] Suc.prems(7-9) d(4) by auto
  moreover have "\<forall>u\<in>set js'. job_available (shd (clock w1)) u"
    using Suc.prems(5) js m1 job_available_mono by auto
  ultimately have "\<exists>rs q' w'. dequeue_n ops n topic lease q1 w1 = (map Inr rs, q', w') \<and>
      map jb_ID rs = map jb_ID js' \<and> map jb_Payload rs = map jb_Payload js' \<and> inv q' \<and>
      (\<forall>j\<in>set (jobs q' topic). \<not> job_available (shd (clock w')) j) \<and> clock w' = sdrop n (clock w1)"
    using m1 d(2-4) n Suc.prems(7-9) by (intro Suc.IH[of q1 "done @ [leased ?t lease j]" js' w1]) auto
  then obtain rs q' w' where "dequeue_n ops n topic lease q1 w1 = (map Inr rs, q', w')"
    "map jb_ID rs = map jb_ID js'" "map jb_Payload rs = map jb_Payload js'" "inv q'"
    "\<forall>j\<in>set (jobs q' topic). \<not> job_available (shd (clock w')) j" "clock w' = sdrop n (clock w1)"
    by blast
  with d js show ?case by (intro exI[of _ "leased ?t lease j # rs"]) (simp add: Let_def)
qed

text \<open>
  At-least-once delivery: a job that is available is handed out within as many requests as there are
  jobs ahead of it that can become available before \<open>T\<close>, plus one, if the leases granted meanwhile
  last until \<open>T\<close>.
\<close>

lemma dequeue_reaches:
  assumes "inv q" and "jobs q topic = us @ j # vs" and "job_available (shd (clock w)) j"
    and "mono_clock w" and "length (filter (job_available T) us) \<le> n" and "clock w !! n \<le> T"
    and "T \<le> shd (clock w) + lease" and "0 < shd (clock w)" and "0 \<le> lease"
  shows "\<exists>rs q' w' t. dequeue_n ops (Suc n) topic lease q w = (rs, q', w') \<and>
    Inr (leased t lease j) \<in> set rs"
  using assms
proof (induction n arbitrary: q us w)
  case (0 q us w)
  have "\<not> job_available (shd (clock w)) u" if "u \<in> set us" for u
    using "0.prems"(5,6) that job_available_mono[of _ u T] by (auto simp: filter_empty_conv)
  then obtain q1 w1 where
    "wq_Dequeue ops topic lease q w = (Inr (leased (shd (clock w)) lease j), q1, w1)"
    using dequeue_first[OF "0.prems"(1-3)] by blast
  then have "dequeue_n ops (Suc 0) topic lease q w = ([Inr (leased (shd (clock w)) lease j)], q1, w1)"
    by (simp add: Let_def)
  then show ?case by (meson list.set_intros(1))
next
  case (Suc n q us w)
  let ?t = "shd (clock w)"
  have tT: "?t \<le> T" using mono_clockD[OF Suc.prems(4), of 0 "Suc n"] Suc.prems(6) by simp
  show ?case
  proof (cases "\<exists>u\<in>set us. job_available ?t u")
    case False
    then obtain q1 w1 where "wq_Dequeue ops topic lease q w = (Inr (leased ?t lease j), q1, w1)"
      using dequeue_first[OF Suc.prems(1-3)] by blast
    moreover obtain rs q' w' where "dequeue_n ops (Suc n) topic lease q1 w1 = (rs, q', w')"
      by (metis prod.exhaust)
    ultimately have "dequeue_n ops (Suc (Suc n)) topic lease q w = (Inr (leased ?t lease j) # rs, q', w')"
      by (simp add: Let_def)
    then show ?thesis by (meson list.set_intros(1))
  next
    case True
    then obtain us1 u us2 where us: "us = us1 @ u # us2" and u: "job_available ?t u"
      "\<forall>x\<in>set us1. \<not> job_available ?t x" using split_list_first_prop[OF True] by blast
    let ?us = "us1 @ leased ?t lease u # us2"
    from Suc.prems(2) us have split: "jobs q topic = us1 @ u # us2 @ j # vs" by simp
    obtain q1 w1 where d: "wq_Dequeue ops topic lease q w = (Inr (leased ?t lease u), q1, w1)" "inv q1"
      "jobs q1 = (jobs q)(topic := us1 @ leased ?t lease u # us2 @ j # vs)" "clock w1 = stl (clock w)"
      using dequeue_first[OF Suc.prems(1) split u] by blast
    note m1 = mono_clock_next[OF Suc.prems(4) d(4)]
    have "job_available T u" using u(1) tT job_available_mono by blast
    moreover have "\<not> job_available T (leased ?t lease u)"
      using leased_unavailable[of ?t lease T u] Suc.prems(7-9) by simp
    ultimately have "length (filter (job_available T) ?us) \<le> n" using Suc.prems(5) us by simp
    then obtain rs q' w' t where "dequeue_n ops (Suc n) topic lease q1 w1 = (rs, q', w')"
      "Inr (leased t lease j) \<in> set rs"
      using Suc.IH[of q1 ?us w1] d(2-4) m1 Suc.prems(3,6-9) job_available_mono by auto
    then have "dequeue_n ops (Suc (Suc n)) topic lease q w = (Inr (leased ?t lease u) # rs, q', w')"
      "Inr (leased t lease j) \<in> set (Inr (leased ?t lease u) # rs)" using d(1) by (simp_all add: Let_def)
    then show ?thesis by blast
  qed
qed

text \<open>
  Leases exclude: among the requests up to \<open>T\<close> no job is handed out twice if each lease lasts until
  \<open>T\<close>. \<open>H\<close> are the identifiers of jobs that are on lease until then.
\<close>

lemma dequeue_exclusive:
  assumes "inv q" and "mono_clock w" and "clock w !! n \<le> T" and "T \<le> shd (clock w) + lease"
    and "0 < shd (clock w)" and "0 \<le> lease"
    and "\<forall>j\<in>set (jobs q topic). jb_ID j \<in> H \<longrightarrow> \<not> job_available T j"
    and "dequeue_n ops n topic lease q w = (rs, q', w')"
  shows "distinct (map jb_ID (projr_list rs)) \<and> jb_ID ` set (projr_list rs) \<inter> H = {}"
  using assms
proof (induction n arbitrary: q w H rs)
  case (0 q w H rs)
  then show ?case by simp
next
  case (Suc n q w H rs)
  let ?t = "shd (clock w)"
  obtain r q1 w1 rs1 where call: "wq_Dequeue ops topic lease q w = (r, q1, w1)"
    and rest: "dequeue_n ops n topic lease q1 w1 = (rs1, q', w')" and rs: "rs = r # rs1"
    using Suc.prems(8) by (auto simp: Let_def split: prod.splits)
  note ok = dequeue_ok[OF Suc.prems(1) call]
  then have q1: "inv q1" and c1: "clock w1 = stl (clock w)" by auto
  note m1 = mono_clock_next[OF Suc.prems(2) c1]
  have tT: "?t \<le> T" using mono_clockD[OF Suc.prems(2), of 0 "Suc n"] Suc.prems(3) by simp
  have IH: "distinct (map jb_ID (projr_list rs1)) \<and> jb_ID ` set (projr_list rs1) \<inter> H' = {}"
    if "\<forall>j\<in>set (jobs q1 topic). jb_ID j \<in> H' \<longrightarrow> \<not> job_available T j" for H'
    using Suc.IH[OF q1 _ _ _ _ _ that rest] m1 Suc.prems(3-6) c1 by simp
  show ?case
  proof (cases "update_first (job_available ?t) (leased ?t lease) (jobs q topic)")
    case None
    with ok obtain e where "r = Inl e" "jobs q1 = jobs q" by auto
    with IH[of H] Suc.prems(7) rs show ?thesis by simp
  next
    case (Some p)
    then obtain j' js where p: "update_first (job_available ?t) (leased ?t lease) (jobs q topic) = Some (j', js)"
      by (cases p) simp
    from p obtain us j vs where j: "jobs q topic = us @ j # vs" "js = us @ leased ?t lease j # vs"
      "j' = leased ?t lease j" "job_available ?t j" by (rule update_first_SomeE) blast
    from ok p j(2,3) have r: "r = Inr (leased ?t lease j)"
      and q1': "jobs q1 topic = us @ leased ?t lease j # vs" by auto
    have "jb_ID j \<notin> H" using Suc.prems(7) j(1,4) tT job_available_mono by fastforce
    moreover have "\<forall>x\<in>set (jobs q1 topic). jb_ID x \<in> insert (jb_ID j) H \<longrightarrow> \<not> job_available T x"
      using distinct_ids[OF Suc.prems(1), of topic] Suc.prems(4-7) j(1) q1'
        leased_unavailable[of ?t lease T j] by (auto simp: image_iff)
    ultimately show ?thesis using IH[of "insert (jb_ID j) H"] rs r by auto
  qed
qed

end

end
