(* ===== verification/Mem_Queue.thy ===== *)
theory Mem_Queue
  imports Work_Queue
begin

text \<open>
  \<^verbatim>\<open>src/provider/queue/memqueue/memqueue.go\<close>: the in-memory work queue. Per topic it keeps a slice of
  entries in the order of arrival, and an index from job identifiers to topics. Every method holds
  the mutex, so it is one atomic action. The theory has the methods, the invariant that ties index
  and slices together, the proof that the queue meets the contract \<open>work_queue\<close>, and the properties
  that consumers of the queue rely on.
\<close>

subsection \<open>The queue and its methods\<close>

record queueEntry =
  qe_job :: Job

record topicRef =
  tr_topic :: string

record memqueue =
  mq_topics :: "string \<rightharpoonup> queueEntry list"
  mq_index :: "string \<rightharpoonup> topicRef"

definition memqueue_New :: memqueue where
  "memqueue_New = \<lparr>mq_topics = Map.empty, mq_index = Map.empty\<rparr>"

definition memqueue_newID :: "world \<Rightarrow> string \<times> world" where
  "memqueue_newID w = (let (b, w) = rand_Read 16 w in (hex_EncodeToString b, w))"

text \<open>\<^verbatim>\<open>q.topics[topic]\<close>: a topic that is not in the map reads as the nil slice.\<close>

definition memqueue_entries :: "memqueue \<Rightarrow> string \<Rightarrow> queueEntry list" where
  "memqueue_entries q topic = (case mq_topics q topic of None \<Rightarrow> [] | Some es \<Rightarrow> es)"

definition memqueue_Enqueue :: "string \<Rightarrow> bytes \<Rightarrow> (memqueue, string result) action" where
  [flames_ops]: "memqueue_Enqueue topic payload q w =
    (let (jid, w) = memqueue_newID w;
         (now, w) = time_Now w;
         job = \<lparr>jb_ID = jid, jb_Topic = topic, jb_Payload = payload, jb_LeaseExpiresAt = 0,
                jb_EnqueuedAt = now, jb_DequeueCount = 0\<rparr>
     in (Inr jid,
         q\<lparr>mq_topics := (mq_topics q)(topic \<mapsto> memqueue_entries q topic @ [\<lparr>qe_job = job\<rparr>]),
           mq_index := (mq_index q)(jid \<mapsto> \<lparr>tr_topic = topic\<rparr>)\<rparr>, w))"

definition memqueue_Dequeue :: "string \<Rightarrow> duration \<Rightarrow> (memqueue, Job result) action" where
  [flames_ops]: "memqueue_Dequeue topic leaseTimeout q w =
    (let entries = memqueue_entries q topic;
         (now, w) = time_Now w
     in case update_first
               (\<lambda>e. time_IsZero (jb_LeaseExpiresAt (qe_job e)) \<or>
                    time_After now (jb_LeaseExpiresAt (qe_job e)))
               (\<lambda>e. e\<lparr>qe_job := (qe_job e)
                       \<lparr>jb_LeaseExpiresAt := time_Add now leaseTimeout,
                        jb_DequeueCount := wrap64 (jb_DequeueCount (qe_job e) + 1)\<rparr>\<rparr>)
               entries of
          Some (e, entries) \<Rightarrow>
            (Inr (qe_job e), q\<lparr>mq_topics := (mq_topics q)(topic \<mapsto> entries)\<rparr>, w)
        | None \<Rightarrow> (Inl ErrNoJobs, q, w))"

definition memqueue_Ack :: "string \<Rightarrow> (memqueue, unit result) action" where
  [flames_ops]: "memqueue_Ack jobID q w =
    (case mq_index q jobID of
       None \<Rightarrow> (Inl (NotFound ''job'' jobID), q, w)
     | Some ref \<Rightarrow>
         (case delete_first (\<lambda>e. jb_ID (qe_job e) = jobID) (memqueue_entries q (tr_topic ref)) of
            Some entries \<Rightarrow>
              (Inr (),
               q\<lparr>mq_topics := (mq_topics q)(tr_topic ref \<mapsto> entries),
                 mq_index := (mq_index q)(jobID := None)\<rparr>, w)
          | None \<Rightarrow> (Inl (NotFound ''job'' jobID), q, w)))"

definition memqueue_Nack :: "string \<Rightarrow> time \<Rightarrow> (memqueue, unit result) action" where
  [flames_ops]: "memqueue_Nack jobID retryAt q w =
    (case mq_index q jobID of
       None \<Rightarrow> (Inl (NotFound ''job'' jobID), q, w)
     | Some ref \<Rightarrow>
         (case update_first (\<lambda>e. jb_ID (qe_job e) = jobID)
                 (\<lambda>e. e\<lparr>qe_job := (qe_job e)\<lparr>jb_LeaseExpiresAt := retryAt\<rparr>\<rparr>)
                 (memqueue_entries q (tr_topic ref)) of
            Some (_, entries) \<Rightarrow>
              (Inr (), q\<lparr>mq_topics := (mq_topics q)(tr_topic ref \<mapsto> entries)\<rparr>, w)
          | None \<Rightarrow> (Inl (NotFound ''job'' jobID), q, w)))"

definition memqueue_ops :: "memqueue WorkQueue" where
  "memqueue_ops =
    \<lparr>wq_Enqueue = memqueue_Enqueue, wq_Dequeue = memqueue_Dequeue, wq_Ack = memqueue_Ack,
     wq_Nack = memqueue_Nack\<rparr>"

subsection \<open>Abstraction and invariant\<close>

definition memqueue_jobs :: "memqueue \<Rightarrow> string \<Rightarrow> Job list" where
  "memqueue_jobs q topic = map qe_job (memqueue_entries q topic)"

text \<open>
  The index holds exactly the jobs in the slices, each with the topic it is queued under; no two
  entries of a topic share an identifier.
\<close>

definition memqueue_inv :: "memqueue \<Rightarrow> bool" where
  "memqueue_inv q \<longleftrightarrow>
     (\<forall>t. distinct (map jb_ID (memqueue_jobs q t))) \<and>
     (\<forall>t. \<forall>j\<in>set (memqueue_jobs q t). jb_Topic j = t) \<and>
     (\<forall>jid t. mq_index q jid = Some \<lparr>tr_topic = t\<rparr> \<longleftrightarrow> jid \<in> jb_ID ` set (memqueue_jobs q t))"

lemma memqueue_entries_upd [simp]:
  "memqueue_entries (q\<lparr>mq_topics := (mq_topics q)(t \<mapsto> es), mq_index := idx\<rparr>) u =
    (if u = t then es else memqueue_entries q u)"
  "memqueue_entries (q\<lparr>mq_topics := (mq_topics q)(t \<mapsto> es)\<rparr>) u =
    (if u = t then es else memqueue_entries q u)"
  by (simp_all add: memqueue_entries_def)

lemma memqueue_jobs_upd [simp]:
  "memqueue_jobs (q\<lparr>mq_topics := (mq_topics q)(t \<mapsto> es), mq_index := idx\<rparr>) =
    (memqueue_jobs q)(t := map qe_job es)"
  "memqueue_jobs (q\<lparr>mq_topics := (mq_topics q)(t \<mapsto> es)\<rparr>) = (memqueue_jobs q)(t := map qe_job es)"
  by (auto simp: memqueue_jobs_def fun_eq_iff)

lemma memqueue_invD:
  assumes "memqueue_inv q"
  shows "distinct (map jb_ID (memqueue_jobs q t))"
    and "j \<in> set (memqueue_jobs q t) \<Longrightarrow> jb_Topic j = t"
    and "mq_index q jid = Some ref \<longleftrightarrow> jid \<in> jb_ID ` set (memqueue_jobs q (tr_topic ref))"
  using assms by (cases ref, auto simp: memqueue_inv_def)+

lemma memqueue_index_dom: "memqueue_inv q \<Longrightarrow> mq_index q jid \<noteq> None \<longleftrightarrow> jid \<in> job_ids (memqueue_jobs q)"
proof -
  assume inv: "memqueue_inv q"
  have "mq_index q jid \<noteq> None \<longleftrightarrow> (\<exists>t. mq_index q jid = Some \<lparr>tr_topic = t\<rparr>)"
    by (metis option.distinct(1) option.exhaust topicRef.cases)
  with inv show ?thesis by (auto simp: memqueue_inv_def job_ids_def)
qed

lemma memqueue_inv_New: "memqueue_inv memqueue_New"
  by (simp add: memqueue_inv_def memqueue_New_def memqueue_jobs_def memqueue_entries_def)

text \<open>Dequeue and Nack change one entry and keep its identifier and topic.\<close>

lemma memqueue_inv_update:
  assumes "memqueue_inv q" and "map jb_ID (map qe_job es) = map jb_ID (memqueue_jobs q t)"
    and "\<forall>e\<in>set es. jb_Topic (qe_job e) = t"
  shows "memqueue_inv (q\<lparr>mq_topics := (mq_topics q)(t \<mapsto> es)\<rparr>)"
proof -
  from assms(2) have "jb_ID ` set (map qe_job es) = jb_ID ` set (memqueue_jobs q t)"
    by (metis list.set_map)
  with assms show ?thesis by (auto simp: memqueue_inv_def)
qed

lemma memqueue_newID_eq:
  "memqueue_newID w =
    (hex_EncodeToString (stake 16 (entropy w)), w\<lparr>entropy := sdrop 16 (entropy w)\<rparr>)"
  by (simp add: memqueue_newID_def rand_Read_def)

lemma memqueue_Dequeue_eq:
  "memqueue_Dequeue topic lease q w =
    (case update_first (job_available (shd (clock w))) (leased (shd (clock w)) lease)
            (memqueue_jobs q topic) of
       Some (j, js) \<Rightarrow>
         (Inr j, q\<lparr>mq_topics := (mq_topics q)(topic \<mapsto> map (\<lambda>j. \<lparr>qe_job = j\<rparr>) js)\<rparr>,
          w\<lparr>clock := stl (clock w)\<rparr>)
     | None \<Rightarrow> (Inl ErrNoJobs, q, w\<lparr>clock := stl (clock w)\<rparr>))"
proof -
  let ?t = "shd (clock w)" and ?es = "memqueue_entries q topic"
  let ?f = "\<lambda>e. e\<lparr>qe_job := leased ?t lease (qe_job e)\<rparr>"
  have eta: "map (\<lambda>j. \<lparr>qe_job = j\<rparr>) (map qe_job es) = es" for es :: "queueEntry list"
    by (simp add: map_idI)
  have avail: "(\<lambda>e. time_IsZero (jb_LeaseExpiresAt (qe_job e)) \<or>
      time_After ?t (jb_LeaseExpiresAt (qe_job e))) = (\<lambda>e. job_available ?t (qe_job e))"
    by (simp add: job_available_def time_defs)
  have "map_option (\<lambda>(y, ys). (qe_job y, map qe_job ys))
      (update_first (\<lambda>e. job_available ?t (qe_job e)) ?f ?es) =
      update_first (job_available ?t) (leased ?t lease) (memqueue_jobs q topic)"
    unfolding memqueue_jobs_def by (rule update_first_map) simp
  moreover have lease_eq: "(\<lambda>e. e\<lparr>qe_job := (qe_job e)\<lparr>jb_LeaseExpiresAt := time_Add ?t lease,
      jb_DequeueCount := wrap64 (jb_DequeueCount (qe_job e) + 1)\<rparr>\<rparr>) = ?f"
    by (simp add: leased_def time_defs)
  have "memqueue_Dequeue topic lease q w =
    (case update_first (\<lambda>e. job_available ?t (qe_job e)) ?f ?es of
       Some (e, es) \<Rightarrow>
         (Inr (qe_job e), q\<lparr>mq_topics := (mq_topics q)(topic \<mapsto> es)\<rparr>, w\<lparr>clock := stl (clock w)\<rparr>)
     | None \<Rightarrow> (Inl ErrNoJobs, q, w\<lparr>clock := stl (clock w)\<rparr>))"
    by (simp only: memqueue_Dequeue_def time_Now_def Let_def prod.case avail lease_eq)
  ultimately show ?thesis
    by (cases "update_first (\<lambda>e. job_available ?t (qe_job e)) ?f ?es")
      (auto simp: eta[simplified] split: option.splits)
qed

lemma memqueue_entry_ids:
  "jb_ID ` set (memqueue_jobs q t) = (\<lambda>e. jb_ID (qe_job e)) ` set (memqueue_entries q t)"
  "map jb_ID (memqueue_jobs q t) = map (\<lambda>e. jb_ID (qe_job e)) (memqueue_entries q t)"
  by (auto simp: memqueue_jobs_def)

lemma memqueue_other_topic:
  assumes "memqueue_inv q" and "mq_index q jid = Some ref" and "t \<noteq> tr_topic ref"
  shows "jid \<notin> jb_ID ` set (memqueue_jobs q t)"
proof
  assume "jid \<in> jb_ID ` set (memqueue_jobs q t)"
  with memqueue_invD(3)[OF assms(1), of jid "\<lparr>tr_topic = t\<rparr>"] have "mq_index q jid = Some \<lparr>tr_topic = t\<rparr>"
    by simp
  with assms(2) have "ref = \<lparr>tr_topic = t\<rparr>" by simp
  with assms(3) show False by simp
qed

lemma memqueue_Ack_ok:
  assumes inv: "memqueue_inv q" and mem: "jid \<in> job_ids (memqueue_jobs q)"
    and call: "memqueue_Ack jid q w = (r, q', w')"
  shows "r = Inr () \<and> memqueue_inv q' \<and> w' = w \<and>
    memqueue_jobs q' = (\<lambda>t. filter (\<lambda>j. jb_ID j \<noteq> jid) (memqueue_jobs q t))"
proof -
  from memqueue_index_dom[OF inv] mem obtain ref where ref: "mq_index q jid = Some ref" by blast
  let ?es = "memqueue_entries q (tr_topic ref)"
  have "distinct (map (\<lambda>e. jb_ID (qe_job e)) ?es)" "jid \<in> (\<lambda>e. jb_ID (qe_job e)) ` set ?es"
    using memqueue_invD(1,3)[OF inv] ref by (simp_all add: memqueue_entry_ids)
  from delete_first_distinct[OF this] call ref have r: "r = Inr ()" "w' = w" and q':
    "q' = q\<lparr>mq_topics := (mq_topics q)(tr_topic ref \<mapsto> filter (\<lambda>e. jb_ID (qe_job e) \<noteq> jid) ?es),
            mq_index := (mq_index q)(jid := None)\<rparr>" by (simp_all add: memqueue_Ack_def)
  have jobs: "memqueue_jobs q' = (\<lambda>t. filter (\<lambda>j. jb_ID j \<noteq> jid) (memqueue_jobs q t))"
  proof
    fix t
    show "memqueue_jobs q' t = filter (\<lambda>j. jb_ID j \<noteq> jid) (memqueue_jobs q t)"
    proof (cases "t = tr_topic ref")
      case True
      then show ?thesis by (simp add: q') (simp add: memqueue_jobs_def filter_map o_def)
    next
      case False
      with memqueue_other_topic[OF inv ref] have "\<forall>j\<in>set (memqueue_jobs q t). jb_ID j \<noteq> jid" by auto
      with False show ?thesis by (simp add: q' filter_id_conv)
    qed
  qed
  have "mq_index q' = (mq_index q)(jid := None)" by (simp add: q')
  with inv jobs have "memqueue_inv q'"
    by (auto simp: memqueue_inv_def distinct_map_filter)
  with r jobs show ?thesis by simp
qed

lemma memqueue_Nack_ok:
  assumes inv: "memqueue_inv q" and mem: "jid \<in> job_ids (memqueue_jobs q)"
    and call: "memqueue_Nack jid at q w = (r, q', w')"
  shows "r = Inr () \<and> memqueue_inv q' \<and> w' = w \<and> memqueue_jobs q' =
    (\<lambda>t. map (\<lambda>j. if jb_ID j = jid then j\<lparr>jb_LeaseExpiresAt := at\<rparr> else j) (memqueue_jobs q t))"
proof -
  from memqueue_index_dom[OF inv] mem obtain ref where ref: "mq_index q jid = Some ref" by blast
  let ?es = "memqueue_entries q (tr_topic ref)"
  let ?f = "\<lambda>e. e\<lparr>qe_job := (qe_job e)\<lparr>jb_LeaseExpiresAt := at\<rparr>\<rparr>"
  let ?es' = "map (\<lambda>e. if jb_ID (qe_job e) = jid then ?f e else e) ?es"
  have "distinct (map (\<lambda>e. jb_ID (qe_job e)) ?es)" "jid \<in> (\<lambda>e. jb_ID (qe_job e)) ` set ?es"
    using memqueue_invD(1,3)[OF inv] ref by (simp_all add: memqueue_entry_ids)
  from update_first_distinct[OF this, of ?f] obtain y where
    "update_first (\<lambda>e. jb_ID (qe_job e) = jid) ?f ?es = Some (y, ?es')" by auto
  with call ref have r: "r = Inr ()" "w' = w"
    and q': "q' = q\<lparr>mq_topics := (mq_topics q)(tr_topic ref \<mapsto> ?es')\<rparr>"
    by (simp_all add: memqueue_Nack_def)
  have jobs: "memqueue_jobs q' =
    (\<lambda>t. map (\<lambda>j. if jb_ID j = jid then j\<lparr>jb_LeaseExpiresAt := at\<rparr> else j) (memqueue_jobs q t))"
  proof
    fix t
    show "memqueue_jobs q' t =
      map (\<lambda>j. if jb_ID j = jid then j\<lparr>jb_LeaseExpiresAt := at\<rparr> else j) (memqueue_jobs q t)"
    proof (cases "t = tr_topic ref")
      case True
      then show ?thesis by (simp add: q') (simp add: memqueue_jobs_def if_distrib)
    next
      case False
      with memqueue_other_topic[OF inv ref] have "\<forall>j\<in>set (memqueue_jobs q t). jb_ID j \<noteq> jid" by auto
      with False show ?thesis by (simp add: q' map_idI)
    qed
  qed
  have "map jb_ID (map qe_job ?es') = map jb_ID (memqueue_jobs q (tr_topic ref))"
    by (simp add: memqueue_jobs_def)
  moreover have "\<forall>e\<in>set ?es. jb_Topic (qe_job e) = tr_topic ref"
    using inv by (auto simp: memqueue_inv_def memqueue_jobs_def)
  then have "\<forall>e\<in>set ?es'. jb_Topic (qe_job e) = tr_topic ref" by auto
  ultimately have "memqueue_inv q'" unfolding q' by (rule memqueue_inv_update[OF inv])
  with r jobs show ?thesis by simp
qed

lemma memqueue_missing:
  assumes "memqueue_inv q" and "jid \<notin> job_ids (memqueue_jobs q)"
  shows "memqueue_Ack jid q w = (Inl (NotFound ''job'' jid), q, w)"
    and "memqueue_Nack jid at q w = (Inl (NotFound ''job'' jid), q, w)"
  using memqueue_index_dom[OF assms(1), of jid] assms(2)
  by (simp_all add: memqueue_Ack_def memqueue_Nack_def)

lemma memqueue_Enqueue_ok:
  assumes inv: "memqueue_inv q" and call: "memqueue_Enqueue topic payload q w = (Inr jid, q', w')"
    and fresh: "jid \<notin> job_ids (memqueue_jobs q)"
  shows "memqueue_inv q' \<and> jid = fst (memqueue_newID w) \<and>
    (\<exists>j. new_job jid topic payload j \<and> jb_EnqueuedAt j = shd (clock w) \<and>
      memqueue_jobs q' = (memqueue_jobs q)(topic := memqueue_jobs q topic @ [j]))"
proof -
  define j where "j = \<lparr>jb_ID = jid, jb_Topic = topic, jb_Payload = payload, jb_LeaseExpiresAt = 0,
    jb_EnqueuedAt = shd (clock w), jb_DequeueCount = 0\<rparr>"
  from call have q': "q' = q\<lparr>mq_topics := (mq_topics q)(topic \<mapsto> memqueue_entries q topic @ [\<lparr>qe_job = j\<rparr>]),
      mq_index := (mq_index q)(jid \<mapsto> \<lparr>tr_topic = topic\<rparr>)\<rparr>"
    by (auto simp: memqueue_Enqueue_def memqueue_newID_eq time_Now_def Let_def j_def)
  have jobs: "memqueue_jobs q' = (memqueue_jobs q)(topic := memqueue_jobs q topic @ [j])"
    by (simp add: q') (simp add: memqueue_jobs_def)
  have "jid \<notin> jb_ID ` set (memqueue_jobs q t)" for t using fresh by (auto simp: job_ids_def)
  with inv have "memqueue_inv q'" unfolding memqueue_inv_def jobs by (auto simp: q' j_def)
  moreover have "new_job jid topic payload j" "jb_EnqueuedAt j = shd (clock w)"
    by (simp_all add: new_job_def j_def)
  ultimately show ?thesis using jobs call
    by (auto simp: memqueue_Enqueue_def memqueue_newID_eq time_Now_def Let_def)
qed

lemma memqueue_Dequeue_inv:
  assumes inv: "memqueue_inv q"
    and "update_first p (leased t lease) (memqueue_jobs q topic) = Some (j, js)"
  shows "memqueue_inv (q\<lparr>mq_topics := (mq_topics q)(topic \<mapsto> map (\<lambda>j. \<lparr>qe_job = j\<rparr>) js)\<rparr>)"
proof -
  from assms(2) obtain us x vs where
    "memqueue_jobs q topic = us @ x # vs" "js = us @ leased t lease x # vs"
    by (rule update_first_SomeE)
  with memqueue_invD(2)[OF inv, of _ topic] show ?thesis
    by (intro memqueue_inv_update[OF inv]) (auto simp: o_def)
qed

subsection \<open>The queue meets the contract\<close>

lemma memqueue_work_queue: "work_queue memqueue_ops memqueue_inv memqueue_jobs"
proof (unfold memqueue_ops_def, unfold_locales; (simp only: WorkQueue.select_convs)?)
  fix q topic lease w rj q' w'
  assume "memqueue_inv q" "memqueue_Dequeue topic lease q w = (rj, q', w')"
  then show "memqueue_inv q' \<and> clock w' = stl (clock w) \<and>
      (case update_first (job_available (shd (clock w))) (leased (shd (clock w)) lease) (memqueue_jobs q topic) of
         None \<Rightarrow> (\<exists>e. rj = Inl e \<and> errors_Is e ErrNoJobs) \<and> memqueue_jobs q' = memqueue_jobs q
       | Some (j, js) \<Rightarrow> rj = Inr j \<and> memqueue_jobs q' = (memqueue_jobs q)(topic := js))"
    by (auto simp: memqueue_Dequeue_eq o_def split: option.splits intro: memqueue_Dequeue_inv)
next
  fix q t j j' t'
  assume "memqueue_inv q" "j \<in> set (memqueue_jobs q t)" "j' \<in> set (memqueue_jobs q t')" "jb_ID j = jb_ID j'"
  then show "t = t'" using memqueue_invD(3)[of q "jb_ID j" "\<lparr>tr_topic = _\<rparr>"]
    by (metis image_eqI option.inject topicRef.select_convs(1))
qed (auto dest: memqueue_Enqueue_ok memqueue_Ack_ok memqueue_Nack_ok memqueue_invD(1)
    simp: memqueue_missing)

interpretation memqueue: work_queue memqueue_ops memqueue_inv memqueue_jobs
  by (rule memqueue_work_queue)

subsection \<open>Histories\<close>

text \<open>
  Sequences of calls, in the order in which the callers obtain the mutex, with the set of the job
  identifiers that were acknowledged. As for the state store, the only guard is that a new random
  identifier is not one in use.
\<close>

inductive memqueue_history :: "memqueue \<times> world \<Rightarrow> string set \<Rightarrow> memqueue \<times> world \<Rightarrow> bool" where
  hist_start: "memqueue_history p {} p"
| hist_enqueue: "memqueue_history p A (q, w) \<Longrightarrow> fst (memqueue_newID w) \<notin> job_ids (memqueue_jobs q) \<Longrightarrow>
    memqueue_Enqueue topic payload q w = (rs, q', w') \<Longrightarrow> memqueue_history p A (q', w')"
| hist_dequeue: "memqueue_history p A (q, w) \<Longrightarrow>
    memqueue_Dequeue topic lease q w = (rj, q', w') \<Longrightarrow> memqueue_history p A (q', w')"
| hist_ack: "memqueue_history p A (q, w) \<Longrightarrow>
    memqueue_Ack jid q w = (ru, q', w') \<Longrightarrow> memqueue_history p (insert jid A) (q', w')"
| hist_nack: "memqueue_history p A (q, w) \<Longrightarrow>
    memqueue_Nack jid at q w = (ru, q', w') \<Longrightarrow> memqueue_history p A (q', w')"

text \<open>What a job keeps while it is in the queue.\<close>

definition same_job :: "Job \<Rightarrow> Job \<Rightarrow> bool" where
  "same_job j j' \<longleftrightarrow> jb_ID j' = jb_ID j \<and> jb_Topic j' = jb_Topic j \<and> jb_Payload j' = jb_Payload j \<and>
     jb_EnqueuedAt j' = jb_EnqueuedAt j"

text \<open>
  How the jobs of a topic move on: apart from acknowledged ones every job stays, as the same job and
  in the same order, and new jobs come after them.
\<close>

definition jobs_advance :: "string set \<Rightarrow> Job list \<Rightarrow> Job list \<Rightarrow> bool" where
  "jobs_advance A js js' \<longleftrightarrow>
     (let live = filter (\<lambda>j. jb_ID j \<notin> A) in
      \<exists>old new. live js' = old @ new \<and> list_all2 same_job (live js) old)"

lemma same_job_refl [simp]: "same_job j j"
  by (simp add: same_job_def)

lemma same_job_trans: "same_job i j \<Longrightarrow> same_job j k \<Longrightarrow> same_job i k"
  by (simp add: same_job_def)

lemma jobs_advance_app:
  assumes "list_all2 same_job (filter (\<lambda>j. jb_ID j \<notin> A) js) old"
    and "filter (\<lambda>j. jb_ID j \<notin> A) js' = old @ new"
  shows "jobs_advance A js js'"
  using assms by (auto simp: jobs_advance_def Let_def)

lemma list_all2_same_filter:
  "list_all2 same_job xs ys \<Longrightarrow>
    list_all2 same_job (filter (\<lambda>j. jb_ID j \<notin> A) xs) (filter (\<lambda>j. jb_ID j \<notin> A) ys)"
  by (induction rule: list_all2_induct) (auto simp: same_job_def)

lemma jobs_advance_refl [simp]: "jobs_advance A js js"
  by (rule jobs_advance_app[where new = "[]"]) (auto simp: list_all2_refl)

lemma jobs_advance_mono: "jobs_advance A js js' \<Longrightarrow> A \<subseteq> B \<Longrightarrow> jobs_advance B js js'"
proof -
  assume "jobs_advance A js js'" and AB: "A \<subseteq> B"
  then obtain old new where o: "filter (\<lambda>j. jb_ID j \<notin> A) js' = old @ new"
    "list_all2 same_job (filter (\<lambda>j. jb_ID j \<notin> A) js) old" by (auto simp: jobs_advance_def Let_def)
  have ff: "filter (\<lambda>j. jb_ID j \<notin> B) (filter (\<lambda>j. jb_ID j \<notin> A) xs) = filter (\<lambda>j. jb_ID j \<notin> B) xs" for xs
    using AB by (induction xs) auto
  from list_all2_same_filter[OF o(2), of B] have
    "list_all2 same_job (filter (\<lambda>j. jb_ID j \<notin> B) js) (filter (\<lambda>j. jb_ID j \<notin> B) old)"
    by (simp only: ff)
  moreover have "filter (\<lambda>j. jb_ID j \<notin> B) js' =
      filter (\<lambda>j. jb_ID j \<notin> B) old @ filter (\<lambda>j. jb_ID j \<notin> B) new"
    using arg_cong[OF o(1), of "filter (\<lambda>j. jb_ID j \<notin> B)"] by (simp only: ff filter_append)
  ultimately show ?thesis by (rule jobs_advance_app)
qed

lemma jobs_advance_trans:
  assumes "jobs_advance A js js'" and "jobs_advance A js' js''"
  shows "jobs_advance A js js''"
proof -
  from assms(1) obtain old new where o: "filter (\<lambda>j. jb_ID j \<notin> A) js' = old @ new"
    "list_all2 same_job (filter (\<lambda>j. jb_ID j \<notin> A) js) old" by (auto simp: jobs_advance_def Let_def)
  from assms(2) obtain old' new' where o': "filter (\<lambda>j. jb_ID j \<notin> A) js'' = old' @ new'"
    "list_all2 same_job (old @ new) old'" by (auto simp: jobs_advance_def Let_def o(1))
  from o'(2) obtain a b where ab: "old' = a @ b" "list_all2 same_job old a"
    by (auto simp: list_all2_append1)
  have "list_all2 same_job (filter (\<lambda>j. jb_ID j \<notin> A) js) a"
    using o(2) ab(2) list_all2_trans[of same_job same_job same_job] same_job_trans by blast
  with o'(1) ab(1) show ?thesis by (intro jobs_advance_app[of A js a _ "b @ new'"]) auto
qed

lemma jobs_advance_pointwise: "list_all2 same_job js js' \<Longrightarrow> jobs_advance A js js'"
  by (rule jobs_advance_app[where new = "[]", OF list_all2_same_filter]) auto

lemma memqueue_history_step:
  assumes "memqueue_history p A r" and "memqueue_inv (fst p)"
  shows "memqueue_inv (fst r) \<and> (\<forall>t. jobs_advance A (memqueue_jobs (fst p) t) (memqueue_jobs (fst r) t))"
  using assms
proof (induction rule: memqueue_history.induct)
  case (hist_start p)
  then show ?case by simp
next
  case (hist_enqueue p A q w topic payload rs q' w')
  then have q: "memqueue_inv q" "\<And>t. jobs_advance A (memqueue_jobs (fst p) t) (memqueue_jobs q t)" by auto
  have rs: "rs = Inr (fst (memqueue_newID w))"
    using hist_enqueue.hyps(3) by (auto simp: memqueue_Enqueue_def Let_def split: prod.splits)
  from memqueue_Enqueue_ok[OF q(1) hist_enqueue.hyps(3)[unfolded rs] hist_enqueue.hyps(2)]
  obtain j where "memqueue_inv q'"
    "memqueue_jobs q' = (memqueue_jobs q)(topic := memqueue_jobs q topic @ [j])" by blast
  moreover have "jobs_advance A js (js @ [j])" for js
    by (rule jobs_advance_app[where old = "filter (\<lambda>j. jb_ID j \<notin> A) js"]) (auto simp: list_all2_refl)
  ultimately show ?case using q(2) by (auto intro: jobs_advance_trans)
next
  case (hist_dequeue p A q w topic lease rj q' w')
  then have q: "memqueue_inv q" "\<And>t. jobs_advance A (memqueue_jobs (fst p) t) (memqueue_jobs q t)" by auto
  note ok = memqueue.dequeue_ok[OF q(1), of topic lease w rj q' w'] hist_dequeue.hyps(2)
  have "jobs_advance A (memqueue_jobs q t) (memqueue_jobs q' t)" for t
  proof (cases "update_first (job_available (shd (clock w))) (leased (shd (clock w)) lease) (memqueue_jobs q topic)")
    case None
    with ok show ?thesis by (simp add: memqueue_ops_def)
  next
    case (Some pr)
    then obtain j js where "update_first (job_available (shd (clock w))) (leased (shd (clock w)) lease)
      (memqueue_jobs q topic) = Some (j, js)" by (cases pr) simp
    moreover from this obtain us x vs where "memqueue_jobs q topic = us @ x # vs"
      "js = us @ leased (shd (clock w)) lease x # vs" by (rule update_first_SomeE)
    then have "list_all2 same_job (memqueue_jobs q topic) js"
      by (auto simp: same_job_def intro!: list_all2_appendI list_all2_refl)
    ultimately show ?thesis using ok by (auto simp: memqueue_ops_def intro: jobs_advance_pointwise)
  qed
  with q ok show ?case by (auto simp: memqueue_ops_def intro: jobs_advance_trans)
next
  case (hist_ack p A q w jid ru q' w')
  then have q: "memqueue_inv q" "\<And>t. jobs_advance A (memqueue_jobs (fst p) t) (memqueue_jobs q t)" by auto
  have adv: "jobs_advance (insert jid A) js (filter (\<lambda>j. jb_ID j \<noteq> jid) js)" for js
    by (rule jobs_advance_app[where new = "[]" and old = "filter (\<lambda>j. jb_ID j \<notin> insert jid A) js"])
      (auto simp: list_all2_refl intro: filter_cong)
  show ?case
  proof (cases "jid \<in> job_ids (memqueue_jobs q)")
    case True
    from memqueue_Ack_ok[OF q(1) True hist_ack.hyps(2)] show ?thesis
      using jobs_advance_trans[OF jobs_advance_mono[OF q(2) subset_insertI] adv] by simp
  next
    case False
    with memqueue_missing(1)[OF q(1) False] hist_ack.hyps(2) q show ?thesis
      by (auto intro: jobs_advance_mono)
  qed
next
  case (hist_nack p A q w jid at ru q' w')
  then have q: "memqueue_inv q" "\<And>t. jobs_advance A (memqueue_jobs (fst p) t) (memqueue_jobs q t)" by auto
  have adv: "jobs_advance A js (map (\<lambda>j. if jb_ID j = jid then j\<lparr>jb_LeaseExpiresAt := at\<rparr> else j) js)" for js
    by (rule jobs_advance_pointwise) (auto simp: list_all2_conv_all_nth same_job_def)
  show ?case
  proof (cases "jid \<in> job_ids (memqueue_jobs q)")
    case True
    from memqueue_Nack_ok[OF q(1) True hist_nack.hyps(2)] show ?thesis
      using jobs_advance_trans[OF q(2) adv] by simp
  next
    case False
    with memqueue_missing(2)[OF q(1) False] hist_nack.hyps(2) q show ?thesis by auto
  qed
qed

subsection \<open>Properties\<close>

text \<open>
  C8: The in-memory work queue meets the work queue contract: enqueue appends, dequeue leases the
  first available job of the topic, acknowledging removes exactly the named job, negative
  acknowledging changes exactly its lease, unknown jobs are reported as \<^verbatim>\<open>ErrNotFound\<close> without any
  effect, and the index always agrees with the slices, so the lookups by index lose no job.
\<close>

theorem memqueue_contract: "work_queue memqueue_ops memqueue_inv memqueue_jobs"
  by (rule memqueue_work_queue)

text \<open>
  C6: No job is lost. In every history of the queue the jobs of a topic that have not been
  acknowledged stay in the queue with their payload and time of arrival and keep their order, and
  new jobs are behind them; the index invariant holds throughout.
\<close>

theorem memqueue_no_loss:
  assumes "memqueue_history (q, w) A (q', w')" and "memqueue_inv q"
  shows "memqueue_inv q' \<and> (\<forall>t. jobs_advance A (memqueue_jobs q t) (memqueue_jobs q' t))"
  using memqueue_history_step[OF assms(1)] assms(2) by simp

definition sample_job :: "string \<Rightarrow> time \<Rightarrow> Job" where
  "sample_job jid lease =
     \<lparr>jb_ID = jid, jb_Topic = ''tasks'', jb_Payload = [1, 2], jb_LeaseExpiresAt = lease,
      jb_EnqueuedAt = 5, jb_DequeueCount = 0\<rparr>"

definition sample_queue :: "Job list \<Rightarrow> memqueue" where
  "sample_queue js =
     \<lparr>mq_topics = [''tasks'' \<mapsto> map (\<lambda>j. \<lparr>qe_job = j\<rparr>) js],
      mq_index = (\<lambda>jid. if jid \<in> jb_ID ` set js then Some \<lparr>tr_topic = ''tasks''\<rparr> else None)\<rparr>"

lemma sample_queue_jobs: "memqueue_jobs (sample_queue js) = (\<lambda>t. if t = ''tasks'' then js else [])"
  by (auto simp: memqueue_jobs_def memqueue_entries_def sample_queue_def o_def)

lemma sample_queue_inv:
  "distinct (map jb_ID js) \<Longrightarrow> \<forall>j\<in>set js. jb_Topic j = ''tasks'' \<Longrightarrow> memqueue_inv (sample_queue js)"
  unfolding memqueue_inv_def sample_queue_jobs by (auto simp: sample_queue_def)

theorem memqueue_no_loss_witness:
  "\<exists>q' w'. memqueue_history (sample_queue [sample_job ''a'' 0, sample_job ''b'' 0], clock_world (sconst 9))
       {''a''} (q', w') \<and>
     jobs_advance {''a''} [sample_job ''a'' 0, sample_job ''b'' 0] (memqueue_jobs q' ''tasks'')"
proof -
  let ?q = "sample_queue [sample_job ''a'' 0, sample_job ''b'' 0]" and ?w = "clock_world (sconst 9)"
  have inv: "memqueue_inv ?q" by (rule sample_queue_inv) (simp_all add: sample_job_def)
  obtain r q1 w1 where "memqueue_Dequeue ''tasks'' 5 ?q ?w = (r, q1, w1)" by (metis prod.exhaust)
  moreover obtain r' q2 w2 where "memqueue_Ack ''a'' q1 w1 = (r', q2, w2)" by (metis prod.exhaust)
  ultimately have hist: "memqueue_history (?q, ?w) {''a''} (q2, w2)"
    by (meson hist_start hist_dequeue hist_ack)
  from memqueue_no_loss[OF hist inv] have
    "jobs_advance {''a''} (memqueue_jobs ?q ''tasks'') (memqueue_jobs q2 ''tasks'')" by blast
  with hist show ?thesis unfolding sample_queue_jobs by auto
qed





text \<open>
  C17: Leases exclude: among any number of requests on a topic that come within the lease of the
  first, no job is delivered twice.
\<close>

theorem memqueue_lease_exclusive:
  assumes "memqueue_inv q" and "mono_clock w" and "0 < shd (clock w)" and "0 \<le> lease"
    and "clock w !! n \<le> shd (clock w) + lease"
    and "dequeue_n memqueue_ops n topic lease q w = (rs, q', w')"
  shows "distinct (map jb_ID (projr_list rs))"
  using memqueue.dequeue_exclusive[OF assms(1,2) order_refl assms(5,3,4) _ assms(6), of "{}"] by simp

theorem memqueue_lease_exclusive_witness:
  "\<exists>rs q' w'. dequeue_n memqueue_ops 3 ''tasks'' 10
       (sample_queue [sample_job ''a'' 0, sample_job ''b'' 0]) (clock_world (6 ## 7 ## sconst 8)) =
         (rs, q', w') \<and> distinct (map jb_ID (projr_list rs))"
proof -
  let ?js = "[sample_job ''a'' 0, sample_job ''b'' 0]" and ?w = "clock_world (6 ## 7 ## sconst 8)"
  have inv: "memqueue_inv (sample_queue ?js)" by (rule sample_queue_inv) (simp_all add: sample_job_def)
  obtain rs q' w' where call: "dequeue_n memqueue_ops 3 ''tasks'' 10 (sample_queue ?js) ?w = (rs, q', w')"
    by (metis prod.exhaust)
  have "distinct (map jb_ID (projr_list rs))"
    by (rule memqueue_lease_exclusive[OF inv _ _ _ _ call]) (simp_all add: mono_clock_def numeral_3_eq_3)
  with call show ?thesis by blast
qed

text \<open>
  After a successful \<^verbatim>\<open>Nack\<close> the job is available exactly at the times strictly after \<^verbatim>\<open>retryAt\<close> (at
  any time if \<^verbatim>\<open>retryAt\<close> is the zero time), whatever its lease was, and no other job is touched.
\<close>

lemma memqueue_nack_retry:
  assumes "memqueue_inv q" and "jid \<in> job_ids (memqueue_jobs q)"
  shows "\<exists>q'. memqueue_Nack jid retryAt q w = (Inr (), q', w) \<and>
    (\<forall>t. list_all2 (\<lambda>j j'. if jb_ID j = jid
            then same_job j j' \<and> jb_DequeueCount j' = jb_DequeueCount j \<and>
                 (\<forall>now. job_available now j' \<longleftrightarrow> retryAt = 0 \<or> retryAt < now)
            else j' = j) (memqueue_jobs q t) (memqueue_jobs q' t))"
proof -
  obtain r q' w' where call: "memqueue_Nack jid retryAt q w = (r, q', w')" by (metis prod.exhaust)
  from memqueue_Nack_ok[OF assms call] call show ?thesis
    by (auto simp: list_all2_conv_all_nth same_job_def job_available_def)
qed

end
