(* ===== verification/Cache_Store.thy ===== *)
theory Cache_Store
  imports Provider_Interfaces
begin

text \<open>
  The contract of an atomic cache (\<^verbatim>\<open>src/provider/cache/cache.go\<close>), whatever implements it: what a
  client sees at a time is a map from keys to values, and every method is described by what it
  does to that map at its own time and at all later ones. The client's theorems (a write is read
  back until it expires, compare-and-set elects one winner) are proved from the contract alone.
\<close>

text \<open>Whether a value written at \<open>start\<close> with a TTL is still there at \<open>t\<close>.\<close>

definition lasts :: "time \<Rightarrow> duration \<Rightarrow> time \<Rightarrow> bool" where
  "lasts start ttl t \<longleftrightarrow> ttl \<le> 0 \<or> t \<le> start + ttl"

text \<open>Whether compare-and-set replaces: \<^verbatim>\<open>nil\<close> (\<open>None\<close>) stands for an absent key, and equals an empty value.\<close>

definition cas_matches :: "bytes option \<Rightarrow> bytes option \<Rightarrow> bool" where
  "cas_matches old cur \<longleftrightarrow>
     (case cur of None \<Rightarrow> old = None | Some v \<Rightarrow> v = (case old of None \<Rightarrow> [] | Some b \<Rightarrow> b))"

locale cache_store =
  fixes ops :: "'c AtomicCacheStore" and visible :: "'c \<Rightarrow> time \<Rightarrow> string \<rightharpoonup> bytes"
  assumes get_ok: "clock_ok w \<Longrightarrow> cs_Get ops k c w = (rg, c', w') \<Longrightarrow>
      rg = (case visible c (shd (clock w)) k of None \<Rightarrow> Inl ErrCacheMiss | Some v \<Rightarrow> Inr v) \<and>
      clock_after w w' \<and> (\<forall>t\<ge>shd (clock w). visible c' t = visible c t)"
    and set_ok: "clock_ok w \<Longrightarrow> cs_Set ops k v ttl c w = (ru, c', w') \<Longrightarrow>
      ru = Inr () \<and> clock_after w w' \<and>
      (\<forall>t\<ge>shd (clock w). visible c' t =
        (visible c t)(k := if lasts (shd (clock w)) ttl t then Some v else None))"
    and delete_ok: "clock_ok w \<Longrightarrow> cs_Delete ops k c w = (ru, c', w') \<Longrightarrow>
      ru = Inr () \<and> clock_after w w' \<and> (\<forall>t\<ge>shd (clock w). visible c' t = (visible c t)(k := None))"
    and cas_ok: "clock_ok w \<Longrightarrow> cs_CompareAndSet ops k old v ttl c w = (rb, c', w') \<Longrightarrow>
      clock_after w w' \<and>
      (if cas_matches old (visible c (shd (clock w)) k)
       then rb = Inr True \<and> (\<exists>start\<ge>shd (clock w). start \<le> shd (clock w') \<and>
         (\<forall>t\<ge>shd (clock w). visible c' t =
           (visible c t)(k := if lasts start ttl t then Some v else None)))
       else rb = Inr False \<and> (\<forall>t\<ge>shd (clock w). visible c' t = visible c t))"

text \<open>Sequences of calls, by whichever clients, and those that may change a key.\<close>

datatype cache_call =
  Get_call string
| Set_call string bytes duration
| Delete_call string
| Cas_call string "bytes option" bytes duration

fun cache_do :: "('c, 'm) AtomicCacheStore_scheme \<Rightarrow> cache_call \<Rightarrow> 'c \<Rightarrow> world \<Rightarrow> 'c \<times> world" where
  "cache_do ops (Get_call k) c w = snd (cs_Get ops k c w)"
| "cache_do ops (Set_call k v ttl) c w = snd (cs_Set ops k v ttl c w)"
| "cache_do ops (Delete_call k) c w = snd (cs_Delete ops k c w)"
| "cache_do ops (Cas_call k old v ttl) c w = snd (cs_CompareAndSet ops k old v ttl c w)"

fun cache_run :: "('c, 'm) AtomicCacheStore_scheme \<Rightarrow> cache_call list \<Rightarrow> 'c \<Rightarrow> world \<Rightarrow> 'c \<times> world" where
  "cache_run ops [] c w = (c, w)"
| "cache_run ops (call # calls) c w = (let (c, w) = cache_do ops call c w in cache_run ops calls c w)"

fun writes_key :: "string \<Rightarrow> cache_call \<Rightarrow> bool" where
  "writes_key k (Get_call k') \<longleftrightarrow> False"
| "writes_key k (Set_call k' v ttl) \<longleftrightarrow> k' = k"
| "writes_key k (Delete_call k') \<longleftrightarrow> k' = k"
| "writes_key k (Cas_call k' old v ttl) \<longleftrightarrow> k' = k"

text \<open>Clients that compete for an absent key, one after the other, each with its own value.\<close>

fun cas_all :: "('c, 'm) AtomicCacheStore_scheme \<Rightarrow> string \<Rightarrow> duration \<Rightarrow> bytes list \<Rightarrow>
    ('c, bool result list) action" where
  "cas_all ops k ttl [] c w = ([], c, w)"
| "cas_all ops k ttl (v # vs) c w =
    (let (r, c, w) = cs_CompareAndSet ops k None v ttl c w; (rs, c, w) = cas_all ops k ttl vs c w
     in (r # rs, c, w))"

context cache_store
begin

lemma do_after:
  assumes "clock_ok w" and "cache_do ops call c w = (c', w')"
  shows "clock_after w w'"
proof (cases call)
  case (Get_call k)
  with assms(2) obtain r where "cs_Get ops k c w = (r, c', w')" by (cases "cs_Get ops k c w") auto
  from get_ok[OF assms(1) this] show ?thesis by simp
next
  case (Set_call k v ttl)
  with assms(2) obtain r where "cs_Set ops k v ttl c w = (r, c', w')"
    by (cases "cs_Set ops k v ttl c w") auto
  from set_ok[OF assms(1) this] show ?thesis by simp
next
  case (Delete_call k)
  with assms(2) obtain r where "cs_Delete ops k c w = (r, c', w')" by (cases "cs_Delete ops k c w") auto
  from delete_ok[OF assms(1) this] show ?thesis by simp
next
  case (Cas_call k old v ttl)
  with assms(2) obtain r where "cs_CompareAndSet ops k old v ttl c w = (r, c', w')"
    by (cases "cs_CompareAndSet ops k old v ttl c w") auto
  from cas_ok[OF assms(1) this] show ?thesis by simp
qed

lemma do_other:
  assumes ok: "clock_ok w" and call: "cache_do ops call c w = (c', w')"
    and other: "\<not> writes_key k call" and "shd (clock w) \<le> t"
  shows "visible c' t k = visible c t k"
proof (cases call)
  case (Get_call k')
  with call obtain r where "cs_Get ops k' c w = (r, c', w')" by (cases "cs_Get ops k' c w") auto
  from get_ok[OF ok this] assms(4) show ?thesis by simp
next
  case (Set_call k' v ttl)
  with call obtain r where "cs_Set ops k' v ttl c w = (r, c', w')" by (cases "cs_Set ops k' v ttl c w") auto
  from set_ok[OF ok this] other assms(4) Set_call show ?thesis by simp
next
  case (Delete_call k')
  with call obtain r where "cs_Delete ops k' c w = (r, c', w')" by (cases "cs_Delete ops k' c w") auto
  from delete_ok[OF ok this] other assms(4) Delete_call show ?thesis by simp
next
  case (Cas_call k' old v ttl)
  with call obtain r where "cs_CompareAndSet ops k' old v ttl c w = (r, c', w')"
    by (cases "cs_CompareAndSet ops k' old v ttl c w") auto
  from cas_ok[OF ok this] other assms(4) Cas_call show ?thesis
    by (auto split: if_splits)
qed

lemma run_other:
  assumes "clock_ok w" and "cache_run ops calls c w = (c', w')" and "\<forall>call\<in>set calls. \<not> writes_key k call"
  shows "clock_after w w' \<and> (\<forall>t\<ge>shd (clock w'). visible c' t k = visible c t k)"
  using assms
proof (induction calls arbitrary: c w)
  case Nil
  then show ?case by (simp add: clock_after_refl)
next
  case (Cons call calls)
  obtain c1 w1 where step: "cache_do ops call c w = (c1, w1)" by (metis prod.exhaust)
  note after = do_after[OF Cons.prems(1) step]
  note ok = clock_ok_after[OF Cons.prems(1) after]
  from Cons.prems step have run: "cache_run ops calls c1 w1 = (c', w')" and other: "\<not> writes_key k call"
    and others: "\<forall>call\<in>set calls. \<not> writes_key k call" by simp_all
  from Cons.IH[OF ok(1) run others] have rest: "clock_after w1 w'"
    "\<forall>t\<ge>shd (clock w'). visible c' t k = visible c1 t k" by blast+
  from clock_ok_after[OF ok(1) rest(1)] ok(2) have "shd (clock w) \<le> shd (clock w')" by linarith
  with rest after do_other[OF Cons.prems(1) step other] show ?case
    by (auto intro: clock_after_trans)
qed

lemma read_your_write:
  assumes "clock_ok w" and "cs_Set ops k v ttl c w = (ru, c1, w1)"
    and "cache_run ops calls c1 w1 = (c2, w2)" and "\<forall>call\<in>set calls. \<not> writes_key k call"
    and "cs_Get ops k c2 w2 = (rg, c3, w3)"
  shows "rg = (if lasts (shd (clock w)) ttl (shd (clock w2)) then Inr v else Inl ErrCacheMiss)"
proof -
  from set_ok[OF assms(1,2)] have s: "clock_after w w1" "\<forall>t\<ge>shd (clock w). visible c1 t =
      (visible c t)(k := if lasts (shd (clock w)) ttl t then Some v else None)" by blast+
  note ok1 = clock_ok_after[OF assms(1) s(1)]
  from run_other[OF ok1(1) assms(3,4)] have r: "clock_after w1 w2"
    "\<forall>t\<ge>shd (clock w2). visible c2 t k = visible c1 t k" by blast+
  note ok2 = clock_ok_after[OF ok1(1) r(1)]
  from get_ok[OF ok2(1) assms(5)] s(2) r(2) ok1(2) ok2(2) show ?thesis by simp
qed

lemma cas_all_after:
  "clock_ok w \<Longrightarrow> cas_all ops k ttl vs c w = (rs, c', w') \<Longrightarrow> clock_after w w'"
proof (induction vs arbitrary: c w rs)
  case Nil
  then show ?case by (simp add: clock_after_refl)
next
  case (Cons v vs)
  obtain r c1 w1 where step: "cs_CompareAndSet ops k None v ttl c w = (r, c1, w1)" by (metis prod.exhaust)
  obtain rs' c2 w2 where run: "cas_all ops k ttl vs c1 w1 = (rs', c2, w2)" by (metis prod.exhaust)
  with step Cons.prems(2) have "w2 = w'" by simp
  moreover from cas_ok[OF Cons.prems(1) step] have after: "clock_after w w1" by blast
  moreover have "clock_after w1 w2" if "c2 = c'"
    using Cons.IH[OF clock_ok_after(1)[OF Cons.prems(1) after]] run that \<open>w2 = w'\<close> by blast
  moreover have "c2 = c'" using Cons.prems(2) step run by simp
  ultimately show ?case by (auto intro: clock_after_trans)
qed

lemma cas_lost:
  assumes "clock_ok w" and "v \<noteq> []" and "cas_all ops k ttl vs c w = (rs, c', w')"
    and "\<forall>t. shd (clock w) \<le> t \<and> t \<le> T \<longrightarrow> visible c t k = Some v" and "shd (clock w') \<le> T"
  shows "clock_after w w' \<and> rs = replicate (length vs) (Inr False) \<and>
    (\<forall>t. shd (clock w') \<le> t \<and> t \<le> T \<longrightarrow> visible c' t k = Some v)"
  using assms
proof (induction vs arbitrary: c w rs)
  case Nil
  then show ?case by (simp add: clock_after_refl)
next
  case (Cons u us)
  obtain r c1 w1 where step: "cs_CompareAndSet ops k None u ttl c w = (r, c1, w1)" by (metis prod.exhaust)
  obtain rs' c2 w2 where run: "cas_all ops k ttl us c1 w1 = (rs', c2, w2)" by (metis prod.exhaust)
  with step Cons.prems(3) have eq: "rs = r # rs'" "c2 = c'" "w2 = w'" by simp_all
  from cas_ok[OF Cons.prems(1) step] have after: "clock_after w w1" by blast
  note ok = clock_ok_after[OF Cons.prems(1) after]
  note later = cas_all_after[OF ok(1) run[unfolded eq]]
  have le: "shd (clock w1) \<le> T" "shd (clock w) \<le> T"
    using clock_ok_after[OF ok(1) later] ok(2) Cons.prems(5) by linarith+
  with Cons.prems(2,4) have "\<not> cas_matches None (visible c (shd (clock w)) k)"
    by (simp add: cas_matches_def)
  with cas_ok[OF Cons.prems(1) step] have r: "r = Inr False" "\<forall>t\<ge>shd (clock w). visible c1 t = visible c t"
    by auto
  with Cons.prems(4) ok(2) have "\<forall>t. shd (clock w1) \<le> t \<and> t \<le> T \<longrightarrow> visible c1 t k = Some v" by simp
  from Cons.IH[OF ok(1) Cons.prems(2) run[unfolded eq] this Cons.prems(5)] r eq after show ?case
    by (auto intro: clock_after_trans)
qed

lemma cas_election:
  assumes ok: "clock_ok w" and "visible c (shd (clock w)) k = None" and "v \<noteq> []"
    and run: "cas_all ops k ttl (v # vs) c w = (rs, c', w')"
    and within: "lasts (shd (clock w)) ttl (shd (clock w'))"
  shows "rs = Inr True # replicate (length vs) (Inr False) \<and> visible c' (shd (clock w')) k = Some v"
proof -
  obtain r c1 w1 where step: "cs_CompareAndSet ops k None v ttl c w = (r, c1, w1)" by (metis prod.exhaust)
  obtain rs' c2 w2 where rest: "cas_all ops k ttl vs c1 w1 = (rs', c2, w2)" by (metis prod.exhaust)
  with step run have eq: "rs = r # rs'" "c2 = c'" "w2 = w'" by simp_all
  from assms(2) have "cas_matches None (visible c (shd (clock w)) k)" by (simp add: cas_matches_def)
  with cas_ok[OF ok step] obtain start where r: "r = Inr True" and after: "clock_after w w1"
    and start: "shd (clock w) \<le> start" and eff: "\<forall>t\<ge>shd (clock w). visible c1 t =
      (visible c t)(k := if lasts start ttl t then Some v else None)" by auto
  note ok1 = clock_ok_after[OF ok after]
  have "lasts start ttl t" if "t \<le> shd (clock w')" for t
    using within start that by (auto simp: lasts_def)
  with eff ok1(2) have "\<forall>t. shd (clock w1) \<le> t \<and> t \<le> shd (clock w') \<longrightarrow> visible c1 t k = Some v" by simp
  from cas_lost[OF ok1(1) assms(3) rest[unfolded eq] this order_refl] r eq show ?thesis by simp
qed

end

end
