(* ===== verification/Mem_Cache.thy ===== *)
theory Mem_Cache
  imports Cache_Store
begin

text \<open>
  \<^verbatim>\<open>src/provider/cache/memcache/memcache.go\<close>: the in-memory cache with lazy eviction. \<^verbatim>\<open>Set\<close>, \<^verbatim>\<open>Delete\<close> and
  \<^verbatim>\<open>CompareAndSet\<close> touch the map in one critical section; \<^verbatim>\<open>Get\<close> has two, the lookup under the read
  lock and the eviction under the write lock, which are separate definitions here so that other
  calls can be placed between them. The theory shows that the methods meet the contract
  \<open>cache_store\<close> when they do not overlap, and what an overlap with \<^verbatim>\<open>Get\<close> can do.
\<close>

subsection \<open>The store and its methods\<close>

record cacheEntry =
  ce_value :: bytes
  ce_expiresAt :: time

record memcache =
  mc_entries :: "string \<rightharpoonup> cacheEntry"

definition memcache_New :: memcache where
  "memcache_New = \<lparr>mc_entries = Map.empty\<rparr>"

definition memcache_Get_read :: "string \<Rightarrow> memcache \<Rightarrow> cacheEntry option" where
  [flames_ops]: "memcache_Get_read key c = mc_entries c key"

definition memcache_expired :: "cacheEntry \<Rightarrow> world \<Rightarrow> bool \<times> world" where
  [flames_ops]: "memcache_expired e w =
    (if time_IsZero (ce_expiresAt e) then (False, w)
     else let (now, w) = time_Now w in (time_After now (ce_expiresAt e), w))"

definition memcache_Get_evict :: "string \<Rightarrow> memcache \<Rightarrow> memcache" where
  [flames_ops]: "memcache_Get_evict key c = c\<lparr>mc_entries := (mc_entries c)(key := None)\<rparr>"

definition memcache_Get :: "string \<Rightarrow> (memcache, bytes result) action" where
  [flames_ops]: "memcache_Get key c w =
    (case memcache_Get_read key c of
       None \<Rightarrow> (Inl ErrCacheMiss, c, w)
     | Some entry \<Rightarrow>
         let (expired, w) = memcache_expired entry w
         in if expired then (Inl ErrCacheMiss, memcache_Get_evict key c, w)
            else (Inr (ce_value entry), c, w))"

definition memcache_entry :: "bytes \<Rightarrow> duration \<Rightarrow> world \<Rightarrow> cacheEntry \<times> world" where
  [flames_ops]: "memcache_entry v ttl w =
    (let entry = \<lparr>ce_value = v, ce_expiresAt = 0\<rparr>
     in if 0 < ttl
        then let (now, w) = time_Now w in (entry\<lparr>ce_expiresAt := time_Add now ttl\<rparr>, w)
        else (entry, w))"

definition memcache_Set :: "string \<Rightarrow> bytes \<Rightarrow> duration \<Rightarrow> (memcache, unit result) action" where
  [flames_ops]: "memcache_Set key v ttl c w =
    (let (entry, w) = memcache_entry v ttl w
     in (Inr (), c\<lparr>mc_entries := (mc_entries c)(key \<mapsto> entry)\<rparr>, w))"

definition memcache_Delete :: "string \<Rightarrow> (memcache, unit result) action" where
  [flames_ops]: "memcache_Delete key c w = (Inr (), c\<lparr>mc_entries := (mc_entries c)(key := None)\<rparr>, w)"

text \<open>\<^verbatim>\<open>bytes.Equal\<close> does not tell \<^verbatim>\<open>nil\<close> from an empty slice; \<^verbatim>\<open>old != nil\<close> does.\<close>

definition slice_bytes :: "bytes option \<Rightarrow> bytes" where
  "slice_bytes s = (case s of None \<Rightarrow> [] | Some b \<Rightarrow> b)"

definition memcache_CompareAndSet ::
    "string \<Rightarrow> bytes option \<Rightarrow> bytes \<Rightarrow> duration \<Rightarrow> (memcache, bool result) action" where
  [flames_ops]: "memcache_CompareAndSet key old new ttl c w =
    (let store = (\<lambda>c w. let (entry, w) = memcache_entry new ttl w
                        in (Inr True, c\<lparr>mc_entries := (mc_entries c)(key \<mapsto> entry)\<rparr>, w))
     in case mc_entries c key of
          None \<Rightarrow> if old \<noteq> None then (Inr False, c, w) else store c w
        | Some entry \<Rightarrow>
            let (expired, w) = memcache_expired entry w
            in if expired then
                 let c = c\<lparr>mc_entries := (mc_entries c)(key := None)\<rparr>
                 in if old \<noteq> None then (Inr False, c, w) else store c w
               else if ce_value entry \<noteq> slice_bytes old then (Inr False, c, w)
               else store c w)"

definition memcache_ops :: "memcache AtomicCacheStore" where
  "memcache_ops = \<lparr>cs_Get = memcache_Get, cs_Set = memcache_Set, cs_Delete = memcache_Delete,
     cs_CompareAndSet = memcache_CompareAndSet\<rparr>"

lemma memcache_ops_simps [simp]:
  "cs_Get memcache_ops = memcache_Get" "cs_Set memcache_ops = memcache_Set"
  "cs_Delete memcache_ops = memcache_Delete" "cs_CompareAndSet memcache_ops = memcache_CompareAndSet"
  by (simp_all add: memcache_ops_def)

subsection \<open>The contract\<close>

text \<open>What the cache holds at a time: the entries whose expiry has not passed.\<close>

definition entry_live :: "time \<Rightarrow> cacheEntry \<Rightarrow> bool" where
  "entry_live t e \<longleftrightarrow> ce_expiresAt e = 0 \<or> t \<le> ce_expiresAt e"

definition memcache_visible :: "memcache \<Rightarrow> time \<Rightarrow> string \<rightharpoonup> bytes" where
  "memcache_visible c t k =
    (case mc_entries c k of
       None \<Rightarrow> None
     | Some e \<Rightarrow> if entry_live t e then Some (ce_value e) else None)"

lemma memcache_expired_eq:
  "fst (memcache_expired e w) \<longleftrightarrow> \<not> entry_live (shd (clock w)) e"
  "clock_after w (snd (memcache_expired e w))"
  by (auto simp: memcache_expired_def entry_live_def time_IsZero_def time_Now_def time_After_def Let_def
      intro: clock_after_refl clock_after_read)

lemma memcache_entry_eq:
  assumes "clock_ok w"
  shows "entry_live t (fst (memcache_entry v ttl w)) \<longleftrightarrow> lasts (shd (clock w)) ttl t"
    and "ce_value (fst (memcache_entry v ttl w)) = v"
    and "clock_after w (snd (memcache_entry v ttl w))"
  using assms
  by (auto simp: memcache_entry_def entry_live_def lasts_def time_Now_def time_Add_def clock_ok_def Let_def
      intro: clock_after_refl clock_after_read)

lemma visible_store:
  "memcache_visible (c\<lparr>mc_entries := (mc_entries c)(k \<mapsto> e)\<rparr>) t =
     (memcache_visible c t)(k := if entry_live t e then Some (ce_value e) else None)"
  by (auto simp: memcache_visible_def fun_eq_iff)

lemma visible_remove:
  "memcache_visible (c\<lparr>mc_entries := (mc_entries c)(k := None)\<rparr>) t = (memcache_visible c t)(k := None)"
  by (auto simp: memcache_visible_def fun_eq_iff)

lemma visible_expired:
  assumes "mc_entries c k = Some e" and "\<not> entry_live now e" and "now \<le> t"
  shows "(memcache_visible c t)(k := None) = memcache_visible c t"
  using assms by (auto simp: memcache_visible_def entry_live_def fun_eq_iff)

lemma memcache_Get_ok:
  assumes "clock_ok w" and "memcache_Get k c w = (r, c', w')"
  shows "r = (case memcache_visible c (shd (clock w)) k of None \<Rightarrow> Inl ErrCacheMiss | Some v \<Rightarrow> Inr v) \<and>
    clock_after w w' \<and> (\<forall>t\<ge>shd (clock w). memcache_visible c' t = memcache_visible c t)"
proof (cases "mc_entries c k")
  case None
  with assms show ?thesis
    by (auto simp: memcache_Get_def memcache_Get_read_def memcache_visible_def clock_after_refl)
next
  case (Some e)
  with assms(2) memcache_expired_eq[where e = e and w = w] visible_expired[OF Some, of "shd (clock w)"] show ?thesis
    by (auto simp: memcache_Get_def memcache_Get_read_def memcache_Get_evict_def visible_remove
        memcache_visible_def[of c _ k] split: prod.splits if_splits)
qed

lemma memcache_Set_ok:
  assumes "clock_ok w" and "memcache_Set k v ttl c w = (r, c', w')"
  shows "r = Inr () \<and> clock_after w w' \<and> (\<forall>t\<ge>shd (clock w). memcache_visible c' t =
    (memcache_visible c t)(k := if lasts (shd (clock w)) ttl t then Some v else None))"
  using assms(2) memcache_entry_eq[OF assms(1), where v = v and ttl = ttl]
  by (auto simp: memcache_Set_def visible_store split: prod.splits)

lemma memcache_Delete_ok:
  assumes "memcache_Delete k c w = (r, c', w')"
  shows "r = Inr () \<and> clock_after w w' \<and>
    (\<forall>t\<ge>shd (clock w). memcache_visible c' t = (memcache_visible c t)(k := None))"
  using assms by (auto simp: memcache_Delete_def visible_remove clock_after_refl)

text \<open>The common end of the two successful paths of \<^verbatim>\<open>CompareAndSet\<close>.\<close>

lemma cas_stored:
  assumes ok: "clock_ok w" and after: "clock_after w w1"
    and "memcache_entry v ttl w1 = (e, w2)"
  shows "clock_after w w2" and "\<exists>start\<ge>shd (clock w). start \<le> shd (clock w2) \<and>
    (\<forall>t. memcache_visible (c\<lparr>mc_entries := (mc_entries c)(k \<mapsto> e)\<rparr>) t =
      (memcache_visible c t)(k := if lasts start ttl t then Some v else None))"
proof -
  note ok1 = clock_ok_after[OF ok after]
  from memcache_entry_eq[OF ok1(1), where v = v and ttl = ttl] assms(3) have e: "entry_live t e \<longleftrightarrow> lasts (shd (clock w1)) ttl t"
    "ce_value e = v" and w2: "clock_after w1 w2" for t by (metis fst_conv snd_conv)+
  show "clock_after w w2" by (rule clock_after_trans[OF after w2])
  from e ok1(2) clock_ok_after(2)[OF ok1(1) w2] show "\<exists>start\<ge>shd (clock w). start \<le> shd (clock w2) \<and>
    (\<forall>t. memcache_visible (c\<lparr>mc_entries := (mc_entries c)(k \<mapsto> e)\<rparr>) t =
      (memcache_visible c t)(k := if lasts start ttl t then Some v else None))"
    by (intro exI[of _ "shd (clock w1)"]) (simp add: visible_store)
qed

lemma memcache_CompareAndSet_ok:
  assumes ok: "clock_ok w" and call: "memcache_CompareAndSet k old v ttl c w = (r, c', w')"
  shows "clock_after w w' \<and>
    (if cas_matches old (memcache_visible c (shd (clock w)) k)
     then r = Inr True \<and> (\<exists>start\<ge>shd (clock w). start \<le> shd (clock w') \<and>
       (\<forall>t\<ge>shd (clock w). memcache_visible c' t =
         (memcache_visible c t)(k := if lasts start ttl t then Some v else None)))
     else r = Inr False \<and> (\<forall>t\<ge>shd (clock w). memcache_visible c' t = memcache_visible c t))"
proof (cases "mc_entries c k")
  case None
  then have vis: "memcache_visible c (shd (clock w)) k = None" by (simp add: memcache_visible_def)
  obtain e w1 where e: "memcache_entry v ttl w = (e, w1)" by (metis prod.exhaust)
  from cas_stored(1)[OF ok clock_after_refl[OF refl] e]
    cas_stored(2)[OF ok clock_after_refl[OF refl] e, where c = c and k = k] None call e vis show ?thesis
    by (cases old) (auto simp: memcache_CompareAndSet_def cas_matches_def
        clock_after_refl)
next
  case (Some entry)
  obtain x w1 where x: "memcache_expired entry w = (x, w1)" by (metis prod.exhaust)
  with memcache_expired_eq[where e = entry and w = w] have live: "x \<longleftrightarrow> \<not> entry_live (shd (clock w)) entry"
    and after: "clock_after w w1" by auto
  obtain e w2 where e: "memcache_entry v ttl w1 = (e, w2)" by (metis prod.exhaust)
  note stored = cas_stored(1)[OF ok after e] cas_stored(2)[OF ok after e, where k = k]
  show ?thesis
  proof (cases x)
    case True
    with live have dead: "\<not> entry_live (shd (clock w)) entry" by simp
    with Some have vis: "memcache_visible c (shd (clock w)) k = None" by (simp add: memcache_visible_def)
    note same = visible_expired[OF Some dead]
    have upd: "(memcache_visible c t)(k := None, k := z) = (memcache_visible c t)(k := z)" for t z by simp
    from True Some x e call stored(1) stored(2)[where c = "c\<lparr>mc_entries := (mc_entries c)(k := None)\<rparr>"] same vis after
    show ?thesis
      by (cases old) (auto simp: memcache_CompareAndSet_def cas_matches_def
          visible_remove)
  next
    case False
    with live Some have vis: "memcache_visible c (shd (clock w)) k = Some (ce_value entry)"
      by (simp add: memcache_visible_def)
    with False Some x e call stored(1) stored(2)[where c = c] after show ?thesis
      by (auto simp: memcache_CompareAndSet_def cas_matches_def
          slice_bytes_def split: if_splits)
  qed
qed

lemma memcache_cache_store: "cache_store memcache_ops memcache_visible"
  by (unfold_locales, unfold memcache_ops_simps)
    (rule memcache_Get_ok memcache_Set_ok memcache_Delete_ok memcache_CompareAndSet_ok; assumption)+

interpretation memcache: cache_store memcache_ops memcache_visible
  by (rule memcache_cache_store)

subsection \<open>Properties\<close>

text \<open>A cache with one entry, for concrete runs.\<close>

definition one_entry :: "string \<Rightarrow> bytes \<Rightarrow> time \<Rightarrow> memcache" where
  "one_entry k v t = \<lparr>mc_entries = [k \<mapsto> \<lparr>ce_value = v, ce_expiresAt = t\<rparr>]\<rparr>"

lemmas memcache_run_simps = flames_ops one_entry_def time_Now_def time_IsZero_def time_After_def time_Add_def

text \<open>
  C18: The in-memory cache meets the contract of an atomic cache: at every time the visible map is
  what the calls so far made of it, an entry with a positive TTL is visible up to and including
  its expiry, one with a TTL of zero or less for ever, and compare-and-set replaces exactly when
  the visible value is the expected one, where \<^verbatim>\<open>nil\<close> expects an absent key or an empty value.
\<close>

theorem memcache_contract: "cache_store memcache_ops memcache_visible"
  by (rule memcache_cache_store)

text \<open>
  A value written with \<^verbatim>\<open>Set\<close> is read back by \<^verbatim>\<open>Get\<close> after any sequence of calls that do not
  write its key, until its TTL has passed, and after that \<^verbatim>\<open>Get\<close> reports \<^verbatim>\<open>ErrCacheMiss\<close>.
\<close>

lemma memcache_read_your_write:
  assumes "clock_ok w" and "memcache_Set k v ttl c w = (ru, c1, w1)"
    and "cache_run memcache_ops calls c1 w1 = (c2, w2)" and "\<forall>call\<in>set calls. \<not> writes_key k call"
    and "memcache_Get k c2 w2 = (rg, c3, w3)"
  shows "rg = (if lasts (shd (clock w)) ttl (shd (clock w2)) then Inr v else Inl ErrCacheMiss)"
  using assms by (intro memcache.read_your_write[of w k v ttl c]) simp_all



lemma get_overlap:
  assumes "clock_ok w" and "memcache_Get_read k c = Some e" and "memcache_expired e w = (True, w1)"
    and "cache_run memcache_ops calls c w1 = (c2, w2)"
  shows "(\<forall>call\<in>set calls. \<not> writes_key k call) \<Longrightarrow>
      \<forall>t\<ge>shd (clock w2). memcache_visible (memcache_Get_evict k c2) t = memcache_visible c2 t"
    and "calls = [Set_call k v ttl] \<Longrightarrow> lasts (shd (clock w1)) ttl (shd (clock w2)) \<Longrightarrow>
      memcache_visible c2 (shd (clock w2)) k = Some v \<and>
      (\<forall>t. memcache_visible (memcache_Get_evict k c2) t k = None)"
proof -
  from memcache_expired_eq[where e = e and w = w] assms(3) have dead: "\<not> entry_live (shd (clock w)) e"
    and after: "clock_after w w1" by auto
  note ok = clock_ok_after[OF assms(1) after]
  have evict: "memcache_visible (memcache_Get_evict k c2) t = (memcache_visible c2 t)(k := None)" for t
    by (simp add: memcache_Get_evict_def visible_remove)
  show "\<forall>t\<ge>shd (clock w2). memcache_visible (memcache_Get_evict k c2) t = memcache_visible c2 t"
    if "\<forall>call\<in>set calls. \<not> writes_key k call"
  proof (intro allI impI)
    fix t assume t: "shd (clock w2) \<le> t"
    from memcache.run_other[OF ok(1) assms(4) that] have "clock_after w1 w2"
      and same: "memcache_visible c2 t k = memcache_visible c t k" using t by blast+
    then have "shd (clock w) \<le> t" using clock_ok_after(2)[OF ok(1)] ok(2) t by fastforce
    with dead assms(2) have "memcache_visible c t k = None"
      by (auto simp: memcache_visible_def memcache_Get_read_def entry_live_def)
    with same evict show "memcache_visible (memcache_Get_evict k c2) t = memcache_visible c2 t"
      by (simp add: fun_upd_idem)
  qed
  show "memcache_visible c2 (shd (clock w2)) k = Some v \<and>
      (\<forall>t. memcache_visible (memcache_Get_evict k c2) t k = None)"
    if "calls = [Set_call k v ttl]" and "lasts (shd (clock w1)) ttl (shd (clock w2))"
  proof -
    from that(1) assms(4) obtain r where set: "memcache_Set k v ttl c w1 = (r, c2, w2)"
      by (cases "memcache_Set k v ttl c w1") auto
    from memcache_Set_ok[OF ok(1) set] clock_ok_after(2)[OF ok(1), of w2] that(2)
    show ?thesis by (simp add: evict)
  qed
qed

text \<open>
  C33: \<^verbatim>\<open>Get\<close> releases the lock between finding an entry expired and evicting the key. Calls in
  between that do not write the key are harmless: the eviction then changes nothing that is
  visible. A \<^verbatim>\<open>Set\<close> of the key in between is lost: its value is visible when \<^verbatim>\<open>Set\<close> returns and is
  gone at every time once the eviction has run.
\<close>

theorem memcache_get_overlap:
  assumes "clock_ok w" and "memcache_Get_read k c = Some e" and "memcache_expired e w = (True, w1)"
    and "cache_run memcache_ops calls c w1 = (c2, w2)"
  shows "((\<forall>call\<in>set calls. \<not> writes_key k call) \<longrightarrow>
      (\<forall>t\<ge>shd (clock w2). memcache_visible (memcache_Get_evict k c2) t = memcache_visible c2 t)) \<and>
    (calls = [Set_call k v ttl] \<and> lasts (shd (clock w1)) ttl (shd (clock w2)) \<longrightarrow>
      memcache_visible c2 (shd (clock w2)) k = Some v \<and>
      (\<forall>t. memcache_visible (memcache_Get_evict k c2) t k = None))"
  using get_overlap(1)[OF assms] get_overlap(2)[OF assms, of v ttl] by blast

theorem memcache_get_overlap_witness:
  "\<exists>w1 c2 w2. memcache_expired \<lparr>ce_value = [9], ce_expiresAt = 4\<rparr> (clock_world (sconst 5)) = (True, w1) \<and>
     cache_run memcache_ops [Set_call ''a'' [1] 0] (one_entry ''a'' [9] 4) w1 = (c2, w2) \<and>
     memcache_visible c2 5 ''a'' = Some [1] \<and>
     (\<forall>t. memcache_visible (memcache_Get_evict ''a'' c2) t ''a'' = None)"
proof -
  let ?e = "\<lparr>ce_value = [9], ce_expiresAt = 4\<rparr>" and ?w = "clock_world (sconst 5)"
  obtain w1 where x: "memcache_expired ?e ?w = (True, w1)" and w1: "clock w1 = sconst 5"
    by (simp add: memcache_run_simps)
  obtain c2 w2 where run: "cache_run memcache_ops [Set_call ''a'' [1] 0] (one_entry ''a'' [9] 4) w1 = (c2, w2)"
    by (metis prod.exhaust)
  then have "clock w2 = sconst 5" using w1 by (auto simp: memcache_run_simps)
  moreover have "clock_ok ?w" by (simp add: clock_ok_def mono_clock_def)
  moreover have "memcache_Get_read ''a'' (one_entry ''a'' [9] 4) = Some ?e" by (simp add: memcache_run_simps)
  ultimately have "memcache_visible c2 5 ''a'' = Some [1] \<and>
      (\<forall>t. memcache_visible (memcache_Get_evict ''a'' c2) t ''a'' = None)"
    using memcache_get_overlap[OF _ _ x run, of "''a''" "[1]" 0] by (simp add: lasts_def)
  with x run show ?thesis by blast
qed

end
