(* ===== verification/Cache_Slices.thy ===== *)
theory Cache_Slices
  imports Mem_Cache
begin

text \<open>
  The cache of \<^verbatim>\<open>src/provider/cache/memcache/memcache.go\<close> with its byte slices as what they are: references to
  arrays that the cache and its callers may share. \<^verbatim>\<open>Set\<close> and \<^verbatim>\<open>CompareAndSet\<close> copy what they are given, \<^verbatim>\<open>Get\<close>
  returns the stored slice itself. The theory shows for which callers the value model of \<open>Mem_Cache\<close>
  describes the cache, those that write only to arrays they made themselves, and what happens otherwise.
\<close>

subsection \<open>The store and its methods\<close>

text \<open>The arrays of the program, addressed by position; \<open>sh_mine\<close> are those that the callers made.\<close>

record sliceEntry =
  se_value :: nat
  se_expiresAt :: time

record shared =
  sh_arrays :: "bytes list"
  sh_entries :: "string \<rightharpoonup> sliceEntry"
  sh_mine :: "nat set"

definition shared_New :: shared where
  "shared_New = \<lparr>sh_arrays = [], sh_entries = Map.empty, sh_mine = {}\<rparr>"

text \<open>What an entry holds at the moment.\<close>

definition slice_entry :: "shared \<Rightarrow> sliceEntry \<Rightarrow> cacheEntry" where
  "slice_entry s e = \<lparr>ce_value = sh_arrays s ! se_value e, ce_expiresAt = se_expiresAt e\<rparr>"

definition slice_Get :: "string \<Rightarrow> (shared, nat result) action" where
  [flames_ops]: "slice_Get key s w =
    (case sh_entries s key of
       None \<Rightarrow> (Inl ErrCacheMiss, s, w)
     | Some entry \<Rightarrow>
         let (expired, w) = memcache_expired (slice_entry s entry) w
         in if expired then (Inl ErrCacheMiss, s\<lparr>sh_entries := (sh_entries s)(key := None)\<rparr>, w)
            else (Inr (se_value entry), s, w))"

text \<open>\<^verbatim>\<open>make\<close> and \<^verbatim>\<open>copy\<close>, then the expiry.\<close>

definition slice_store :: "string \<Rightarrow> nat \<Rightarrow> duration \<Rightarrow> shared \<Rightarrow> world \<Rightarrow> shared \<times> world" where
  [flames_ops]: "slice_store key v ttl s w =
    (let entry = \<lparr>se_value = length (sh_arrays s), se_expiresAt = 0\<rparr>;
         s = s\<lparr>sh_arrays := sh_arrays s @ [sh_arrays s ! v]\<rparr>;
         (entry, w) =
           (if 0 < ttl
            then let (now, w) = time_Now w in (entry\<lparr>se_expiresAt := time_Add now ttl\<rparr>, w)
            else (entry, w))
     in (s\<lparr>sh_entries := (sh_entries s)(key \<mapsto> entry)\<rparr>, w))"

definition slice_Set :: "string \<Rightarrow> nat \<Rightarrow> duration \<Rightarrow> (shared, unit result) action" where
  [flames_ops]: "slice_Set key v ttl s w = (Inr (), slice_store key v ttl s w)"

definition slice_Delete :: "string \<Rightarrow> (shared, unit result) action" where
  [flames_ops]: "slice_Delete key s w = (Inr (), s\<lparr>sh_entries := (sh_entries s)(key := None)\<rparr>, w)"

definition slice_CompareAndSet :: "string \<Rightarrow> nat option \<Rightarrow> nat \<Rightarrow> duration \<Rightarrow> (shared, bool result) action" where
  [flames_ops]: "slice_CompareAndSet key old new ttl s w =
    (let store = (\<lambda>s w. (Inr True, slice_store key new ttl s w))
     in case sh_entries s key of
          None \<Rightarrow> if old \<noteq> None then (Inr False, s, w) else store s w
        | Some entry \<Rightarrow>
            let (expired, w) = memcache_expired (slice_entry s entry) w
            in if expired then
                 let s = s\<lparr>sh_entries := (sh_entries s)(key := None)\<rparr>
                 in if old \<noteq> None then (Inr False, s, w) else store s w
               else if sh_arrays s ! se_value entry \<noteq> slice_bytes (map_option ((!) (sh_arrays s)) old)
               then (Inr False, s, w)
               else store s w)"

subsection \<open>Refinement\<close>

definition cache_of :: "shared \<Rightarrow> memcache" where
  "cache_of s = \<lparr>mc_entries = (\<lambda>k. map_option (slice_entry s) (sh_entries s k))\<rparr>"

text \<open>The cache holds arrays that exist and that no caller made.\<close>

definition slices_inv :: "shared \<Rightarrow> bool" where
  "slices_inv s \<longleftrightarrow> sh_mine s \<subseteq> {..<length (sh_arrays s)} \<and>
     (\<forall>k e. sh_entries s k = Some e \<longrightarrow> se_value e < length (sh_arrays s) \<and> se_value e \<notin> sh_mine s)"

lemma slices_inv_New: "slices_inv shared_New"
  by (simp add: slices_inv_def shared_New_def)

lemma slice_entry_entries [simp]: "slice_entry (s\<lparr>sh_entries := m\<rparr>) = slice_entry s"
  by (simp add: fun_eq_iff slice_entry_def)

lemma cache_of_entries [simp]: "mc_entries (cache_of s) k = map_option (slice_entry s) (sh_entries s k)"
  by (simp add: cache_of_def)

lemma cache_of_remove: "cache_of (s\<lparr>sh_entries := (sh_entries s)(k := None)\<rparr>) = (cache_of s)\<lparr>mc_entries := (mc_entries (cache_of s))(k := None)\<rparr>"
  by (auto simp: cache_of_def fun_eq_iff)

lemma slices_inv_remove: "slices_inv s \<Longrightarrow> slices_inv (s\<lparr>sh_entries := (sh_entries s)(k := None)\<rparr>)"
  by (auto simp: slices_inv_def split: if_splits)

lemma slice_store_ok:
  assumes "slices_inv s" "v < length (sh_arrays s)" "slice_store k v ttl s w = (s', w')"
  shows "\<exists>e. memcache_entry (sh_arrays s ! v) ttl w = (e, w') \<and>
    cache_of s' = (cache_of s)\<lparr>mc_entries := (mc_entries (cache_of s))(k \<mapsto> e)\<rparr> \<and> slices_inv s'"
proof -
  let ?e = "fst (memcache_entry (sh_arrays s ! v) ttl w)" and ?arrays = "sh_arrays s @ [sh_arrays s ! v]"
  have e: "memcache_entry (sh_arrays s ! v) ttl w = (?e, w')"
    and s': "s' = s\<lparr>sh_arrays := ?arrays, sh_entries := (sh_entries s)(k \<mapsto> \<lparr>se_value = length (sh_arrays s), se_expiresAt = ce_expiresAt ?e\<rparr>)\<rparr>"
    using assms(3) by (auto simp: slice_store_def memcache_entry_def Let_def split_beta split: if_splits)
  have v: "ce_value ?e = sh_arrays s ! v" by (simp add: memcache_entry_def Let_def split_beta)
  have "mc_entries (cache_of s') j = ((mc_entries (cache_of s))(k \<mapsto> ?e)) j" for j
  proof (cases "j = k")
    case True
    then show ?thesis using v by (simp add: s' slice_entry_def)
  next
    case False
    then show ?thesis using assms(1)
      by (cases "sh_entries s j") (auto simp: s' slice_entry_def slices_inv_def nth_append)
  qed
  then have "cache_of s' = (cache_of s)\<lparr>mc_entries := (mc_entries (cache_of s))(k \<mapsto> ?e)\<rparr>"
    by (simp add: cache_of_def fun_eq_iff)
  moreover have "slices_inv s'" using assms(1) by (fastforce simp: s' slices_inv_def split: if_splits)
  ultimately show ?thesis using e by blast
qed

lemma slice_Get_ok:
  assumes "slices_inv s" "slice_Get k s w = (r, s', w')"
  shows "memcache_Get k (cache_of s) w = (map_sum id ((!) (sh_arrays s')) r, cache_of s', w') \<and> slices_inv s'"
  using assms by (cases "sh_entries s k")
    (auto simp: slice_Get_def memcache_Get_def memcache_Get_read_def memcache_Get_evict_def cache_of_remove slices_inv_remove
      Let_def slice_entry_def[of s] split_beta simp del: fun_upd_apply split: if_splits)

lemma slice_Set_ok:
  assumes "slices_inv s" "v < length (sh_arrays s)" "slice_Set k v ttl s w = (r, s', w')"
  shows "memcache_Set k (sh_arrays s ! v) ttl (cache_of s) w = (r, cache_of s', w') \<and> slices_inv s'"
  using assms slice_store_ok[OF assms(1,2), of k ttl w s' w'] by (auto simp: slice_Set_def memcache_Set_def)

lemma slice_Delete_ok:
  assumes "slices_inv s" "slice_Delete k s w = (r, s', w')"
  shows "memcache_Delete k (cache_of s) w = (r, cache_of s', w') \<and> slices_inv s'"
  using assms by (auto simp: slice_Delete_def memcache_Delete_def cache_of_remove slices_inv_remove)

lemma slice_store_value:
  assumes "slices_inv s" "v < length (sh_arrays s)"
  shows "case slice_store k v ttl s w of (s', w') \<Rightarrow>
    (let (entry, w) = memcache_entry (sh_arrays s ! v) ttl w
     in (Inr True, (cache_of s)\<lparr>mc_entries := (mc_entries (cache_of s))(k \<mapsto> entry)\<rparr>, w)) = (Inr True :: bool result, cache_of s', w') \<and>
    slices_inv s'"
  using slice_store_ok[OF assms, of k ttl w] by (fastforce split: prod.split)

lemma slice_CompareAndSet_ok:
  assumes inv: "slices_inv s" and new: "new < length (sh_arrays s)" and call: "slice_CompareAndSet k old new ttl s w = (r, s', w')"
  shows "memcache_CompareAndSet k (map_option ((!) (sh_arrays s)) old) (sh_arrays s ! new) ttl (cache_of s) w = (r, cache_of s', w') \<and>
    slices_inv s'"
proof (cases "sh_entries s k")
  case None
  with call inv slice_store_value[OF inv new, where k = k and ttl = ttl and w = w] show ?thesis
    by (auto simp: slice_CompareAndSet_def memcache_CompareAndSet_def split: if_splits prod.splits)
next
  case (Some e)
  let ?s = "s\<lparr>sh_entries := (sh_entries s)(k := None)\<rparr>"
  obtain expired w1 where ex: "memcache_expired (slice_entry s e) w = (expired, w1)" by (rule prod.exhaust)
  have rem: "slices_inv ?s" "new < length (sh_arrays ?s)" using slices_inv_remove[OF inv] new by simp_all
  have val: "ce_value (slice_entry s e) = sh_arrays s ! se_value e" by (simp add: slice_entry_def)
  show ?thesis
  proof (cases expired)
    case True
    with call Some ex inv rem slice_store_value[OF rem, where k = k and ttl = ttl and w = w1] show ?thesis
      by (auto simp: slice_CompareAndSet_def memcache_CompareAndSet_def cache_of_remove Let_def split: if_splits prod.splits)
  next
    case False
    with call Some ex inv slice_store_value[OF inv new, where k = k and ttl = ttl and w = w1] show ?thesis
      by (auto simp: slice_CompareAndSet_def memcache_CompareAndSet_def val split: if_splits prod.splits)
  qed
qed

subsection \<open>Callers\<close>

text \<open>What the cache answers, as seen when the call returns.\<close>

datatype cache_answer = Stored | Value bytes | Swapped bool | Failed go_error

fun memcache_answer :: "cache_call \<Rightarrow> (memcache, cache_answer) action" where
  "memcache_answer (Get_call k) c w = apfst (case_sum Failed Value) (memcache_Get k c w)"
| "memcache_answer (Set_call k v ttl) c w = apfst (case_sum Failed (\<lambda>_. Stored)) (memcache_Set k v ttl c w)"
| "memcache_answer (Delete_call k) c w = apfst (case_sum Failed (\<lambda>_. Stored)) (memcache_Delete k c w)"
| "memcache_answer (Cas_call k old v ttl) c w = apfst (case_sum Failed Swapped) (memcache_CompareAndSet k old v ttl c w)"

fun memcache_answers :: "cache_call list \<Rightarrow> (memcache, cache_answer list) action" where
  "memcache_answers [] c w = ([], c, w)"
| "memcache_answers (call # calls) c w =
    (let (a, c, w) = memcache_answer call c w; (as, c, w) = memcache_answers calls c w in (a # as, c, w))"

text \<open>
  What callers do: make an array, write a byte into one, and call the cache with slices. The calls of the cache are
  recorded with the contents of the slices that were passed and returned.
\<close>

datatype caller_step =
  Make_array bytes
| Write_array nat nat byte
| Call_Get string
| Call_Set string nat duration
| Call_Delete string
| Call_Cas string "nat option" nat duration

type_synonym cache_trace = "(cache_call \<times> cache_answer) list"

fun caller_do :: "caller_step \<Rightarrow> (shared, cache_trace) action" where
  "caller_do (Make_array b) s w =
    ([], s\<lparr>sh_arrays := sh_arrays s @ [b], sh_mine := insert (length (sh_arrays s)) (sh_mine s)\<rparr>, w)"
| "caller_do (Write_array a i b) s w =
    ([], s\<lparr>sh_arrays := (sh_arrays s)[a := (sh_arrays s ! a)[i := b]]\<rparr>, w)"
| "caller_do (Call_Get k) s w =
    (let (r, s', w') = slice_Get k s w
     in ([(Get_call k, case_sum Failed (\<lambda>a. Value (sh_arrays s' ! a)) r)], s', w'))"
| "caller_do (Call_Set k v ttl) s w =
    (let (r, s', w') = slice_Set k v ttl s w
     in ([(Set_call k (sh_arrays s ! v) ttl, case_sum Failed (\<lambda>_. Stored) r)], s', w'))"
| "caller_do (Call_Delete k) s w =
    (let (r, s', w') = slice_Delete k s w in ([(Delete_call k, case_sum Failed (\<lambda>_. Stored) r)], s', w'))"
| "caller_do (Call_Cas k old v ttl) s w =
    (let (r, s', w') = slice_CompareAndSet k old v ttl s w
     in ([(Cas_call k (map_option ((!) (sh_arrays s)) old) (sh_arrays s ! v) ttl, case_sum Failed Swapped r)], s', w'))"

fun caller_run :: "caller_step list \<Rightarrow> (shared, cache_trace) action" where
  "caller_run [] s w = ([], s, w)"
| "caller_run (c # cs) s w = (let (t, s, w) = caller_do c s w; (t', s, w) = caller_run cs s w in (t @ t', s, w))"

text \<open>Steps with slices that exist, and steps that moreover write only to arrays of the callers' own making.\<close>

fun sensible :: "shared \<Rightarrow> caller_step \<Rightarrow> bool" where
  "sensible s (Write_array a i b) \<longleftrightarrow> a < length (sh_arrays s) \<and> i < length (sh_arrays s ! a)"
| "sensible s (Call_Set k v ttl) \<longleftrightarrow> v < length (sh_arrays s)"
| "sensible s (Call_Cas k old v ttl) \<longleftrightarrow> v < length (sh_arrays s)"
| "sensible s _ \<longleftrightarrow> True"

fun polite :: "shared \<Rightarrow> caller_step \<Rightarrow> bool" where
  "polite s (Write_array a i b) \<longleftrightarrow> a \<in> sh_mine s"
| "polite s _ \<longleftrightarrow> True"

fun along :: "(shared \<Rightarrow> caller_step \<Rightarrow> bool) \<Rightarrow> caller_step list \<Rightarrow> shared \<Rightarrow> world \<Rightarrow> bool" where
  "along P [] s w \<longleftrightarrow> True"
| "along P (c # cs) s w \<longleftrightarrow> P s c \<and> (case caller_do c s w of (t, s', w') \<Rightarrow> along P cs s' w')"

lemma cache_of_write:
  assumes "slices_inv s" "a \<in> sh_mine s"
  shows "cache_of (s\<lparr>sh_arrays := (sh_arrays s)[a := b]\<rparr>) = cache_of s" "slices_inv (s\<lparr>sh_arrays := (sh_arrays s)[a := b]\<rparr>)"
proof -
  have "map_option (slice_entry (s\<lparr>sh_arrays := (sh_arrays s)[a := b]\<rparr>)) (sh_entries s k) = map_option (slice_entry s) (sh_entries s k)" for k
    using assms by (cases "sh_entries s k") (fastforce simp: slice_entry_def slices_inv_def intro!: nth_list_update_neq)+
  then show "cache_of (s\<lparr>sh_arrays := (sh_arrays s)[a := b]\<rparr>) = cache_of s" by (simp add: cache_of_def)
qed (use assms in \<open>simp add: slices_inv_def\<close>)

lemma cache_of_make:
  assumes "slices_inv s"
  shows "cache_of (s\<lparr>sh_arrays := sh_arrays s @ [b], sh_mine := m\<rparr>) = cache_of s"
    "slices_inv (s\<lparr>sh_arrays := sh_arrays s @ [b], sh_mine := insert (length (sh_arrays s)) (sh_mine s)\<rparr>)"
proof -
  have "map_option (slice_entry (s\<lparr>sh_arrays := sh_arrays s @ [b], sh_mine := m\<rparr>)) (sh_entries s k) = map_option (slice_entry s) (sh_entries s k)" for k
    using assms by (cases "sh_entries s k") (auto simp: slice_entry_def slices_inv_def nth_append)
  then show "cache_of (s\<lparr>sh_arrays := sh_arrays s @ [b], sh_mine := m\<rparr>) = cache_of s" by (simp add: cache_of_def)
qed (use assms in \<open>fastforce simp: slices_inv_def\<close>)

lemma caller_step_ok:
  assumes inv: "slices_inv s" and ok: "sensible s c" "polite s c" and step: "caller_do c s w = (t, s', w')"
  shows "memcache_answers (map fst t) (cache_of s) w = (map snd t, cache_of s', w') \<and> slices_inv s'"
proof (cases c)
  case (Call_Get k)
  with step slice_Get_ok[OF inv, of k w] show ?thesis by (auto split: prod.splits sum.splits)
next
  case (Call_Set k v ttl)
  with step ok slice_Set_ok[OF inv, of v k ttl w] show ?thesis by (auto split: prod.splits)
next
  case (Call_Delete k)
  with step slice_Delete_ok[OF inv, of k w] show ?thesis by (auto split: prod.splits)
next
  case (Call_Cas k old v ttl)
  with step ok slice_CompareAndSet_ok[OF inv, of v k old ttl w] show ?thesis by (auto split: prod.splits)
qed (use step ok inv in \<open>auto simp: cache_of_write cache_of_make\<close>)

lemma memcache_answers_append:
  "memcache_answers (as @ bs) c w =
    (let (x, c, w) = memcache_answers as c w; (y, c, w) = memcache_answers bs c w in (x @ y, c, w))"
  by (induction as arbitrary: c w) (auto simp: Let_def split: prod.splits)

lemma caller_run_ok:
  "slices_inv s \<Longrightarrow> along sensible steps s w \<Longrightarrow> along polite steps s w \<Longrightarrow> caller_run steps s w = (t, s', w') \<Longrightarrow>
    memcache_answers (map fst t) (cache_of s) w = (map snd t, cache_of s', w')"
proof (induction steps arbitrary: s w t)
  case (Cons c cs)
  obtain t1 s1 w1 where step: "caller_do c s w = (t1, s1, w1)" by (metis prod.exhaust)
  from Cons.prems(4) step obtain t2 where rest: "caller_run cs s1 w1 = (t2, s', w')" and run: "t = t1 @ t2"
    by (auto split: prod.splits)
  from caller_step_ok[OF Cons.prems(1) _ _ step] Cons.prems(2,3) have
    "memcache_answers (map fst t1) (cache_of s) w = (map snd t1, cache_of s1, w1)" "slices_inv s1" by simp_all
  with Cons.IH[OF this(2) _ _ rest] Cons.prems(2,3) step run show ?case by (simp add: memcache_answers_append)
qed simp

text \<open>
  C24: For callers that share slices with the cache: as long as they write only into arrays of their own making, also
  into those they have passed to the cache, which copies them, every answer of the cache is the one of the value
  model for the bytes that were passed at the time of the call. But \<^verbatim>\<open>Get\<close> does not copy: whatever bytes are cached,
  a caller who writes into the slice it got changes what \<^verbatim>\<open>Get\<close> returns from then on, without any call of \<^verbatim>\<open>Set\<close>.
\<close>

theorem memcache_slices:
  assumes "along sensible steps shared_New w" and "caller_run steps shared_New w = (t, s', w')"
  shows "(along polite steps shared_New w \<longrightarrow>
      memcache_answers (map fst t) memcache_New w = (map snd t, cache_of s', w')) \<and>
    fst (caller_run [Make_array (a # v), Call_Set k 0 0, Call_Get k, Write_array 1 0 b, Call_Get k] shared_New w) =
      [(Set_call k (a # v) 0, Stored), (Get_call k, Value (a # v)), (Get_call k, Value (b # v))]"
proof
  have "cache_of shared_New = memcache_New" by (simp add: cache_of_def shared_New_def memcache_New_def fun_eq_iff)
  with caller_run_ok[OF slices_inv_New assms(1) _ assms(2)]
  show "along polite steps shared_New w \<longrightarrow> memcache_answers (map fst t) memcache_New w = (map snd t, cache_of s', w')" by simp
  show "fst (caller_run [Make_array (a # v), Call_Set k 0 0, Call_Get k, Write_array 1 0 b, Call_Get k] shared_New w) =
      [(Set_call k (a # v) 0, Stored), (Get_call k, Value (a # v)), (Get_call k, Value (b # v))]"
    by (simp add: shared_New_def slice_Set_def slice_store_def slice_Get_def memcache_expired_def slice_entry_def time_IsZero_def)
qed

theorem memcache_slices_witness:
  "\<exists>s' w'. caller_run [Make_array [1, 2], Call_Set ''k'' 0 0, Write_array 0 0 9, Call_Get ''k''] shared_New (clock_world (sconst 5)) =
      ([(Set_call ''k'' [1, 2] 0, Stored), (Get_call ''k'', Value [1, 2])], s', w') \<and>
    memcache_answers [Set_call ''k'' [1, 2] 0, Get_call ''k''] memcache_New (clock_world (sconst 5)) =
      ([Stored, Value [1, 2]], cache_of s', w')"
proof -
  let ?steps = "[Make_array [1, 2], Call_Set ''k'' 0 0, Write_array 0 0 9, Call_Get ''k'']" and ?w = "clock_world (sconst 5)"
  note eval = shared_New_def slice_Set_def slice_store_def slice_Get_def memcache_expired_def slice_entry_def time_IsZero_def
  obtain t s' w' where run: "caller_run ?steps shared_New ?w = (t, s', w')" by (rule prod_cases3)
  then have t: "t = [(Set_call ''k'' [1, 2] 0, Stored), (Get_call ''k'', Value [1, 2])]" by (auto simp: eval)
  have "along sensible ?steps shared_New ?w" "along polite ?steps shared_New ?w" by (simp_all add: eval)
  from memcache_slices[OF this(1) run] this(2) run t show ?thesis by simp
qed

end
