(* ===== verification/Keyed_Calls.thy ===== *)
theory Keyed_Calls
  imports Provider_Interfaces
begin

text \<open>
  The interface shared by the stores that keep one record per key (blobs, endpoints): calls act on
  the store, each writes at most one key, and a call that does not write a key leaves its record
  alone. What one client wrote is therefore untouched by any sequence of other clients' calls.
\<close>

fun run_calls :: "('call \<Rightarrow> 's \<Rightarrow> world \<Rightarrow> 's \<times> world) \<Rightarrow> 'call list \<Rightarrow> 's \<Rightarrow> world \<Rightarrow> 's \<times> world" where
  "run_calls act [] s w = (s, w)"
| "run_calls act (call # calls) s w = (let (s, w) = act call s w in run_calls act calls s w)"

locale keyed_calls =
  fixes act :: "'call \<Rightarrow> 's \<Rightarrow> world \<Rightarrow> 's \<times> world" and inv :: "'s \<Rightarrow> bool"
    and look :: "'s \<Rightarrow> string \<rightharpoonup> 'v" and writes :: "string \<Rightarrow> 'call \<Rightarrow> bool"
  assumes keeps: "inv s \<Longrightarrow> act call s w = (s', w') \<Longrightarrow> inv s'"
    and frame: "inv s \<Longrightarrow> act call s w = (s', w') \<Longrightarrow> \<not> writes k call \<Longrightarrow> look s' k = look s k"
begin

lemma run_keeps: "inv s \<Longrightarrow> run_calls act calls s w = (s', w') \<Longrightarrow> inv s'"
proof (induction calls arbitrary: s w)
  case (Cons call calls)
  then show ?case using keeps[of s call w] by (cases "act call s w") auto
qed simp

lemma run_frame:
  "inv s \<Longrightarrow> run_calls act calls s w = (s', w') \<Longrightarrow> \<forall>call\<in>set calls. \<not> writes k call \<Longrightarrow>
    look s' k = look s k"
proof (induction calls arbitrary: s w)
  case (Cons call calls)
  obtain s1 w1 where step: "act call s w = (s1, w1)" by (metis prod.exhaust)
  with Cons keeps[OF Cons.prems(1) step] frame[OF Cons.prems(1) step, of k] show ?case by simp
qed simp

end

end
