(* ===== verification/Sha256.thy ===== *)
theory Sha256
  imports Go_Stdlib
begin

text \<open>
  \<^verbatim>\<open>sha256.Sum256\<close> of the standard library, from the published standard (FIPS 180-4): padding, message
  schedule, compression. The program uses it for blob checksums and to compare the bodies of
  requests that share an idempotency key. Nothing about collisions is assumed: where a property
  depends on whether two digests differ, its statement says so.
\<close>

type_synonym u32 = "32 word"
type_synonym sha_state = "u32 \<times> u32 \<times> u32 \<times> u32 \<times> u32 \<times> u32 \<times> u32 \<times> u32"

text \<open>
  The constants of the standard are the leading 32 fraction bits of the cube roots of the first 64
  primes and of the square roots of the first eight; they are computed from that description.
\<close>

fun root_bits :: "nat \<Rightarrow> nat \<Rightarrow> nat \<Rightarrow> nat \<Rightarrow> nat" where
  "root_bits k n 0 r = r"
| "root_bits k n (Suc i) r = root_bits k n i (if (r + 2 ^ i) ^ k \<le> n then r + 2 ^ i else r)"

definition first_primes :: "nat list" where
  "first_primes = filter (\<lambda>p. \<forall>d\<in>set [2..<p]. p mod d \<noteq> 0) [2..<312]"

definition frac_root :: "nat \<Rightarrow> nat \<Rightarrow> u32" where
  "frac_root k p = of_nat (root_bits k (p * 2 ^ (32 * k)) 38 0)"

definition sha_K :: "u32 list" where
  "sha_K = map (frac_root 3) first_primes"

definition sha_init :: sha_state where
  "sha_init = (case map (frac_root 2) (take 8 first_primes) of
     [a, b, c, d, e, f, g, h] \<Rightarrow> (a, b, c, d, e, f, g, h))"

definition sha_rotr :: "nat \<Rightarrow> u32 \<Rightarrow> u32" where
  "sha_rotr n x = drop_bit n x OR push_bit (32 - n) x"

definition sha_sigma0 :: "u32 \<Rightarrow> u32" where
  "sha_sigma0 x = sha_rotr 7 x XOR sha_rotr 18 x XOR drop_bit 3 x"
definition sha_sigma1 :: "u32 \<Rightarrow> u32" where
  "sha_sigma1 x = sha_rotr 17 x XOR sha_rotr 19 x XOR drop_bit 10 x"
definition sha_Sigma0 :: "u32 \<Rightarrow> u32" where
  "sha_Sigma0 x = sha_rotr 2 x XOR sha_rotr 13 x XOR sha_rotr 22 x"
definition sha_Sigma1 :: "u32 \<Rightarrow> u32" where
  "sha_Sigma1 x = sha_rotr 6 x XOR sha_rotr 11 x XOR sha_rotr 25 x"

text \<open>The schedule is kept with the newest word first.\<close>

fun sha_extend :: "nat \<Rightarrow> u32 list \<Rightarrow> u32 list" where
  "sha_extend 0 ws = ws"
| "sha_extend (Suc n) ws =
     sha_extend n ((sha_sigma1 (ws ! 1) + ws ! 6 + sha_sigma0 (ws ! 14) + ws ! 15) # ws)"

fun sha_rounds :: "(u32 \<times> u32) list \<Rightarrow> sha_state \<Rightarrow> sha_state" where
  "sha_rounds [] s = s"
| "sha_rounds ((k, w) # kws) (a, b, c, d, e, f, g, h) =
     (let t1 = h + sha_Sigma1 e + ((e AND f) XOR (NOT e AND g)) + k + w;
          t2 = sha_Sigma0 a + ((a AND b) XOR (a AND c) XOR (b AND c))
      in sha_rounds kws (t1 + t2, a, b, c, d + t1, e, f, g))"

fun be_word :: "bytes \<Rightarrow> u32" where
  "be_word bs = foldl (\<lambda>acc b. push_bit 8 acc OR ucast b) 0 bs"

fun be_words :: "bytes \<Rightarrow> u32 list" where
  "be_words (a # b # c # d # bs) = be_word [a, b, c, d] # be_words bs"
| "be_words bs = []"

definition sha_block :: "bytes \<Rightarrow> sha_state \<Rightarrow> sha_state" where
  "sha_block blk s =
    (case (s, sha_rounds (zip sha_K (rev (sha_extend 48 (rev (be_words blk))))) s) of
       ((a, b, c, d, e, f, g, h), (a', b', c', d', e', f', g', h')) \<Rightarrow>
         (a + a', b + b', c + c', d + d', e + e', f + f', g + g', h + h'))"

function sha_blocks :: "bytes \<Rightarrow> sha_state \<Rightarrow> sha_state" where
  "sha_blocks bs s = (if length bs < 64 then s else sha_blocks (drop 64 bs) (sha_block (take 64 bs) s))"
  by pat_completeness auto
termination
  by (relation "measure (length \<circ> fst)") auto

declare sha_blocks.simps [simp del]

definition be_bytes4 :: "u32 \<Rightarrow> bytes" where
  "be_bytes4 x = [ucast (drop_bit 24 x), ucast (drop_bit 16 x), ucast (drop_bit 8 x), ucast x]"

definition be_bytes8 :: "64 word \<Rightarrow> bytes" where
  "be_bytes8 x = be_bytes4 (ucast (drop_bit 32 x)) @ be_bytes4 (ucast x)"

definition sha_pad :: "bytes \<Rightarrow> bytes" where
  "sha_pad m =
    m @ [0x80] @ replicate ((119 - length m mod 64) mod 64) 0 @ be_bytes8 (8 * of_nat (length m))"

definition sha256_Sum256 :: "bytes \<Rightarrow> bytes" where
  "sha256_Sum256 m =
    (case sha_blocks (sha_pad m) sha_init of
       (a, b, c, d, e, f, g, h) \<Rightarrow> concat (map be_bytes4 [a, b, c, d, e, f, g, h]))"

lemma length_be_bytes4 [simp]: "length (be_bytes4 x) = 4"
  by (simp add: be_bytes4_def)

lemma length_be_bytes8 [simp]: "length (be_bytes8 x) = 8"
  by (simp add: be_bytes8_def)

lemma length_sha256 [simp]: "length (sha256_Sum256 m) = 32"
  by (simp add: sha256_Sum256_def split: prod.split)

text \<open>Every message fills whole 64-byte blocks after padding.\<close>

lemma sha_pad_blocks: "length (sha_pad m) mod 64 = 0"
proof -
  define q r where "q = length m div 64" and "r = length m mod 64"
  then have n: "length m = 64 * q + r" and r: "r < 64" by simp_all
  show ?thesis
  proof (cases "r \<le> 55")
    case True
    then have "(119 - r) mod 64 = 55 - r" by (simp add: mod_if)
    with True n show ?thesis by (simp add: sha_pad_def flip: r_def)
  next
    case False
    with r n show ?thesis by (simp add: sha_pad_def flip: r_def)
  qed
qed

end
