(* ===== verification/Mem_Blob.thy ===== *)
theory Mem_Blob
  imports Keyed_Calls Sha256
begin

text \<open>
  \<^verbatim>\<open>src/provider/blob/memblob/memblob.go\<close>: the in-memory blob store. The theory states the contract of a
  blob store as a locale (contents per key, and metadata that describes them), derives what its
  clients rely on, and shows that the in-memory store meets it.
\<close>

subsection \<open>The contract of a blob store\<close>

text \<open>The metadata of a blob: its key, its length as an \<^verbatim>\<open>int64\<close> and its SHA-256 checksum in hexadecimal.\<close>

definition describes :: "string \<Rightarrow> bytes \<Rightarrow> BlobMeta \<Rightarrow> bool" where
  "describes key data meta \<longleftrightarrow> bm_Key meta = key \<and> bm_Size meta = wrap64 (int (length data)) \<and>
     bm_Checksum meta = hex_EncodeToString (sha256_Sum256 data)"

text \<open>What the store keeps of the metadata it is given; the creation time only if it is set.\<close>

definition carries_over :: "BlobMeta \<Rightarrow> BlobMeta \<Rightarrow> bool" where
  "carries_over given meta \<longleftrightarrow> bm_ContentType meta = bm_ContentType given \<and>
     bm_Metadata meta = bm_Metadata given \<and> (bm_CreatedAt given \<noteq> 0 \<longrightarrow> bm_CreatedAt meta = bm_CreatedAt given)"

datatype blob_call =
  Put_blob string io_reader BlobMeta
| Get_blob string
| Head_blob string
| Delete_blob string
| Exists_blob string
| List_blobs string

fun blob_do :: "('b, 'm) BlobStore_scheme \<Rightarrow> blob_call \<Rightarrow> 'b \<Rightarrow> world \<Rightarrow> 'b \<times> world" where
  "blob_do ops (Put_blob k r meta) b w = snd (bs_Put ops k r meta b w)"
| "blob_do ops (Get_blob k) b w = snd (bs_Get ops k b w)"
| "blob_do ops (Head_blob k) b w = snd (bs_Head ops k b w)"
| "blob_do ops (Delete_blob k) b w = snd (bs_Delete ops k b w)"
| "blob_do ops (Exists_blob k) b w = snd (bs_Exists ops k b w)"
| "blob_do ops (List_blobs p) b w = snd (bs_List ops p b w)"

fun writes_blob :: "string \<Rightarrow> blob_call \<Rightarrow> bool" where
  "writes_blob k (Put_blob k' r meta) \<longleftrightarrow> k' = k"
| "writes_blob k (Delete_blob k') \<longleftrightarrow> k' = k"
| "writes_blob k (Get_blob k') \<longleftrightarrow> False"
| "writes_blob k (Head_blob k') \<longleftrightarrow> False"
| "writes_blob k (Exists_blob k') \<longleftrightarrow> False"
| "writes_blob k (List_blobs p) \<longleftrightarrow> False"

locale blob_store =
  fixes ops :: "'b BlobStore" and inv :: "'b \<Rightarrow> bool" and contents :: "'b \<Rightarrow> string \<rightharpoonup> bytes \<times> BlobMeta"
  assumes put_ok: "inv b \<Longrightarrow> bs_Put ops k (Inr data) given b w = (ru, b', w') \<Longrightarrow>
      ru = Inr () \<and> inv b' \<and> (\<exists>meta. describes k data meta \<and> carries_over given meta \<and>
        contents b' = (contents b)(k \<mapsto> (data, meta)))"
    and put_err: "inv b \<Longrightarrow> bs_Put ops k (Inl e) given b w = (ru, b', w') \<Longrightarrow>
      ru = Inl e \<and> inv b' \<and> contents b' = contents b"
    and get_ok: "inv b \<Longrightarrow> bs_Get ops k b w = (rr, b', w') \<Longrightarrow> inv b' \<and> contents b' = contents b \<and>
      (case contents b k of Some (data, meta) \<Rightarrow> rr = Inr (Inr data)
       | None \<Rightarrow> (\<exists>e. rr = Inl e \<and> errors_Is e ErrNotFound))"
    and head_ok: "inv b \<Longrightarrow> bs_Head ops k b w = (rm, b', w') \<Longrightarrow> inv b' \<and> contents b' = contents b \<and>
      (case contents b k of Some (data, meta) \<Rightarrow> rm = Inr meta
       | None \<Rightarrow> (\<exists>e. rm = Inl e \<and> errors_Is e ErrNotFound))"
    and delete_ok: "inv b \<Longrightarrow> bs_Delete ops k b w = (ru, b', w') \<Longrightarrow>
      inv b' \<and> contents b' = (contents b)(k := None) \<and>
      (if contents b k = None then \<exists>e. ru = Inl e \<and> errors_Is e ErrNotFound else ru = Inr ())"
    and exists_ok: "inv b \<Longrightarrow> bs_Exists ops k b w = (rx, b', w') \<Longrightarrow>
      inv b' \<and> contents b' = contents b \<and> rx = Inr (contents b k \<noteq> None)"
    and list_ok: "inv b \<Longrightarrow> bs_List ops p b w = (rl, b', w') \<Longrightarrow>
      inv b' \<and> contents b' = contents b \<and>
      (\<exists>ms. rl = Inr ms \<and> distinct (map bm_Key ms) \<and>
        set ms = {meta. \<exists>k data. prefix p k \<and> contents b k = Some (data, meta)})"
    and described: "inv b \<Longrightarrow> contents b k = Some (data, meta) \<Longrightarrow> describes k data meta"

sublocale blob_store \<subseteq> keyed_calls "blob_do ops" inv contents writes_blob
proof
  fix b call w b' w' and k :: string
  assume inv: "inv b" and step: "blob_do ops call b w = (b', w')"
  have both: "inv b' \<and> (\<not> writes_blob k call \<longrightarrow> contents b' k = contents b k)"
  proof (cases call)
    case (Put_blob k' r meta)
    with step obtain ru where call: "bs_Put ops k' r meta b w = (ru, b', w')"
      by (cases "bs_Put ops k' r meta b w") auto
    with put_ok[OF inv] put_err[OF inv] Put_blob show ?thesis by (cases r) fastforce+
  next
    case (Get_blob k')
    with step get_ok[OF inv] show ?thesis by (cases "bs_Get ops k' b w") auto
  next
    case (Head_blob k')
    with step head_ok[OF inv] show ?thesis by (cases "bs_Head ops k' b w") auto
  next
    case (Delete_blob k')
    with step delete_ok[OF inv] show ?thesis by (cases "bs_Delete ops k' b w") auto
  next
    case (Exists_blob k')
    with step exists_ok[OF inv] show ?thesis by (cases "bs_Exists ops k' b w") auto
  next
    case (List_blobs p)
    with step list_ok[OF inv] show ?thesis by (cases "bs_List ops p b w") auto
  qed
  then show "inv b'" by blast
  show "contents b' k = contents b k" if "\<not> writes_blob k call" using both that by blast
qed

context blob_store
begin

lemma put_get:
  assumes "inv b" and "bs_Put ops k (Inr data) given b w = (ru, b1, w1)"
    and "run_calls (blob_do ops) calls b1 w1 = (b2, w2)" and "\<forall>call\<in>set calls. \<not> writes_blob k call"
  shows "\<exists>meta. describes k data meta \<and> carries_over given meta \<and>
    fst (bs_Get ops k b2 w2) = Inr (Inr data) \<and> fst (bs_Head ops k b2 w2) = Inr meta \<and>
    fst (bs_Exists ops k b2 w2) = Inr True"
proof -
  from put_ok[OF assms(1,2)] obtain meta where inv1: "inv b1" and m: "describes k data meta"
    "carries_over given meta" "contents b1 k = Some (data, meta)" by auto
  from run_keeps[OF inv1 assms(3)] run_frame[OF inv1 assms(3,4)] m(3)
  have inv2: "inv b2" and c: "contents b2 k = Some (data, meta)" by auto
  have "fst (bs_Get ops k b2 w2) = Inr (Inr data)"
    using get_ok[OF inv2] c by (cases "bs_Get ops k b2 w2") fastforce
  moreover have "fst (bs_Head ops k b2 w2) = Inr meta"
    using head_ok[OF inv2] c by (cases "bs_Head ops k b2 w2") fastforce
  moreover have "fst (bs_Exists ops k b2 w2) = Inr True"
    using exists_ok[OF inv2] c by (cases "bs_Exists ops k b2 w2") fastforce
  ultimately show ?thesis using m by blast
qed

lemma integrity:
  assumes "inv b" and "run_calls (blob_do ops) calls b w = (b', w')"
    and "bs_Get ops k b' w' = (Inr (Inr data), b1, w1)" and "bs_Head ops k b' w' = (Inr meta, b2, w2)"
  shows "describes k data meta"
proof -
  note inv' = run_keeps[OF assms(1,2)]
  from get_ok[OF inv' assms(3)] head_ok[OF inv' assms(4)] have "contents b' k = Some (data, meta)"
    by (cases "contents b' k") auto
  with described[OF inv'] show ?thesis .
qed

lemma listing:
  assumes "inv b" and "bs_List ops p b w = (rl, b1, w1)"
  shows "\<exists>ms. rl = Inr ms \<and> distinct (map bm_Key ms) \<and>
    (\<forall>meta. meta \<in> set ms \<longleftrightarrow> prefix p (bm_Key meta) \<and> fst (bs_Head ops (bm_Key meta) b w) = Inr meta)"
proof -
  from list_ok[OF assms] obtain ms where ms: "rl = Inr ms" "distinct (map bm_Key ms)"
    "set ms = {meta. \<exists>k data. prefix p k \<and> contents b k = Some (data, meta)}" by blast
  have head: "fst (bs_Head ops k b w) = Inr meta \<longleftrightarrow> (\<exists>data. contents b k = Some (data, meta))" for k meta
    using head_ok[OF assms(1), of k w] by (cases "bs_Head ops k b w"; cases "contents b k") fastforce+
  have "meta \<in> set ms \<longleftrightarrow> prefix p (bm_Key meta) \<and> fst (bs_Head ops (bm_Key meta) b w) = Inr meta" for meta
    using described[OF assms(1)] unfolding ms(3) head by (auto simp: describes_def)
  with ms show ?thesis by blast
qed

end

subsection \<open>The in-memory store and its methods\<close>

record storedBlob =
  sb_data :: bytes
  sb_meta :: BlobMeta

record memblob =
  mb_blobs :: "string \<rightharpoonup> storedBlob"

definition memblob_New :: memblob where
  "memblob_New = \<lparr>mb_blobs = Map.empty\<rparr>"

definition memblob_Put :: "string \<Rightarrow> io_reader \<Rightarrow> BlobMeta \<Rightarrow> (memblob, unit result) action" where
  [flames_ops]: "memblob_Put key r meta b w =
    (case r of
       Inl err \<Rightarrow> (Inl err, b, w)
     | Inr data \<Rightarrow>
         let h = sha256_Sum256 data;
             meta = meta\<lparr>bm_Key := key, bm_Size := wrap64 (int (length data)),
                         bm_Checksum := hex_EncodeToString h\<rparr>;
             (meta, w) =
               (if time_IsZero (bm_CreatedAt meta)
                then let (now, w) = time_Now w in (meta\<lparr>bm_CreatedAt := now\<rparr>, w)
                else (meta, w))
         in (Inr (), b\<lparr>mb_blobs := (mb_blobs b)(key \<mapsto> \<lparr>sb_data = data, sb_meta = meta\<rparr>)\<rparr>, w))"

definition memblob_Get :: "string \<Rightarrow> (memblob, io_reader result) action" where
  [flames_ops]: "memblob_Get key b w =
    (case mb_blobs b key of
       None \<Rightarrow> (Inl (NotFound ''blob'' key), b, w)
     | Some s \<Rightarrow> (Inr (Inr (sb_data s)), b, w))"

definition memblob_Head :: "string \<Rightarrow> (memblob, BlobMeta result) action" where
  [flames_ops]: "memblob_Head key b w =
    (case mb_blobs b key of
       None \<Rightarrow> (Inl (NotFound ''blob'' key), b, w)
     | Some s \<Rightarrow> (Inr (sb_meta s), b, w))"

definition memblob_Delete :: "string \<Rightarrow> (memblob, unit result) action" where
  [flames_ops]: "memblob_Delete key b w =
    (case mb_blobs b key of
       None \<Rightarrow> (Inl (NotFound ''blob'' key), b, w)
     | Some _ \<Rightarrow> (Inr (), b\<lparr>mb_blobs := (mb_blobs b)(key := None)\<rparr>, w))"

definition memblob_Exists :: "string \<Rightarrow> (memblob, bool result) action" where
  [flames_ops]: "memblob_Exists key b w = (Inr (mb_blobs b key \<noteq> None), b, w)"

definition memblob_List :: "string \<Rightarrow> (memblob, BlobMeta list result) action" where
  [flames_ops]: "memblob_List p b w =
    (let (entries, w) = map_range (mb_blobs b) w
     in (Inr (map (\<lambda>(k, s). sb_meta s) (collect_loop (\<lambda>(k, s). prefix p k) 0 entries [])), b, w))"

definition memblob_ops :: "memblob BlobStore" where
  "memblob_ops = \<lparr>bs_Put = memblob_Put, bs_Get = memblob_Get, bs_Head = memblob_Head,
     bs_Delete = memblob_Delete, bs_Exists = memblob_Exists, bs_List = memblob_List\<rparr>"

lemma memblob_ops_simps [simp]:
  "bs_Put memblob_ops = memblob_Put" "bs_Get memblob_ops = memblob_Get"
  "bs_Head memblob_ops = memblob_Head" "bs_Delete memblob_ops = memblob_Delete"
  "bs_Exists memblob_ops = memblob_Exists" "bs_List memblob_ops = memblob_List"
  by (simp_all add: memblob_ops_def)

text \<open>The invariant: finitely many blobs, each with metadata that describe it.\<close>

definition memblob_inv :: "memblob \<Rightarrow> bool" where
  "memblob_inv b \<longleftrightarrow> finite (dom (mb_blobs b)) \<and>
     (\<forall>k s. mb_blobs b k = Some s \<longrightarrow> describes k (sb_data s) (sb_meta s))"

definition memblob_contents :: "memblob \<Rightarrow> string \<rightharpoonup> bytes \<times> BlobMeta" where
  "memblob_contents b k = map_option (\<lambda>s. (sb_data s, sb_meta s)) (mb_blobs b k)"

lemma memblob_inv_New: "memblob_inv memblob_New"
  by (simp add: memblob_inv_def memblob_New_def)

lemma contents_upd:
  "memblob_contents (b\<lparr>mb_blobs := (mb_blobs b)(k := x)\<rparr>) =
    (memblob_contents b)(k := map_option (\<lambda>s. (sb_data s, sb_meta s)) x)"
  by (auto simp: memblob_contents_def fun_eq_iff)

lemma contents_iff:
  "memblob_contents b k = None \<longleftrightarrow> mb_blobs b k = None"
  "memblob_contents b k = Some (data, meta) \<longleftrightarrow> mb_blobs b k = Some \<lparr>sb_data = data, sb_meta = meta\<rparr>"
  by (auto simp: memblob_contents_def)

lemma memblob_inv_upd:
  assumes "memblob_inv b" and "\<And>s. x = Some s \<Longrightarrow> describes k (sb_data s) (sb_meta s)"
  shows "memblob_inv (b\<lparr>mb_blobs := (mb_blobs b)(k := x)\<rparr>)"
proof -
  have "dom ((mb_blobs b)(k := x)) \<subseteq> insert k (dom (mb_blobs b))" by (auto split: if_splits)
  with assms(1) have "finite (dom ((mb_blobs b)(k := x)))"
    by (auto simp: memblob_inv_def intro: finite_subset)
  with assms show ?thesis by (auto simp: memblob_inv_def)
qed

lemma memblob_Put_ok:
  assumes inv: "memblob_inv b" and call: "memblob_Put k (Inr data) given b w = (r, b', w')"
  shows "r = Inr () \<and> memblob_inv b' \<and> (\<exists>meta. describes k data meta \<and> carries_over given meta \<and>
    memblob_contents b' = (memblob_contents b)(k \<mapsto> (data, meta)))"
proof -
  define m0 where "m0 = given\<lparr>bm_Key := k, bm_Size := wrap64 (int (length data)),
    bm_Checksum := hex_EncodeToString (sha256_Sum256 data)\<rparr>"
  define meta where "meta = (if bm_CreatedAt given = 0 then m0\<lparr>bm_CreatedAt := shd (clock w)\<rparr> else m0)"
  from call have r: "r = Inr ()"
    and b': "b' = b\<lparr>mb_blobs := (mb_blobs b)(k \<mapsto> \<lparr>sb_data = data, sb_meta = meta\<rparr>)\<rparr>"
    by (auto simp: memblob_Put_def Let_def meta_def m0_def time_Now_def time_IsZero_def split: if_splits)
  have meta: "describes k data meta" "carries_over given meta"
    by (simp_all add: describes_def carries_over_def meta_def m0_def)
  from memblob_inv_upd[OF inv, of "Some \<lparr>sb_data = data, sb_meta = meta\<rparr>" k] r meta show ?thesis
    by (auto simp: b' contents_upd)
qed

lemma memblob_List_ok:
  assumes inv: "memblob_inv b" and call: "memblob_List p b w = (r, b', w')"
  shows "b' = b \<and> (\<exists>ms. r = Inr ms \<and> distinct (map bm_Key ms) \<and>
    set ms = {meta. \<exists>k data. prefix p k \<and> memblob_contents b k = Some (data, meta)})"
proof -
  let ?ks = "visit (shd (map_orders w)) (dom (mb_blobs b))"
  have order: "range_order (mb_blobs b) ?ks" using inv by (simp add: memblob_inv_def visit_order)
  then have ks: "distinct ?ks" "set ?ks = dom (mb_blobs b)" by (auto simp: range_order_def)
  define es where "es = filter (\<lambda>(k, s). prefix p k) (range_map (mb_blobs b) ?ks)"
  have es: "set es = {(k, s). prefix p k \<and> mb_blobs b k = Some s}"
    using set_range_map_order[OF order] by (auto simp: es_def)
  let ?ms = "map (\<lambda>(k, s). sb_meta s) es"
  have "map fst es = filter (prefix p) ?ks"
    using ks by (simp add: es_def range_map_eq filter_map o_def)
  then have "distinct (map fst es)" using ks by simp
  moreover have "map bm_Key ?ms = map fst es"
    using es inv by (auto simp: memblob_inv_def describes_def)
  ultimately have "distinct (map bm_Key ?ms)" by (simp only:)
  moreover have "set ?ms = {meta. \<exists>k data. prefix p k \<and> memblob_contents b k = Some (data, meta)}"
  proof (intro set_eqI iffI)
    fix meta assume "meta \<in> set ?ms"
    then obtain k s where "prefix p k" "mb_blobs b k = Some s" "meta = sb_meta s" using es by auto
    then show "meta \<in> {meta. \<exists>k data. prefix p k \<and> memblob_contents b k = Some (data, meta)}"
      by (auto simp: memblob_contents_def)
  next
    fix meta assume "meta \<in> {meta. \<exists>k data. prefix p k \<and> memblob_contents b k = Some (data, meta)}"
    then obtain k s where "prefix p k" "mb_blobs b k = Some s" "meta = sb_meta s"
      by (auto simp: memblob_contents_def)
    with es have "(k, s) \<in> set es" by simp
    with \<open>meta = sb_meta s\<close> show "meta \<in> set ?ms" by force
  qed
  moreover from call have "r = Inr ?ms" "b' = b"
    by (auto simp: memblob_List_def map_range_def collect_loop_Nil limited_def es_def)
  ultimately show ?thesis by blast
qed

lemma memblob_blob_store: "blob_store memblob_ops memblob_inv memblob_contents"
proof (unfold_locales, unfold memblob_ops_simps)
  show "ru = Inr () \<and> memblob_inv b' \<and> (\<exists>meta. describes k data meta \<and> carries_over given meta \<and>
      memblob_contents b' = (memblob_contents b)(k \<mapsto> (data, meta)))"
    if "memblob_inv b" "memblob_Put k (Inr data) given b w = (ru, b', w')" for b k data given w ru b' w'
    using that by (rule memblob_Put_ok)
  show "memblob_inv b' \<and> memblob_contents b' = memblob_contents b \<and>
      (\<exists>ms. rl = Inr ms \<and> distinct (map bm_Key ms) \<and>
        set ms = {meta. \<exists>k data. prefix p k \<and> memblob_contents b k = Some (data, meta)})"
    if "memblob_inv b" "memblob_List p b w = (rl, b', w')" for b p w rl b' w'
    using memblob_List_ok[OF that] that(1) by blast
  show "memblob_inv b' \<and> memblob_contents b' = (memblob_contents b)(k := None) \<and>
      (if memblob_contents b k = None then \<exists>e. ru = Inl e \<and> errors_Is e ErrNotFound else ru = Inr ())"
    if "memblob_inv b" "memblob_Delete k b w = (ru, b', w')" for b k w ru b' w'
    using that memblob_inv_upd[of b None k]
    by (auto simp: memblob_Delete_def contents_upd contents_iff split: option.splits)
qed (auto simp: flames_ops memblob_inv_def memblob_contents_def split: option.splits)

interpretation memblob: blob_store memblob_ops memblob_inv memblob_contents
  by (rule memblob_blob_store)

subsection \<open>Properties\<close>

text \<open>
  C19: The in-memory blob store meets the contract of a blob store: \<^verbatim>\<open>Put\<close> stores the data and fills in
  key, size and SHA-256 checksum, a failed read stores nothing, \<^verbatim>\<open>Get\<close>, \<^verbatim>\<open>Head\<close> and \<^verbatim>\<open>Exists\<close> report what
  is stored, \<^verbatim>\<open>Delete\<close> removes one key, \<^verbatim>\<open>List\<close> returns each blob under the prefix once, and missing
  keys are reported as \<^verbatim>\<open>ErrNotFound\<close>.
\<close>

theorem memblob_contract: "blob_store memblob_ops memblob_inv memblob_contents"
  by (rule memblob_blob_store)

text \<open>
  Round trip: after \<^verbatim>\<open>Put\<close>, and any calls that do not write the key, \<^verbatim>\<open>Get\<close> returns the data, \<^verbatim>\<open>Head\<close>
  metadata that describe the data and carry over what the caller gave, and \<^verbatim>\<open>Exists\<close> is true.
\<close>

lemma memblob_put_get:
  assumes "memblob_inv b" and "memblob_Put k (Inr data) given b w = (r, b1, w1)"
    and "run_calls (blob_do memblob_ops) calls b1 w1 = (b2, w2)"
    and "\<forall>call\<in>set calls. \<not> writes_blob k call"
  shows "\<exists>meta. describes k data meta \<and> carries_over given meta \<and>
    fst (memblob_Get k b2 w2) = Inr (Inr data) \<and> fst (memblob_Head k b2 w2) = Inr meta \<and>
    fst (memblob_Exists k b2 w2) = Inr True"
  using memblob.put_get[OF assms(1) _ assms(3,4)] assms(2) by simp

text \<open>
  C23: Integrity: whatever calls were made on a new store, the metadata and the data it returns for
  a key belong together: the key, the length and the SHA-256 checksum agree.
\<close>

theorem memblob_integrity:
  assumes "run_calls (blob_do memblob_ops) calls memblob_New w = (b, w')"
    and "memblob_Get k b w' = (Inr (Inr data), b1, w1)" and "memblob_Head k b w' = (Inr meta, b2, w2)"
  shows "bm_Key meta = k \<and> bm_Size meta = wrap64 (int (length data)) \<and>
    bm_Checksum meta = hex_EncodeToString (sha256_Sum256 data)"
  using memblob.integrity[OF memblob_inv_New assms(1)] assms(2,3) by (simp add: describes_def)

theorem memblob_integrity_witness:
  "\<exists>b w' b1 w1 b2 w2 meta. run_calls (blob_do memblob_ops) [Put_blob ''a'' (Inr [1, 2]) zero_BlobMeta]
       memblob_New (clock_world (sconst 5)) = (b, w') \<and> memblob_Get ''a'' b w' = (Inr (Inr [1, 2]), b1, w1) \<and>
     memblob_Head ''a'' b w' = (Inr meta, b2, w2) \<and> bm_Size meta = 2"
proof -
  obtain b w' where run: "run_calls (blob_do memblob_ops) [Put_blob ''a'' (Inr [1, 2]) zero_BlobMeta]
      memblob_New (clock_world (sconst 5)) = (b, w')" by (metis prod.exhaust)
  then obtain meta where "mb_blobs b ''a'' = Some \<lparr>sb_data = [1, 2], sb_meta = meta\<rparr>"
    by (auto simp: memblob_Put_def Let_def split: prod.splits)
  then have g: "memblob_Get ''a'' b w' = (Inr (Inr [1, 2]), b, w')" and h: "memblob_Head ''a'' b w' = (Inr meta, b, w')"
    by (simp_all add: memblob_Get_def memblob_Head_def)
  from memblob_integrity[OF run g h] have "bm_Size meta = 2" by (simp add: wrap64_def)
  with run g h show ?thesis by blast
qed

end
