(* ===== verification/Noop_Ingress.thy ===== *)
theory Noop_Ingress
  imports Keyed_Calls
begin

text \<open>
  \<^verbatim>\<open>src/provider/ingress/noop/noop.go\<close>: the ingress provider of development mode, which keeps endpoints in
  memory and configures no network. The theory has the contract of an ingress provider as a locale,
  the provider, and the proof that it meets the contract.
\<close>

subsection \<open>The contract of an ingress provider\<close>

datatype ingress_call =
  Register_endpoint string Route Target
| Unregister_endpoint string
| Get_endpoint string

fun ingress_do :: "('i, 'm) IngressProvider_scheme \<Rightarrow> ingress_call \<Rightarrow> 'i \<Rightarrow> world \<Rightarrow> 'i \<times> world" where
  "ingress_do ops (Register_endpoint k ro ta) p w = snd (ip_RegisterEndpoint ops k ro ta p w)"
| "ingress_do ops (Unregister_endpoint k) p w = snd (ip_UnregisterEndpoint ops k p w)"
| "ingress_do ops (Get_endpoint k) p w = snd (ip_GetEndpoint ops k p w)"

fun writes_endpoint :: "string \<Rightarrow> ingress_call \<Rightarrow> bool" where
  "writes_endpoint k (Register_endpoint k' ro ta) \<longleftrightarrow> k' = k"
| "writes_endpoint k (Unregister_endpoint k') \<longleftrightarrow> k' = k"
| "writes_endpoint k (Get_endpoint k') \<longleftrightarrow> False"

locale ingress_provider =
  fixes ops :: "'i IngressProvider" and routes :: "'i \<Rightarrow> string \<rightharpoonup> Endpoint"
  assumes register_ok: "ip_RegisterEndpoint ops k ro ta p w = (re, p', w') \<Longrightarrow>
      re = Inr \<lparr>ep_VMID = k, ep_Route = ro, ep_Target = ta\<rparr> \<and>
      routes p' = (routes p)(k \<mapsto> \<lparr>ep_VMID = k, ep_Route = ro, ep_Target = ta\<rparr>)"
    and unregister_ok: "ip_UnregisterEndpoint ops k p w = (ru, p', w') \<Longrightarrow>
      ru = Inr () \<and> routes p' = (routes p)(k := None)"
    and get_ok: "ip_GetEndpoint ops k p w = (re, p', w') \<Longrightarrow> routes p' = routes p \<and>
      (case routes p k of Some ep \<Rightarrow> re = Inr ep | None \<Rightarrow> (\<exists>e. re = Inl e \<and> errors_Is e ErrNotFound))"

sublocale ingress_provider \<subseteq> keyed_calls "ingress_do ops" "\<lambda>_. True" routes writes_endpoint
proof
  fix p call w p' w' and k :: string
  assume step: "ingress_do ops call p w = (p', w')" and other: "\<not> writes_endpoint k call"
  show "routes p' k = routes p k"
  proof (cases call)
    case (Register_endpoint k' ro ta)
    with step other register_ok show ?thesis by (cases "ip_RegisterEndpoint ops k' ro ta p w") fastforce
  next
    case (Unregister_endpoint k')
    with step other unregister_ok show ?thesis by (cases "ip_UnregisterEndpoint ops k' p w") fastforce
  next
    case (Get_endpoint k')
    with step get_ok show ?thesis by (cases "ip_GetEndpoint ops k' p w") auto
  qed
qed simp

context ingress_provider
begin

lemma get_routes:
  "fst (ip_GetEndpoint ops k p w) = Inr ep \<longleftrightarrow> routes p k = Some ep"
  using get_ok[of k p w] by (cases "ip_GetEndpoint ops k p w"; cases "routes p k") fastforce+

lemma last_registration:
  assumes "ip_RegisterEndpoint ops k ro ta p w = (re, p1, w1)"
    and "run_calls (ingress_do ops) calls p1 w1 = (p2, w2)" and "\<forall>call\<in>set calls. \<not> writes_endpoint k call"
  shows "re = Inr \<lparr>ep_VMID = k, ep_Route = ro, ep_Target = ta\<rparr> \<and> fst (ip_GetEndpoint ops k p2 w2) = re"
  using register_ok[OF assms(1)] run_frame[OF _ assms(2,3)] get_routes by simp

lemma unregistered:
  assumes "ip_UnregisterEndpoint ops k p w = (ru, p1, w1)"
    and "run_calls (ingress_do ops) calls p1 w1 = (p2, w2)" and "\<forall>call\<in>set calls. \<not> writes_endpoint k call"
  shows "ru = Inr () \<and> (\<exists>e. fst (ip_GetEndpoint ops k p2 w2) = Inl e \<and> errors_Is e ErrNotFound)"
proof -
  from unregister_ok[OF assms(1)] run_frame[OF _ assms(2,3)] have "ru = Inr ()" "routes p2 k = None" by auto
  with get_ok[of k p2 w2] show ?thesis by (cases "ip_GetEndpoint ops k p2 w2") fastforce
qed

end

subsection \<open>The provider and its methods\<close>

record noop =
  np_endpoints :: "string \<rightharpoonup> Endpoint"

definition noop_New :: noop where
  "noop_New = \<lparr>np_endpoints = Map.empty\<rparr>"

definition noop_RegisterEndpoint :: "string \<Rightarrow> Route \<Rightarrow> Target \<Rightarrow> (noop, Endpoint result) action" where
  [flames_ops]: "noop_RegisterEndpoint vmID route target p w =
    (let ep = \<lparr>ep_VMID = vmID, ep_Route = route, ep_Target = target\<rparr>
     in (Inr ep, p\<lparr>np_endpoints := (np_endpoints p)(vmID \<mapsto> ep)\<rparr>, w))"

definition noop_UnregisterEndpoint :: "string \<Rightarrow> (noop, unit result) action" where
  [flames_ops]: "noop_UnregisterEndpoint vmID p w =
    (Inr (), p\<lparr>np_endpoints := (np_endpoints p)(vmID := None)\<rparr>, w)"

definition noop_GetEndpoint :: "string \<Rightarrow> (noop, Endpoint result) action" where
  [flames_ops]: "noop_GetEndpoint vmID p w =
    (case np_endpoints p vmID of
       None \<Rightarrow> (Inl (NotFound ''endpoint'' vmID), p, w)
     | Some ep \<Rightarrow> (Inr ep, p, w))"

definition noop_ops :: "noop IngressProvider" where
  "noop_ops = \<lparr>ip_RegisterEndpoint = noop_RegisterEndpoint,
     ip_UnregisterEndpoint = noop_UnregisterEndpoint, ip_GetEndpoint = noop_GetEndpoint\<rparr>"

lemma noop_ops_simps [simp]:
  "ip_RegisterEndpoint noop_ops = noop_RegisterEndpoint"
  "ip_UnregisterEndpoint noop_ops = noop_UnregisterEndpoint" "ip_GetEndpoint noop_ops = noop_GetEndpoint"
  by (simp_all add: noop_ops_def)

interpretation noop: ingress_provider noop_ops np_endpoints
  by unfold_locales (auto simp: flames_ops Let_def split: option.splits)

subsection \<open>Properties\<close>

text \<open>
  C34: The endpoint of a VM is the one registered last: \<^verbatim>\<open>RegisterEndpoint\<close> returns it and \<^verbatim>\<open>GetEndpoint\<close>
  returns the same one after any calls for other VMs; after \<^verbatim>\<open>UnregisterEndpoint\<close>, which never
  fails, \<^verbatim>\<open>GetEndpoint\<close> reports \<^verbatim>\<open>ErrNotFound\<close> until the VM is registered again.
\<close>

theorem noop_last_registration:
  assumes "\<forall>call\<in>set calls. \<not> writes_endpoint k call"
  shows "(case noop_RegisterEndpoint k ro ta p w of (r, p1, w1) \<Rightarrow>
       case run_calls (ingress_do noop_ops) calls p1 w1 of (p2, w2) \<Rightarrow>
         r = Inr \<lparr>ep_VMID = k, ep_Route = ro, ep_Target = ta\<rparr> \<and> fst (noop_GetEndpoint k p2 w2) = r) \<and>
    (case noop_UnregisterEndpoint k p w of (r, p1, w1) \<Rightarrow>
       case run_calls (ingress_do noop_ops) calls p1 w1 of (p2, w2) \<Rightarrow>
         r = Inr () \<and> (\<exists>e. fst (noop_GetEndpoint k p2 w2) = Inl e \<and> errors_Is e ErrNotFound))"
  using noop.last_registration[OF _ _ assms] noop.unregistered[OF _ _ assms]
  by (simp split: prod.splits)


theorem noop_last_registration_witness:
  "\<exists>p2 w2. run_calls (ingress_do noop_ops)
       [Register_endpoint ''b'' \<lparr>ro_Host = ''h'', ro_Path = ''/''\<rparr> \<lparr>ta_Address = ''10.0.0.2'', ta_Port = 80\<rparr>]
       (fst (snd (noop_RegisterEndpoint ''a'' \<lparr>ro_Host = ''g'', ro_Path = ''/''\<rparr>
         \<lparr>ta_Address = ''10.0.0.1'', ta_Port = 80\<rparr> noop_New (clock_world (sconst 5)))))
       (clock_world (sconst 5)) = (p2, w2) \<and>
     fst (noop_GetEndpoint ''a'' p2 w2) =
       Inr \<lparr>ep_VMID = ''a'', ep_Route = \<lparr>ro_Host = ''g'', ro_Path = ''/''\<rparr>,
             ep_Target = \<lparr>ta_Address = ''10.0.0.1'', ta_Port = 80\<rparr>\<rparr>"
  using noop_last_registration[of
      "[Register_endpoint ''b'' \<lparr>ro_Host = ''h'', ro_Path = ''/''\<rparr> \<lparr>ta_Address = ''10.0.0.2'', ta_Port = 80\<rparr>]"
      "''a''" "\<lparr>ro_Host = ''g'', ro_Path = ''/''\<rparr>" "\<lparr>ta_Address = ''10.0.0.1'', ta_Port = 80\<rparr>" noop_New
      "clock_world (sconst 5)"]
  by (auto simp: noop_RegisterEndpoint_def Let_def split: prod.splits)

end
