(* ===== verification/Json.thy ===== *)
theory Json
  imports Go_Stdlib
begin

text \<open>
  \<^verbatim>\<open>encoding/json\<close> of the standard library, as far as the HTTP layer uses it: the text of a value as
  \<^verbatim>\<open>Encoder.Encode\<close> writes it, and the value that \<^verbatim>\<open>Decoder.Decode\<close> reads from the front of a text.
  Strings and number literals are kept raw in the tree (the text between the quotes, the digits as
  written), because their meaning depends on the Go type they are decoded into.
\<close>

subsection \<open>UTF-8\<close>

definition chr_code :: "char \<Rightarrow> nat" where "chr_code c = of_char c"

definition in_range :: "nat \<Rightarrow> nat \<Rightarrow> string \<Rightarrow> bool" where
  "in_range lo hi s \<longleftrightarrow> (case s of [] \<Rightarrow> False | c # _ \<Rightarrow> lo \<le> chr_code c \<and> chr_code c \<le> hi)"

text \<open>\<^verbatim>\<open>utf8.DecodeRune\<close>: the length of the encoded rune at the front, 0 where the function reports \<^verbatim>\<open>RuneError\<close> of size 1.\<close>

definition utf8_len :: "string \<Rightarrow> nat" where
  "utf8_len s =
    (case s of
       [] \<Rightarrow> 0
     | c # cs \<Rightarrow>
         let b = chr_code c; t = in_range 0x80 0xBF in
         if b < 0x80 then 1
         else if 0xC2 \<le> b \<and> b \<le> 0xDF then (if t cs then 2 else 0)
         else if 0xE0 \<le> b \<and> b \<le> 0xEF then
           (if in_range (if b = 0xE0 then 0xA0 else 0x80) (if b = 0xED then 0x9F else 0xBF) cs \<and> t (drop 1 cs)
            then 3 else 0)
         else if 0xF0 \<le> b \<and> b \<le> 0xF4 then
           (if in_range (if b = 0xF0 then 0x90 else 0x80) (if b = 0xF4 then 0x8F else 0xBF) cs \<and>
               t (drop 1 cs) \<and> t (drop 2 cs)
            then 4 else 0)
         else 0)"

definition utf8_encode :: "nat \<Rightarrow> string" where
  "utf8_encode r =
    map char_of
      (if r < 0x80 then [r]
       else if r < 0x800 then [0xC0 + r div 0x40, 0x80 + r mod 0x40]
       else if r < 0x10000 then [0xE0 + r div 0x1000, 0x80 + r div 0x40 mod 0x40, 0x80 + r mod 0x40]
       else [0xF0 + r div 0x40000, 0x80 + r div 0x1000 mod 0x40, 0x80 + r div 0x40 mod 0x40, 0x80 + r mod 0x40])"

definition rune_error :: string where "rune_error = utf8_encode 0xFFFD"

subsection \<open>Strings\<close>

definition backslash :: char where "backslash = CHR 0x5C"
definition dquote :: char where "dquote = CHR 0x22"

definition u_escape :: "nat \<Rightarrow> string" where
  "u_escape n = [backslash, CHR ''u''] @ map ((!) hextable) [n div 0x1000 mod 16, n div 0x100 mod 16, n div 16 mod 16, n mod 16]"

text \<open>\<^verbatim>\<open>appendString\<close> with HTML escaping: the raw text for a string.\<close>

definition escape_ascii :: "char \<Rightarrow> string" where
  "escape_ascii c =
    (if c = backslash \<or> c = dquote then [backslash, c]
     else if chr_code c = 0x08 then [backslash, CHR ''b'']
     else if chr_code c = 0x0C then [backslash, CHR ''f'']
     else if chr_code c = 0x0A then [backslash, CHR ''n'']
     else if chr_code c = 0x0D then [backslash, CHR ''r'']
     else if chr_code c = 0x09 then [backslash, CHR ''t'']
     else if chr_code c < 0x20 \<or> c \<in> {CHR ''<'', CHR ''>'', CHR ''&''} then u_escape (chr_code c)
     else [c])"

function json_escape :: "string \<Rightarrow> string" where
  "json_escape [] = []"
| "json_escape (c # cs) =
    (if chr_code c < 0x80 then escape_ascii c @ json_escape cs
     else
       let n = utf8_len (c # cs); rune = take n (c # cs)
       in if n = 0 then u_escape 0xFFFD @ json_escape cs
          else if rune = utf8_encode 0x2028 then u_escape 0x2028 @ json_escape (drop n (c # cs))
          else if rune = utf8_encode 0x2029 then u_escape 0x2029 @ json_escape (drop n (c # cs))
          else rune @ json_escape (drop n (c # cs)))"
  by pat_completeness auto
termination by (relation "measure length") auto

definition hex_digit :: "char \<Rightarrow> nat option" where
  "hex_digit c =
    (if CHR ''0'' \<le> c \<and> c \<le> CHR ''9'' then Some (chr_code c - chr_code CHR ''0'')
     else if CHR ''a'' \<le> c \<and> c \<le> CHR ''f'' then Some (chr_code c - chr_code CHR ''a'' + 10)
     else if CHR ''A'' \<le> c \<and> c \<le> CHR ''F'' then Some (chr_code c - chr_code CHR ''A'' + 10)
     else None)"

fun getu4 :: "string \<Rightarrow> nat option" where
  "getu4 (a # b # c # d # _) =
    (case (hex_digit a, hex_digit b, hex_digit c, hex_digit d) of
       (Some w, Some x, Some y, Some z) \<Rightarrow> Some (((w * 16 + x) * 16 + y) * 16 + z)
     | _ \<Rightarrow> None)"
| "getu4 _ = None"

definition simple_escape :: "char \<Rightarrow> char option" where
  "simple_escape e =
    (if e \<in> {dquote, backslash, CHR ''/''} then Some e
     else if e = CHR ''b'' then Some (CHR 0x08)
     else if e = CHR ''f'' then Some (CHR 0x0C)
     else if e = CHR ''n'' then Some (CHR 0x0A)
     else if e = CHR ''r'' then Some (CHR 0x0D)
     else if e = CHR ''t'' then Some (CHR 0x09)
     else None)"

text \<open>The second half of a surrogate pair, if it follows: the rune of the pair.\<close>

definition surrogate_pair :: "nat \<Rightarrow> string \<Rightarrow> nat option" where
  "surrogate_pair r s =
    (if 0xD800 \<le> r \<and> r < 0xDC00 \<and> take 2 s = [backslash, CHR ''u''] then
       (case getu4 (drop 2 s) of
          Some r2 \<Rightarrow> if 0xDC00 \<le> r2 \<and> r2 < 0xE000
                     then Some (0x10000 + (r - 0xD800) * 0x400 + (r2 - 0xDC00)) else None
        | None \<Rightarrow> None)
     else None)"

text \<open>\<^verbatim>\<open>unquoteBytes\<close>: the string a raw text stands for; the scanner has checked the escapes.\<close>

function json_unquote :: "string \<Rightarrow> string" where
  "json_unquote [] = []"
| "json_unquote (c # cs) =
    (if c = backslash then
       (case cs of
          [] \<Rightarrow> []
        | e # ds \<Rightarrow>
            if e = CHR ''u'' then
              (case getu4 ds of
                 None \<Rightarrow> []
               | Some r \<Rightarrow>
                   if 0xD800 \<le> r \<and> r < 0xE000 then
                     (case surrogate_pair r (drop 4 ds) of
                        Some r2 \<Rightarrow> utf8_encode r2 @ json_unquote (drop 10 ds)
                      | None \<Rightarrow> rune_error @ json_unquote (drop 4 ds))
                   else utf8_encode r @ json_unquote (drop 4 ds))
            else (case simple_escape e of Some x \<Rightarrow> x # json_unquote ds | None \<Rightarrow> []))
     else if chr_code c < 0x80 then c # json_unquote cs
     else
       let n = utf8_len (c # cs)
       in if n = 0 then rune_error @ json_unquote cs
          else take n (c # cs) @ json_unquote (drop n (c # cs)))"
  by pat_completeness auto
termination by (relation "measure length") auto

subsection \<open>Values and their text\<close>

datatype json =
  JNull
| JBool bool
| JNum string
| JStr string
| JArr "json list"
| JObj "(string \<times> json) list"

definition quoted :: "string \<Rightarrow> string" where
  "quoted raw = dquote # raw @ [dquote]"

fun json_text :: "json \<Rightarrow> string" and json_elems :: "json list \<Rightarrow> string"
  and json_members :: "(string \<times> json) list \<Rightarrow> string" where
  "json_text JNull = ''null''"
| "json_text (JBool b) = (if b then ''true'' else ''false'')"
| "json_text (JNum n) = n"
| "json_text (JStr raw) = quoted raw"
| "json_text (JArr js) = ''['' @ json_elems js @ '']''"
| "json_text (JObj kvs) = ''{'' @ json_members kvs @ ''}''"
| "json_elems [] = []"
| "json_elems [j] = json_text j"
| "json_elems (j # js) = json_text j @ '','' @ json_elems js"
| "json_members [] = []"
| "json_members [(k, j)] = quoted k @ '':'' @ json_text j"
| "json_members ((k, j) # kvs) = quoted k @ '':'' @ json_text j @ '','' @ json_members kvs"

subsection \<open>Reading a value\<close>

definition is_space :: "char \<Rightarrow> bool" where
  "is_space c \<longleftrightarrow> chr_code c \<in> {0x20, 0x09, 0x0A, 0x0D}"

definition skip_space :: "string \<Rightarrow> string" where
  "skip_space = dropWhile is_space"

text \<open>The rest of a string literal after its opening quote: the raw text and what follows it.\<close>

fun scan_string :: "string \<Rightarrow> (string \<times> string) option" where
  "scan_string [] = None"
| "scan_string (c # cs) =
    (if c = dquote then Some ([], cs)
     else if chr_code c < 0x20 then None
     else if c = backslash then
       (case cs of
          [] \<Rightarrow> None
        | e # ds \<Rightarrow>
            if e = CHR ''u'' \<and> getu4 ds \<noteq> None \<or> simple_escape e \<noteq> None
            then map_option (apfst (\<lambda>raw. c # e # raw)) (scan_string ds)
            else None)
     else map_option (apfst ((#) c)) (scan_string cs))"

definition digits :: "string \<Rightarrow> string \<times> string" where
  "digits s = (takeWhile is_digit s, dropWhile is_digit s)"

text \<open>A number literal: sign, integer part without leading zeros, fraction, exponent.\<close>

definition scan_fraction :: "string \<Rightarrow> (string \<times> string) option" where
  "scan_fraction s =
    (case s of
       c # cs \<Rightarrow> if c = CHR ''.'' then
                   (let (ds, r) = digits cs in if ds = [] then None else Some (c # ds, r))
                 else Some ([], s)
     | [] \<Rightarrow> Some ([], []))"

definition scan_exponent :: "string \<Rightarrow> (string \<times> string) option" where
  "scan_exponent s =
    (case s of
       c # cs \<Rightarrow> if c \<in> {CHR ''e'', CHR ''E''} then
                   (let (sign, cs') = (case cs of
                           x # xs \<Rightarrow> if x \<in> {CHR ''+'', CHR ''-''} then ([x], xs) else ([], cs)
                         | [] \<Rightarrow> ([], []));
                        (ds, r) = digits cs'
                    in if ds = [] then None else Some (c # sign @ ds, r))
                 else Some ([], s)
     | [] \<Rightarrow> Some ([], []))"

definition scan_number :: "string \<Rightarrow> (string \<times> string) option" where
  "scan_number s =
    (let (sign, s1) = (case s of c # cs \<Rightarrow> if c = CHR ''-'' then ([c], cs) else ([], s) | [] \<Rightarrow> ([], []));
         (int_part, s2) = (case s1 of c # cs \<Rightarrow> if c = CHR ''0'' then ([c], cs) else digits s1 | [] \<Rightarrow> ([], []))
     in if int_part = [] then None
        else case scan_fraction s2 of
               None \<Rightarrow> None
             | Some (fr, s3) \<Rightarrow>
                 (case scan_exponent s3 of
                    None \<Rightarrow> None
                  | Some (ex, s4) \<Rightarrow> Some (sign @ int_part @ fr @ ex, s4)))"

definition strip :: "string \<Rightarrow> string \<Rightarrow> string option" where
  "strip word s = (if prefix word s then Some (drop (length word) s) else None)"

text \<open>
  The scanner's grammar. The first argument bounds the recursion (twice the length of the text is enough,
  as \<open>Json_Fuel\<close> shows), the second is the nesting depth that is left.
\<close>

fun parse_value :: "nat \<Rightarrow> nat \<Rightarrow> string \<Rightarrow> (json \<times> string) option"
  and parse_elems :: "nat \<Rightarrow> nat \<Rightarrow> string \<Rightarrow> (json list \<times> string) option"
  and parse_members :: "nat \<Rightarrow> nat \<Rightarrow> string \<Rightarrow> ((string \<times> json) list \<times> string) option" where
  "parse_value 0 d s = None"
| "parse_value (Suc n) d s =
    (case skip_space s of
       [] \<Rightarrow> None
     | c # cs \<Rightarrow>
         if c = CHR ''{'' then
           (if d = 0 then None
            else case skip_space cs of
                   [] \<Rightarrow> None
                 | x # xs \<Rightarrow> if x = CHR ''}'' then Some (JObj [], xs)
                             else map_option (apfst JObj) (parse_members n (d - 1) (x # xs)))
         else if c = CHR ''['' then
           (if d = 0 then None
            else case skip_space cs of
                   [] \<Rightarrow> None
                 | x # xs \<Rightarrow> if x = CHR '']'' then Some (JArr [], xs)
                             else map_option (apfst JArr) (parse_elems n (d - 1) (x # xs)))
         else if c = dquote then map_option (apfst JStr) (scan_string cs)
         else if c = CHR ''n'' then map_option (\<lambda>r. (JNull, r)) (strip ''null'' (c # cs))
         else if c = CHR ''t'' then map_option (\<lambda>r. (JBool True, r)) (strip ''true'' (c # cs))
         else if c = CHR ''f'' then map_option (\<lambda>r. (JBool False, r)) (strip ''false'' (c # cs))
         else map_option (apfst JNum) (scan_number (c # cs)))"
| "parse_elems 0 d s = None"
| "parse_elems (Suc n) d s =
    (case parse_value n d s of
       None \<Rightarrow> None
     | Some (v, r) \<Rightarrow>
         (case skip_space r of
            [] \<Rightarrow> None
          | x # xs \<Rightarrow> if x = CHR '']'' then Some ([v], xs)
                      else if x = CHR '','' then map_option (apfst ((#) v)) (parse_elems n d xs)
                      else None))"
| "parse_members 0 d s = None"
| "parse_members (Suc n) d s =
    (case skip_space s of
       [] \<Rightarrow> None
     | q # s1 \<Rightarrow>
         if q \<noteq> dquote then None
         else case scan_string s1 of
                None \<Rightarrow> None
              | Some (k, s2) \<Rightarrow>
                  (case skip_space s2 of
                     [] \<Rightarrow> None
                   | cl # s3 \<Rightarrow>
                       if cl \<noteq> CHR '':'' then None
                       else case parse_value n d s3 of
                              None \<Rightarrow> None
                            | Some (v, r) \<Rightarrow>
                                (case skip_space r of
                                   [] \<Rightarrow> None
                                 | x # xs \<Rightarrow>
                                     if x = CHR ''}'' then Some ([(k, v)], xs)
                                     else if x = CHR '','' then map_option (apfst ((#) (k, v))) (parse_members n d xs)
                                     else None)))"

definition max_nesting :: nat where "max_nesting = 10000"

text \<open>\<^verbatim>\<open>Decoder.Decode\<close> reads the first value and ignores what follows it; an empty body is an error.\<close>

definition json_parse :: "string \<Rightarrow> json option" where
  "json_parse s = map_option fst (parse_value (2 * length s + 2) max_nesting s)"

end
