(* ===== verification/Time_Format.thy ===== *)
theory Time_Format
  imports Go_Stdlib
begin

text \<open>
  RFC 3339 texts of times, as \<^verbatim>\<open>time.Parse(time.RFC3339, s)\<close> reads them and \<^verbatim>\<open>Time.MarshalJSON\<close> writes them.
  A time is its instant (nanoseconds since the zero time, January 1 of year 1); the location that
  a Go time carries for printing is not modelled, and times are printed in UTC.
\<close>

subsection \<open>Dates\<close>

text \<open>Days are counted from January 1 of year 1; the computation starts its years in March.\<close>

definition civil_of_days :: "int \<Rightarrow> int \<times> int \<times> int" where
  "civil_of_days days =
    (let z = days + 306;
         era = z div 146097;
         doe = z mod 146097;
         yoe = (doe - doe div 1460 + doe div 36524 - doe div 146096) div 365;
         doy = doe - (365 * yoe + yoe div 4 - yoe div 100);
         mp = (5 * doy + 2) div 153;
         d = doy - (153 * mp + 2) div 5 + 1;
         m = (if mp < 10 then mp + 3 else mp - 9)
     in (yoe + era * 400 + (if m \<le> 2 then 1 else 0), m, d))"

definition days_of_civil :: "int \<Rightarrow> int \<Rightarrow> int \<Rightarrow> int" where
  "days_of_civil y m d =
    (let y' = (if m \<le> 2 then y - 1 else y);
         era = y' div 400;
         yoe = y' mod 400;
         mp = (m + 9) mod 12;
         doy = (153 * mp + 2) div 5 + d - 1;
         doe = yoe * 365 + yoe div 4 - yoe div 100 + doy
     in era * 146097 + doe - 306)"

definition is_leap :: "int \<Rightarrow> bool" where
  "is_leap y \<longleftrightarrow> y mod 4 = 0 \<and> (y mod 100 \<noteq> 0 \<or> y mod 400 = 0)"

definition days_in :: "int \<Rightarrow> int \<Rightarrow> int" where
  "days_in m y = (if m = 2 then (if is_leap y then 29 else 28)
                  else if m \<in> {4, 6, 9, 11} then 30 else 31)"

subsection \<open>Reading\<close>

text \<open>\<^verbatim>\<open>getnum\<close>: one or two digits, exactly two if \<open>fixed\<close>.\<close>

fun getnum :: "bool \<Rightarrow> string \<Rightarrow> (int \<times> string) option" where
  "getnum fixed (a # b # r) =
    (if \<not> is_digit a then None
     else if is_digit b then Some (int (digit_val a * 10 + digit_val b), r)
     else if fixed then None
     else Some (int (digit_val a), b # r))"
| "getnum fixed [a] = (if is_digit a \<and> \<not> fixed then Some (int (digit_val a), []) else None)"
| "getnum fixed [] = None"

definition expect :: "char \<Rightarrow> string \<Rightarrow> string option" where
  "expect c s = (case s of [] \<Rightarrow> None | x # xs \<Rightarrow> if x = c then Some xs else None)"

definition in_bounds :: "int \<Rightarrow> int \<Rightarrow> int \<times> string \<Rightarrow> (int \<times> string) option" where
  "in_bounds lo hi nr = (if lo \<le> fst nr \<and> fst nr \<le> hi then Some nr else None)"

definition get_year :: "string \<Rightarrow> (int \<times> string) option" where
  "get_year s =
    (if length s < 4 \<or> \<not> list_all is_digit (take 4 s) then None
     else Some (foldl (\<lambda>n c. n * 10 + int (digit_val c)) 0 (take 4 s), drop 4 s))"

text \<open>A fraction after the seconds, cut to nine digits.\<close>

definition get_fraction :: "string \<Rightarrow> int \<times> string" where
  "get_fraction s =
    (case s of
       p # d # r \<Rightarrow>
         if p \<in> {CHR ''.'', CHR '',''} \<and> is_digit d then
           let ds = takeWhile is_digit (d # r); ds9 = take 9 ds
           in (foldl (\<lambda>n c. n * 10 + int (digit_val c)) 0 ds9 * 10 ^ (9 - length ds9),
               dropWhile is_digit (d # r))
         else (0, s)
     | _ \<Rightarrow> (0, s))"

text \<open>The zone: \<^verbatim>\<open>Z\<close> or a signed offset, in seconds; nothing may follow it.\<close>

definition get_zone :: "string \<Rightarrow> int option" where
  "get_zone s =
    (if s = ''Z'' then Some 0
     else if length s \<noteq> 6 \<or> s ! 3 \<noteq> CHR '':'' then None
     else case (getnum True (take 2 (drop 1 s)), getnum True (drop 4 s)) of
            (Some (hr, _), Some (mm, _)) \<Rightarrow>
              if 24 < hr \<or> 60 < mm then None
              else if s ! 0 = CHR ''+'' then Some ((hr * 60 + mm) * 60)
              else if s ! 0 = CHR ''-'' then Some (- ((hr * 60 + mm) * 60))
              else None
          | _ \<Rightarrow> None)"

definition time_Parse :: "string \<Rightarrow> time option" where
  "time_Parse s =
    Option.bind (get_year s) (\<lambda>(y, s).
    Option.bind (expect (CHR ''-'') s) (\<lambda>s.
    Option.bind (Option.bind (getnum True s) (in_bounds 1 12)) (\<lambda>(m, s).
    Option.bind (expect (CHR ''-'') s) (\<lambda>s.
    Option.bind (Option.bind (getnum True s) (in_bounds 1 (days_in m y))) (\<lambda>(d, s).
    Option.bind (expect (CHR ''T'') s) (\<lambda>s.
    Option.bind (Option.bind (getnum False s) (in_bounds 0 23)) (\<lambda>(hh, s).
    Option.bind (expect (CHR '':'') s) (\<lambda>s.
    Option.bind (Option.bind (getnum True s) (in_bounds 0 59)) (\<lambda>(mi, s).
    Option.bind (expect (CHR '':'') s) (\<lambda>s.
    Option.bind (Option.bind (getnum True s) (in_bounds 0 59)) (\<lambda>(ss, s).
    let (ns, s) = get_fraction s in
    Option.bind (get_zone s) (\<lambda>off.
      Some ((days_of_civil y m d * 86400 + hh * 3600 + mi * 60 + ss - off) * 10 ^ 9 + ns)))))))))))))"

subsection \<open>Writing\<close>

fun nat_text :: "nat \<Rightarrow> string" where
  "nat_text n = (if n < 10 then [hextable ! n] else nat_text (n div 10) @ [hextable ! (n mod 10)])"

declare nat_text.simps [simp del]

definition int_text :: "int \<Rightarrow> string" where
  "int_text n = (if n < 0 then CHR ''-'' # nat_text (nat (- n)) else nat_text (nat n))"

text \<open>A non-negative number padded with zeros to a width.\<close>

definition padded :: "nat \<Rightarrow> int \<Rightarrow> string" where
  "padded k n = (let s = nat_text (nat n) in replicate (k - length s) (CHR ''0'') @ s)"

definition fraction_text :: "int \<Rightarrow> string" where
  "fraction_text ns =
    (if ns = 0 then [] else CHR ''.'' # rev (dropWhile ((=) (CHR ''0'')) (rev (padded 9 ns))))"

text \<open>\<^verbatim>\<open>appendStrictRFC3339\<close>; a year outside of 0 to 9999 is an error.\<close>

definition time_text :: "time \<Rightarrow> string option" where
  "time_text t =
    (let secs = t div 10 ^ 9; ns = t mod 10 ^ 9;
         (y, m, d) = civil_of_days (secs div 86400);
         sod = secs mod 86400
     in if y < 0 \<or> 9999 < y then None
        else Some (padded 4 y @ ''-'' @ padded 2 m @ ''-'' @ padded 2 d @ ''T'' @
          padded 2 (sod div 3600) @ '':'' @ padded 2 (sod mod 3600 div 60) @ '':'' @
          padded 2 (sod mod 60) @ fraction_text ns @ ''Z''))"

end
