(* ===== verification/Json_Codec.thy ===== *)
theory Json_Codec
  imports Json Time_Format Model
begin

text \<open>
  How \<^verbatim>\<open>encoding/json\<close> maps the domain types of \<^verbatim>\<open>src/model/\<close>, by their \<^verbatim>\<open>json:"..."\<close> tags, to texts and back.
  Encoding follows the order of the struct fields, prints maps in key order, nil maps and slices as
  \<^verbatim>\<open>null\<close> and byte slices in base64. Decoding starts from a given value and stores into it: a member is
  matched with a field exactly or, failing that, up to case; unknown members are skipped, \<^verbatim>\<open>null\<close> leaves
  scalars and structs alone, and a value of the wrong kind is an error.
\<close>

subsection \<open>Encoding\<close>

definition jstr :: "string \<Rightarrow> json" where "jstr s = JStr (json_escape s)"
definition jint :: "int \<Rightarrow> json" where "jint n = JNum (int_text n)"

definition jmap :: "string_map \<Rightarrow> json" where
  "jmap m = (case m of
     None \<Rightarrow> JNull
   | Some f \<Rightarrow> JObj (map (\<lambda>k. (json_escape k, jstr (the (fmlookup f k)))) (sorted_list_of_set (fset (fmdom f)))))"

definition jslice :: "('a \<Rightarrow> json) \<Rightarrow> 'a list option \<Rightarrow> json" where
  "jslice f xs = (case xs of None \<Rightarrow> JNull | Some xs \<Rightarrow> JArr (map f xs))"

definition base64_char :: "nat \<Rightarrow> char" where
  "base64_char n =
    (if n < 26 then char_of (65 + n) else if n < 52 then char_of (71 + n) else if n < 62 then char_of (n - 4)
     else if n = 62 then CHR ''+'' else CHR ''/'')"

fun base64 :: "nat list \<Rightarrow> string" where
  "base64 (a # b # c # r) =
    [base64_char (a div 4), base64_char (a mod 4 * 16 + b div 16), base64_char (b mod 16 * 4 + c div 64),
     base64_char (c mod 64)] @ base64 r"
| "base64 [a, b] =
    [base64_char (a div 4), base64_char (a mod 4 * 16 + b div 16), base64_char (b mod 16 * 4), CHR ''='']"
| "base64 [a] = [base64_char (a div 4), base64_char (a mod 4 * 16), CHR ''='', CHR ''='']"
| "base64 [] = []"

definition jbytes :: "bytes option \<Rightarrow> json" where
  "jbytes b = (case b of None \<Rightarrow> JNull | Some bs \<Rightarrow> JStr (base64 (map unat bs)))"

definition jtime :: "time \<Rightarrow> json option" where
  "jtime t = map_option JStr (time_text t)"

definition json_ResourceSpec :: "ResourceSpec \<Rightarrow> json" where
  "json_ResourceSpec r = JObj [(''vcpus'', jint (rs_VCPUs r)), (''memory_mb'', jint (rs_MemoryMB r))]"

definition json_LifecycleSpec :: "LifecycleSpec \<Rightarrow> json" where
  "json_LifecycleSpec l = JObj [(''timeout_seconds'', jint (ls_TimeoutSeconds l)),
     (''auto_delete'', JBool (ls_AutoDelete l)), (''restart_policy'', jstr (ls_RestartPolicy l))]"

definition json_RuntimeSpec :: "RuntimeSpec \<Rightarrow> json" where
  "json_RuntimeSpec r = JObj [(''command'', jstr (rt_Command r)), (''args'', jslice jstr (rt_Args r)),
     (''env'', jmap (rt_Env r))]"

definition json_PortMapping :: "PortMapping \<Rightarrow> json" where
  "json_PortMapping p = JObj [(''guest'', jint (pm_Guest p)), (''host'', jint (pm_Host p)),
     (''protocol'', jstr (pm_Protocol p))]"

definition json_NetworkSpec :: "NetworkSpec \<Rightarrow> json" where
  "json_NetworkSpec n = JObj [(''ports'', jslice json_PortMapping (ns_Ports n))]"

definition json_StorageSpec :: "StorageSpec \<Rightarrow> json" where
  "json_StorageSpec s = JObj [(''root_disk_size_mb'', jint (st_RootDiskSizeMB s))]"

definition json_PlacementSpec :: "PlacementSpec \<Rightarrow> json" where
  "json_PlacementSpec p = JObj [(''labels'', jmap (pl_Labels p))]"

definition json_VMSpec :: "VMSpec \<Rightarrow> json" where
  "json_VMSpec s = JObj [(''resources'', json_ResourceSpec (sp_Resources s)),
     (''lifecycle'', json_LifecycleSpec (sp_Lifecycle s)), (''runtime'', json_RuntimeSpec (sp_Runtime s)),
     (''network'', json_NetworkSpec (sp_Network s)), (''storage'', json_StorageSpec (sp_Storage s)),
     (''placement'', json_PlacementSpec (sp_Placement s)), (''metadata'', jmap (sp_Metadata s))]"

definition json_VM :: "VM \<Rightarrow> json option" where
  "json_VM v =
    Option.bind (jtime (vm_CreatedAt v)) (\<lambda>created.
    Option.bind (jtime (vm_UpdatedAt v)) (\<lambda>updated.
    Some (JObj [(''id'', jstr (vm_ID v)), (''desired_state'', jstr (vm_DesiredState v)),
      (''observed_state'', jstr (vm_ObservedState v)), (''image_id'', jstr (vm_ImageID v)),
      (''controller_id'', jstr (vm_ControllerID v)), (''spec'', json_VMSpec (vm_Spec v)),
      (''created_at'', created), (''updated_at'', updated)])))"

definition json_CapacityInfo :: "CapacityInfo \<Rightarrow> json" where
  "json_CapacityInfo c = JObj [(''total_vcpus'', jint (cap_TotalVCPUs c)),
     (''total_memory_mb'', jint (cap_TotalMemoryMB c)), (''used_vcpus'', jint (cap_UsedVCPUs c)),
     (''used_memory_mb'', jint (cap_UsedMemoryMB c))]"

definition json_Controller :: "Controller \<Rightarrow> json option" where
  "json_Controller c =
    Option.bind (jtime (ct_LastHeartbeatAt c)) (\<lambda>seen.
    Some (JObj [(''id'', jstr (ct_ID c)), (''status'', jstr (ct_Status c)), (''labels'', jmap (ct_Labels c)),
      (''capacity'', json_CapacityInfo (ct_Capacity c)), (''last_heartbeat_at'', seen)]))"

definition json_Event :: "Event \<Rightarrow> json option" where
  "json_Event e =
    Option.bind (jtime (ev_CreatedAt e)) (\<lambda>created.
    Some (JObj [(''id'', jstr (ev_ID e)), (''vm_id'', jstr (ev_VMID e)),
      (''controller_id'', jstr (ev_ControllerID e)), (''type'', jstr (ev_Type e)),
      (''payload'', jbytes (ev_Payload e)), (''created_at'', created)]))"

text \<open>
  A listing: the result slice starts as nil and stays nil when nothing is appended, so an empty
  listing is \<^verbatim>\<open>null\<close>.
\<close>

fun all_some :: "'a option list \<Rightarrow> 'a list option" where
  "all_some [] = Some []"
| "all_some (None # xs) = None"
| "all_some (Some x # xs) = map_option ((#) x) (all_some xs)"

definition json_listing :: "('a \<Rightarrow> json option) \<Rightarrow> 'a list \<Rightarrow> json option" where
  "json_listing f xs = (if xs = [] then Some JNull else map_option JArr (all_some (map f xs)))"

text \<open>\<^verbatim>\<open>Encoder.Encode\<close> writes the text and a newline; it writes nothing if a value cannot be encoded.\<close>

definition json_Encode :: "json option \<Rightarrow> string" where
  "json_Encode j = (case j of None \<Rightarrow> [] | Some j \<Rightarrow> json_text j @ [CHR 0x0A])"

subsection \<open>Decoding\<close>

text \<open>A decoder for a Go type stores a JSON value into a value of the type, or fails.\<close>

type_synonym 'a decoder = "json \<Rightarrow> 'a \<Rightarrow> 'a option"

fun dec_string :: "string decoder" where
  "dec_string (JStr raw) _ = Some (json_unquote raw)"
| "dec_string JNull old = Some old"
| "dec_string _ _ = None"

fun dec_bool :: "bool decoder" where
  "dec_bool (JBool b) _ = Some b"
| "dec_bool JNull old = Some old"
| "dec_bool _ _ = None"

text \<open>\<^verbatim>\<open>strconv.ParseInt(literal, 10, 64)\<close>: fractions, exponents and numbers out of range are errors.\<close>

fun dec_int :: "int decoder" where
  "dec_int (JNum lit) _ = (case Atoi lit of (n, None) \<Rightarrow> Some n | (_, Some _) \<Rightarrow> None)"
| "dec_int JNull old = Some old"
| "dec_int _ _ = None"

fun dec_time :: "time decoder" where
  "dec_time (JStr raw) _ = time_Parse raw"
| "dec_time JNull old = Some old"
| "dec_time _ _ = None"

fun dec_entries :: "(string \<times> json) list \<Rightarrow> (string, string) fmap \<Rightarrow> (string, string) fmap option" where
  "dec_entries [] m = Some m"
| "dec_entries ((k, v) # kvs) m =
    (case dec_string v '''' of None \<Rightarrow> None | Some s \<Rightarrow> dec_entries kvs (fmupd (json_unquote k) s m))"

fun dec_map :: "string_map decoder" where
  "dec_map (JObj kvs) old =
    map_option Some (dec_entries kvs (case old of None \<Rightarrow> fmempty | Some m \<Rightarrow> m))"
| "dec_map JNull _ = Some None"
| "dec_map _ _ = None"

text \<open>Elements of a slice are stored over the elements that are there, as far as there are any.\<close>

fun dec_elems :: "'a decoder \<Rightarrow> 'a \<Rightarrow> json list \<Rightarrow> 'a list \<Rightarrow> 'a list option" where
  "dec_elems f zero [] old = Some []"
| "dec_elems f zero (j # js) old =
    (case f j (case old of [] \<Rightarrow> zero | x # _ \<Rightarrow> x) of
       None \<Rightarrow> None
     | Some y \<Rightarrow> map_option ((#) y) (dec_elems f zero js (drop 1 old)))"

fun dec_slice :: "'a decoder \<Rightarrow> 'a \<Rightarrow> 'a list option decoder" where
  "dec_slice f zero (JArr js) old =
    map_option Some (dec_elems f zero js (case old of None \<Rightarrow> [] | Some xs \<Rightarrow> xs))"
| "dec_slice f zero JNull _ = Some None"
| "dec_slice f zero _ _ = None"

text \<open>\<^verbatim>\<open>foldName\<close>: ASCII letters up to case, and the two other runes that fold to ASCII letters.\<close>

function fold_name :: "string \<Rightarrow> string" where
  "fold_name [] = []"
| "fold_name (c # cs) =
    (if CHR ''a'' \<le> c \<and> c \<le> CHR ''z'' then char_of (chr_code c - 32) # fold_name cs
     else if take 2 (c # cs) = utf8_encode 0x17F then CHR ''S'' # fold_name (drop 1 cs)
     else if take 3 (c # cs) = utf8_encode 0x212A then CHR ''K'' # fold_name (drop 2 cs)
     else c # fold_name cs)"
  by pat_completeness auto
termination by (relation "measure length") auto

definition field_for :: "(string \<times> 'a) list \<Rightarrow> string \<Rightarrow> 'a option" where
  "field_for tab name =
    (case map_of tab name of
       Some f \<Rightarrow> Some f
     | None \<Rightarrow> map_option snd (find (\<lambda>(n, f). fold_name n = fold_name name) tab))"

fun dec_members :: "(string \<times> 'r decoder) list \<Rightarrow> (string \<times> json) list \<Rightarrow> 'r \<Rightarrow> 'r option" where
  "dec_members tab [] r = Some r"
| "dec_members tab ((k, v) # kvs) r =
    (case field_for tab (json_unquote k) of
       None \<Rightarrow> dec_members tab kvs r
     | Some f \<Rightarrow> (case f v r of None \<Rightarrow> None | Some r' \<Rightarrow> dec_members tab kvs r'))"

fun dec_struct :: "(string \<times> 'r decoder) list \<Rightarrow> 'r decoder" where
  "dec_struct tab (JObj kvs) r = dec_members tab kvs r"
| "dec_struct tab JNull r = Some r"
| "dec_struct tab _ r = None"

text \<open>A field of a struct: how to read it out of the struct and how to store it back.\<close>

definition field :: "'a decoder \<Rightarrow> ('r \<Rightarrow> 'a) \<Rightarrow> (('a \<Rightarrow> 'a) \<Rightarrow> 'r \<Rightarrow> 'r) \<Rightarrow> 'r decoder" where
  "field f get upd v r = map_option (\<lambda>x. upd (\<lambda>_. x) r) (f v (get r))"

definition dec_ResourceSpec :: "ResourceSpec decoder" where
  "dec_ResourceSpec = dec_struct
    [(''vcpus'', field dec_int rs_VCPUs rs_VCPUs_update),
     (''memory_mb'', field dec_int rs_MemoryMB rs_MemoryMB_update)]"

definition dec_LifecycleSpec :: "LifecycleSpec decoder" where
  "dec_LifecycleSpec = dec_struct
    [(''timeout_seconds'', field dec_int ls_TimeoutSeconds ls_TimeoutSeconds_update),
     (''auto_delete'', field dec_bool ls_AutoDelete ls_AutoDelete_update),
     (''restart_policy'', field dec_string ls_RestartPolicy ls_RestartPolicy_update)]"

definition dec_RuntimeSpec :: "RuntimeSpec decoder" where
  "dec_RuntimeSpec = dec_struct
    [(''command'', field dec_string rt_Command rt_Command_update),
     (''args'', field (dec_slice dec_string '''') rt_Args rt_Args_update),
     (''env'', field dec_map rt_Env rt_Env_update)]"

definition dec_PortMapping :: "PortMapping decoder" where
  "dec_PortMapping = dec_struct
    [(''guest'', field dec_int pm_Guest pm_Guest_update),
     (''host'', field dec_int pm_Host pm_Host_update),
     (''protocol'', field dec_string pm_Protocol pm_Protocol_update)]"

definition dec_NetworkSpec :: "NetworkSpec decoder" where
  "dec_NetworkSpec = dec_struct
    [(''ports'', field (dec_slice dec_PortMapping \<lparr>pm_Guest = 0, pm_Host = 0, pm_Protocol = ''''\<rparr>)
        ns_Ports ns_Ports_update)]"

definition dec_StorageSpec :: "StorageSpec decoder" where
  "dec_StorageSpec = dec_struct
    [(''root_disk_size_mb'', field dec_int st_RootDiskSizeMB st_RootDiskSizeMB_update)]"

definition dec_PlacementSpec :: "PlacementSpec decoder" where
  "dec_PlacementSpec = dec_struct [(''labels'', field dec_map pl_Labels pl_Labels_update)]"

definition dec_VMSpec :: "VMSpec decoder" where
  "dec_VMSpec = dec_struct
    [(''resources'', field dec_ResourceSpec sp_Resources sp_Resources_update),
     (''lifecycle'', field dec_LifecycleSpec sp_Lifecycle sp_Lifecycle_update),
     (''runtime'', field dec_RuntimeSpec sp_Runtime sp_Runtime_update),
     (''network'', field dec_NetworkSpec sp_Network sp_Network_update),
     (''storage'', field dec_StorageSpec sp_Storage sp_Storage_update),
     (''placement'', field dec_PlacementSpec sp_Placement sp_Placement_update),
     (''metadata'', field dec_map sp_Metadata sp_Metadata_update)]"

definition dec_CapacityInfo :: "CapacityInfo decoder" where
  "dec_CapacityInfo = dec_struct
    [(''total_vcpus'', field dec_int cap_TotalVCPUs cap_TotalVCPUs_update),
     (''total_memory_mb'', field dec_int cap_TotalMemoryMB cap_TotalMemoryMB_update),
     (''used_vcpus'', field dec_int cap_UsedVCPUs cap_UsedVCPUs_update),
     (''used_memory_mb'', field dec_int cap_UsedMemoryMB cap_UsedMemoryMB_update)]"

definition dec_Controller :: "Controller decoder" where
  "dec_Controller = dec_struct
    [(''id'', field dec_string ct_ID ct_ID_update),
     (''status'', field dec_string ct_Status ct_Status_update),
     (''labels'', field dec_map ct_Labels ct_Labels_update),
     (''capacity'', field dec_CapacityInfo ct_Capacity ct_Capacity_update),
     (''last_heartbeat_at'', field dec_time ct_LastHeartbeatAt ct_LastHeartbeatAt_update)]"

definition dec_Heartbeat :: "Heartbeat decoder" where
  "dec_Heartbeat = dec_struct
    [(''status'', field dec_string hb_Status hb_Status_update),
     (''capacity'', field dec_CapacityInfo hb_Capacity hb_Capacity_update)]"

text \<open>\<^verbatim>\<open>json.NewDecoder(body).Decode(&v)\<close> into a zero value.\<close>

definition json_Decode :: "'a decoder \<Rightarrow> 'a \<Rightarrow> string \<Rightarrow> 'a option" where
  "json_Decode f zero s = Option.bind (json_parse s) (\<lambda>j. f j zero)"

end
