(* ===== verification/Http_Core.thy ===== *)
theory Http_Core
  imports Provider_Err Json_Codec
begin

text \<open>
  The vocabulary of the HTTP layer: requests, what a handler does to its \<^verbatim>\<open>http.ResponseWriter\<close>, the
  response that results, the two recorders that wrap a writer, and \<^verbatim>\<open>src/transport/httpapi/errors.go\<close>.

  A handler only calls methods of its writer and never reads from it, so its effect on the writer is
  the sequence of its calls. A wrapping writer translates calls into calls of the wrapped one.
\<close>

subsection \<open>Requests and responses of net/http\<close>

record Request =
  rq_Method :: string
  rq_Path :: string
  rq_RawQuery :: string
  rq_Header :: "(string \<times> string) list"
  rq_Body :: "go_error + bytes"
  rq_PathValues :: "(string \<times> string) list"

text \<open>\<^verbatim>\<open>rq_Path\<close> is the escaped path of the URL, \<^verbatim>\<open>rq_PathValues\<close> the wildcards the router matched.\<close>

definition Header_Get :: "string \<Rightarrow> Request \<Rightarrow> string" where
  "Header_Get name r = (case map_of (rq_Header r) name of None \<Rightarrow> '''' | Some v \<Rightarrow> v)"

definition PathValue :: "string \<Rightarrow> Request \<Rightarrow> string" where
  "PathValue name r = (case map_of (rq_PathValues r) name of None \<Rightarrow> '''' | Some v \<Rightarrow> v)"

definition string_of :: "bytes \<Rightarrow> string" where
  "string_of bs = map (\<lambda>b. char_of (unat b)) bs"

datatype writer_call =
  Set_header string string
| Write_header int
| Write_body bytes

record Response =
  re_Header :: "string \<rightharpoonup> string"
  re_Status :: "int option"
  re_Body :: bytes

text \<open>
  The server's writer: the first \<^verbatim>\<open>WriteHeader\<close> sends the status and freezes the headers, a \<^verbatim>\<open>Write\<close> before
  that sends status 200. (Content sniffing and the suppression of bodies for \<^verbatim>\<open>HEAD\<close> happen after this.)
\<close>

fun server_call :: "writer_call \<Rightarrow> Response \<Rightarrow> Response" where
  "server_call (Set_header k v) r =
    (if re_Status r = None then r\<lparr>re_Header := (re_Header r)(k \<mapsto> v)\<rparr> else r)"
| "server_call (Write_header code) r =
    (if re_Status r = None then r\<lparr>re_Status := Some code\<rparr> else r)"
| "server_call (Write_body bs) r =
    r\<lparr>re_Status := Some (case re_Status r of None \<Rightarrow> 200 | Some code \<Rightarrow> code), re_Body := re_Body r @ bs\<rparr>"

definition no_response :: Response where
  "no_response = \<lparr>re_Header = Map.empty, re_Status = None, re_Body = []\<rparr>"

text \<open>The response of a handler; a handler that writes nothing answers 200 with an empty body.\<close>

definition response :: "writer_call list \<Rightarrow> Response" where
  "response calls = fold server_call calls no_response"

definition status_of :: "writer_call list \<Rightarrow> int" where
  "status_of calls = (case re_Status (response calls) of None \<Rightarrow> 200 | Some code \<Rightarrow> code)"

fun StatusText :: "int \<Rightarrow> string" where
  "StatusText code =
    (if code = 200 then ''OK'' else if code = 201 then ''Created'' else if code = 202 then ''Accepted''
     else if code = 301 then ''Moved Permanently'' else if code = 400 then ''Bad Request''
     else if code = 404 then ''Not Found'' else if code = 405 then ''Method Not Allowed''
     else if code = 409 then ''Conflict'' else if code = 500 then ''Internal Server Error'' else '''')"

text \<open>\<^verbatim>\<open>http.Error\<close>\<close>

definition http_Error :: "string \<Rightarrow> int \<Rightarrow> writer_call list" where
  "http_Error message code =
    [Set_header ''Content-Type'' ''text/plain; charset=utf-8'', Set_header ''X-Content-Type-Options'' ''nosniff'',
     Write_header code, Write_body (bytes_of (message @ [CHR 0x0A]))]"

subsection \<open>Recorders\<close>

text \<open>\<^verbatim>\<open>statusRecorder\<close> of \<^verbatim>\<open>handler.go\<close>\<close>

record statusRecorder =
  sr_statusCode :: int
  sr_wroteHeader :: bool

fun statusRecorder_call :: "writer_call \<Rightarrow> statusRecorder \<Rightarrow> statusRecorder \<times> writer_call list" where
  "statusRecorder_call (Write_header code) r =
    (if \<not> sr_wroteHeader r
     then (r\<lparr>sr_statusCode := code, sr_wroteHeader := True\<rparr>, [Write_header code])
     else (r, []))"
| "statusRecorder_call (Write_body bs) r = (r, [Write_body bs])"
| "statusRecorder_call (Set_header k v) r = (r, [Set_header k v])"

text \<open>\<^verbatim>\<open>responseRecorder\<close> of \<^verbatim>\<open>idempotency.go\<close>\<close>

record responseRecorder =
  rr_statusCode :: int
  rr_body :: bytes
  rr_wroteHeader :: bool

fun responseRecorder_call :: "writer_call \<Rightarrow> responseRecorder \<Rightarrow> responseRecorder \<times> writer_call list" where
  "responseRecorder_call (Write_header code) r =
    (if \<not> rr_wroteHeader r
     then (r\<lparr>rr_statusCode := code, rr_wroteHeader := True\<rparr>, [Write_header code])
     else (r, []))"
| "responseRecorder_call (Write_body bs) r = (r\<lparr>rr_body := rr_body r @ bs\<rparr>, [Write_body bs])"
| "responseRecorder_call (Set_header k v) r = (r, [Set_header k v])"

text \<open>All calls of a handler through a recorder: its final state and the calls that reach the wrapped writer.\<close>

fun record_calls :: "(writer_call \<Rightarrow> 'r \<Rightarrow> 'r \<times> writer_call list) \<Rightarrow> writer_call list \<Rightarrow> 'r \<Rightarrow> 'r \<times> writer_call list" where
  "record_calls step [] r = (r, [])"
| "record_calls step (c # cs) r =
    (let (r, out) = step c r; (r, outs) = record_calls step cs r in (r, out @ outs))"

subsection \<open>errors.go\<close>

record errorResponse =
  er_Code :: string
  er_Message :: string
  er_ResourceType :: string
  er_ResourceID :: string

text \<open>The JSON of an error; the last two fields are left out when empty (\<^verbatim>\<open>omitempty\<close>).\<close>

definition json_errorResponse :: "errorResponse \<Rightarrow> json" where
  "json_errorResponse e = JObj
    ([(''code'', jstr (er_Code e)), (''message'', jstr (er_Message e))] @
     (if er_ResourceType e = '''' then [] else [(''resource_type'', jstr (er_ResourceType e))]) @
     (if er_ResourceID e = '''' then [] else [(''resource_id'', jstr (er_ResourceID e))]))"

definition errorToStatus :: "go_error \<Rightarrow> int" where
  "errorToStatus err =
    (if errors_Is err ErrNotFound then 404
     else if errors_Is err ErrAlreadyExists then 409
     else if errors_Is err ErrConflict then 409
     else 500)"

definition writeError :: "go_error \<Rightarrow> writer_call list" where
  "writeError err =
    (let status = errorToStatus err;
         resp = \<lparr>er_Code = StatusText status, er_Message = err_Error err, er_ResourceType = '''', er_ResourceID = ''''\<rparr>;
         resp = (case errors_As err of
                   Some (ProviderError code message rt rid _) \<Rightarrow>
                     resp\<lparr>er_Code := code, er_Message := message, er_ResourceType := rt, er_ResourceID := rid\<rparr>
                 | _ \<Rightarrow> resp)
     in [Set_header ''Content-Type'' ''application/json'', Write_header status,
         Write_body (bytes_of (json_Encode (Some (json_errorResponse resp))))])"

definition writeErrorMessage :: "int \<Rightarrow> string \<Rightarrow> string \<Rightarrow> writer_call list" where
  "writeErrorMessage status code message =
    [Set_header ''Content-Type'' ''application/json'', Write_header status,
     Write_body (bytes_of (json_Encode (Some (json_errorResponse
       \<lparr>er_Code = code, er_Message = message, er_ResourceType = '''', er_ResourceID = ''''\<rparr>))))]"

subsection \<open>Facts\<close>

text \<open>The calls of a handler that sends its headers and status first and then only a body.\<close>

lemma response_simple [simp]:
  "re_Status (response [Set_header k v, Write_header c, Write_body b]) = Some c"
  "re_Body (response [Set_header k v, Write_header c, Write_body b]) = b"
  "re_Header (response [Set_header k v, Write_header c, Write_body b]) = [k \<mapsto> v]"
  by (simp_all add: response_def no_response_def)

lemma status_of_simple [simp]: "status_of [Set_header k v, Write_header c, Write_body b] = c"
  by (simp add: status_of_def)

text \<open>
  A recorder that forwards the first \<^verbatim>\<open>WriteHeader\<close> only is invisible: the server drops the others too.
  \<open>wrote\<close> and \<open>sent\<close> are the recorder's and the server's idea of whether the status is out; a body
  sent without a status makes the server ahead of the recorder.
\<close>

lemma record_status:
  assumes "record_calls statusRecorder_call calls r = (r', out)" and "sr_wroteHeader r \<longrightarrow> re_Status s \<noteq> None"
  shows "fold server_call out s = fold server_call calls s"
  using assms
proof (induction calls arbitrary: r r' out s)
  case (Cons c cs)
  obtain r1 o1 where step: "statusRecorder_call c r = (r1, o1)" by (metis prod.exhaust)
  obtain r2 o2 where rest: "record_calls statusRecorder_call cs r1 = (r2, o2)" by (metis prod.exhaust)
  have out: "out = o1 @ o2" using Cons.prems(1) step rest by simp
  have "sr_wroteHeader r1 \<longrightarrow> re_Status (server_call c s) \<noteq> None" and "fold server_call o1 s = server_call c s"
    using step Cons.prems(2) by (cases c; auto split: if_splits)+
  with Cons.IH[OF rest] out show ?case by simp
qed simp

lemma record_response:
  assumes "record_calls responseRecorder_call calls r = (r', out)" and "rr_wroteHeader r \<longrightarrow> re_Status s \<noteq> None"
  shows "fold server_call out s = fold server_call calls s"
  using assms
proof (induction calls arbitrary: r r' out s)
  case (Cons c cs)
  obtain r1 o1 where step: "responseRecorder_call c r = (r1, o1)" by (metis prod.exhaust)
  obtain r2 o2 where rest: "record_calls responseRecorder_call cs r1 = (r2, o2)" by (metis prod.exhaust)
  have out: "out = o1 @ o2" using Cons.prems(1) step rest by simp
  have "rr_wroteHeader r1 \<longrightarrow> re_Status (server_call c s) \<noteq> None" and "fold server_call o1 s = server_call c s"
    using step Cons.prems(2) by (cases c; auto split: if_splits)+
  with Cons.IH[OF rest] out show ?case by simp
qed simp

text \<open>What the recorders record, for a handler that sends its status before its body.\<close>

fun status_first :: "writer_call list \<Rightarrow> bool" where
  "status_first [] \<longleftrightarrow> True"
| "status_first (Set_header k v # cs) \<longleftrightarrow> status_first cs"
| "status_first (Write_header c # cs) \<longleftrightarrow> True"
| "status_first (Write_body b # cs) \<longleftrightarrow> False"

lemma recorded_body:
  "record_calls responseRecorder_call calls r = (r', out) \<Longrightarrow> rr_body r = re_Body s \<Longrightarrow>
    rr_body r' = re_Body (fold server_call calls s)"
proof (induction calls arbitrary: r r' out s)
  case (Cons c cs)
  obtain r1 o1 where step: "responseRecorder_call c r = (r1, o1)" by (metis prod.exhaust)
  obtain r2 o2 where rest: "record_calls responseRecorder_call cs r1 = (r2, o2)" by (metis prod.exhaust)
  have "rr_body r1 = re_Body (server_call c s)" using step Cons.prems(2) by (cases c) (auto split: if_splits)
  with Cons.IH[OF rest] Cons.prems(1) step rest show ?case by simp
qed simp

lemma recorded_code_sent:
  "record_calls responseRecorder_call calls r = (r', out) \<Longrightarrow> rr_wroteHeader r \<Longrightarrow>
    re_Status s = Some (rr_statusCode r) \<Longrightarrow> re_Status (fold server_call calls s) = Some (rr_statusCode r')"
  "record_calls statusRecorder_call calls q = (q', out) \<Longrightarrow> sr_wroteHeader q \<Longrightarrow>
    re_Status s = Some (sr_statusCode q) \<Longrightarrow> re_Status (fold server_call calls s) = Some (sr_statusCode q')"
proof (induction calls arbitrary: r r' q q' out s)
  case (Cons c cs)
  { case 1
    then show ?case using Cons.IH(1) by (cases c) (auto split: prod.splits)
  next
    case 2
    then show ?case using Cons.IH(2) by (cases c) (auto split: prod.splits)
  }
qed simp_all

lemma recorded_code:
  "record_calls responseRecorder_call calls r = (r', out) \<Longrightarrow> \<not> rr_wroteHeader r \<Longrightarrow> rr_statusCode r = 200 \<Longrightarrow>
    re_Status s = None \<Longrightarrow> status_first calls \<Longrightarrow>
    (case re_Status (fold server_call calls s) of None \<Rightarrow> 200 | Some c \<Rightarrow> c) = rr_statusCode r'"
  "record_calls statusRecorder_call calls q = (q', out) \<Longrightarrow> \<not> sr_wroteHeader q \<Longrightarrow> sr_statusCode q = 200 \<Longrightarrow>
    re_Status s = None \<Longrightarrow> status_first calls \<Longrightarrow>
    (case re_Status (fold server_call calls s) of None \<Rightarrow> 200 | Some c \<Rightarrow> c) = sr_statusCode q'"
proof (induction calls arbitrary: r r' q q' out s)
  case (Cons c cs)
  { case 1
    show ?case
    proof (cases c)
      case (Set_header k v)
      with 1 Cons.IH(1) show ?thesis by (auto split: prod.splits)
    next
      case (Write_header n)
      with 1 recorded_code_sent(1)[of cs "r\<lparr>rr_statusCode := n, rr_wroteHeader := True\<rparr>" r' _ "s\<lparr>re_Status := Some n\<rparr>"]
      show ?thesis by (auto split: prod.splits)
    qed (use 1 in simp)
  next
    case 2
    show ?case
    proof (cases c)
      case (Set_header k v)
      with 2 Cons.IH(2) show ?thesis by (auto split: prod.splits)
    next
      case (Write_header n)
      with 2 recorded_code_sent(2)[of cs "q\<lparr>sr_statusCode := n, sr_wroteHeader := True\<rparr>" q' _ "s\<lparr>re_Status := Some n\<rparr>"]
      show ?thesis by (auto split: prod.splits)
    qed (use 2 in simp)
  }
qed simp_all

end
