(* ===== verification/Router.thy ===== *)
theory Router
  imports Http_Core
begin

text \<open>
  The request router: the patterns that \<^verbatim>\<open>NewHandler\<close> registers (\<^verbatim>\<open>src/transport/httpapi/handler.go\<close>) and how
  \<^verbatim>\<open>http.ServeMux\<close> (Go 1.24) finds the one for a request: it redirects to the cleaned path, matches the
  unescaped segments of the escaped path, lets \<^verbatim>\<open>HEAD\<close> match \<^verbatim>\<open>GET\<close> patterns, and tells a wrong method
  from an unknown path. Requests for \<^verbatim>\<open>*\<close> are left out.
\<close>

subsection \<open>URLs\<close>

text \<open>Percent-decoding; \<^verbatim>\<open>None\<close> for a malformed escape. A plus is a space in a query only.\<close>

fun unescape :: "bool \<Rightarrow> string \<Rightarrow> string option" where
  "unescape query [] = Some []"
| "unescape query (c # cs) =
    (if c = CHR ''%'' then
       (case cs of
          a # b # r \<Rightarrow>
            (case (hex_digit a, hex_digit b) of
               (Some x, Some y) \<Rightarrow> map_option ((#) (char_of (x * 16 + y))) (unescape query r)
             | _ \<Rightarrow> None)
        | _ \<Rightarrow> None)
     else if query \<and> c = CHR ''+'' then map_option ((#) CHR '' '') (unescape query cs)
     else map_option ((#) c) (unescape query cs))"

definition pathUnescape :: "string \<Rightarrow> string" where
  "pathUnescape s = (case unescape False s of None \<Rightarrow> s | Some t \<Rightarrow> t)"

fun split_on :: "char \<Rightarrow> string \<Rightarrow> string list" where
  "split_on sep [] = [[]]"
| "split_on sep (c # cs) =
    (if c = sep then [] # split_on sep cs
     else case split_on sep cs of [] \<Rightarrow> [[c]] | p # ps \<Rightarrow> (c # p) # ps)"

text \<open>\<^verbatim>\<open>url.ParseQuery\<close>: pairs in order; a part with a semicolon or a malformed escape is dropped.\<close>

definition query_pair :: "string \<Rightarrow> (string \<times> string) option" where
  "query_pair part =
    (if part = '''' \<or> CHR '';'' \<in> set part then None
     else let k = takeWhile (\<lambda>c. c \<noteq> CHR ''='') part; v = drop (length k + 1) part
          in case (unescape True k, unescape True v) of (Some k, Some v) \<Rightarrow> Some (k, v) | _ \<Rightarrow> None)"

definition ParseQuery :: "string \<Rightarrow> (string \<times> string) list" where
  "ParseQuery q = List.map_filter query_pair (split_on (CHR ''&'') q)"

definition Query_Get :: "Request \<Rightarrow> string \<Rightarrow> string" where
  "Query_Get r key = (case map_of (ParseQuery (rq_RawQuery r)) key of None \<Rightarrow> '''' | Some v \<Rightarrow> v)"

text \<open>\<^verbatim>\<open>cleanPath\<close>: the canonical form of a path, with its trailing slash if it had one.\<close>

fun clean_segments :: "string list \<Rightarrow> string list \<Rightarrow> string list" where
  "clean_segments acc [] = rev acc"
| "clean_segments acc (s # ss) =
    (if s = '''' \<or> s = ''.'' then clean_segments acc ss
     else if s = ''..'' then clean_segments (drop 1 acc) ss
     else clean_segments (s # acc) ss)"

definition cleanPath :: "string \<Rightarrow> string" where
  "cleanPath p =
    (let segs = clean_segments [] (split_on (CHR ''/'') p);
         np = (if segs = [] then ''/'' else concat (map ((#) CHR ''/'') segs))
     in if p \<noteq> '''' \<and> last p = CHR ''/'' \<and> np \<noteq> ''/'' then np @ ''/'' else np)"

subsection \<open>Patterns\<close>

datatype endpoint =
  Create_VM_ep | Get_VM_ep | Stop_VM_ep | Delete_VM_ep | Register_controller_ep | Heartbeat_ep
| List_controllers_ep | List_events_ep | Healthz_ep

datatype segment = Lit string | Wild string

text \<open>The table of \<^verbatim>\<open>NewHandler\<close>: method, path pattern, handler.\<close>

definition routes :: "(string \<times> segment list \<times> endpoint) list" where
  "routes =
    [(''POST'', [Lit ''v1'', Lit ''vms''], Create_VM_ep),
     (''GET'', [Lit ''v1'', Lit ''vms'', Wild ''vm_id''], Get_VM_ep),
     (''POST'', [Lit ''v1'', Lit ''vms'', Wild ''vm_id'', Lit ''stop''], Stop_VM_ep),
     (''DELETE'', [Lit ''v1'', Lit ''vms'', Wild ''vm_id''], Delete_VM_ep),
     (''POST'', [Lit ''v1'', Lit ''controllers''], Register_controller_ep),
     (''POST'', [Lit ''v1'', Lit ''controllers'', Wild ''controller_id'', Lit ''heartbeat''], Heartbeat_ep),
     (''GET'', [Lit ''v1'', Lit ''controllers''], List_controllers_ep),
     (''GET'', [Lit ''v1'', Lit ''events''], List_events_ep),
     (''GET'', [Lit ''healthz''], Healthz_ep)]"

text \<open>The segments of a path, unescaped; a trailing slash is a segment of its own.\<close>

definition path_segments :: "string \<Rightarrow> string list" where
  "path_segments p =
    (let segs = split_on (CHR ''/'') (drop 1 p)
     in if last segs = '''' then map pathUnescape (butlast segs) @ [''/''] else map pathUnescape segs)"

text \<open>A wildcard takes one segment, but not the trailing slash.\<close>

fun match_segments :: "segment list \<Rightarrow> string list \<Rightarrow> (string \<times> string) list option" where
  "match_segments [] [] = Some []"
| "match_segments (Lit l # ps) (s # ss) = (if s = l then match_segments ps ss else None)"
| "match_segments (Wild n # ps) (s # ss) = (if s \<noteq> ''/'' then map_option ((#) (n, s)) (match_segments ps ss) else None)"
| "match_segments _ _ = None"

fun match_routes :: "(string \<times> segment list \<times> endpoint) list \<Rightarrow> string \<Rightarrow> string list \<Rightarrow>
    (endpoint \<times> (string \<times> string) list) option" where
  "match_routes [] meth segs = None"
| "match_routes ((m, pat, ep) # rs) meth segs =
    (case (if m = meth then match_segments pat segs else None) of
       Some vs \<Rightarrow> Some (ep, vs)
     | None \<Rightarrow> match_routes rs meth segs)"

definition find_route :: "string \<Rightarrow> string list \<Rightarrow> (endpoint \<times> (string \<times> string) list) option" where
  "find_route meth segs =
    (case match_routes routes meth segs of
       Some x \<Rightarrow> Some x
     | None \<Rightarrow> if meth = ''HEAD'' then match_routes routes ''GET'' segs else None)"

text \<open>The methods that would match, sorted, with \<^verbatim>\<open>HEAD\<close> wherever there is \<^verbatim>\<open>GET\<close>.\<close>

definition allowed_methods :: "string list \<Rightarrow> string list" where
  "allowed_methods segs = filter (\<lambda>m. find_route m segs \<noteq> None) [''DELETE'', ''GET'', ''HEAD'', ''POST'']"

datatype mux_result =
  Redirect string
| Route endpoint "(string \<times> string) list"
| Method_not_allowed "string list"
| Path_not_found

definition findHandler :: "Request \<Rightarrow> mux_result" where
  "findHandler r =
    (let path = (if rq_Method r = ''CONNECT'' then rq_Path r else cleanPath (rq_Path r));
         segs = path_segments path
     in if path \<noteq> rq_Path r then Redirect path
        else case find_route (rq_Method r) segs of
               Some (ep, vs) \<Rightarrow> Route ep vs
             | None \<Rightarrow>
                 let allowed = allowed_methods segs
                 in if allowed \<noteq> [] then Method_not_allowed allowed else Path_not_found)"

subsection \<open>The answers of the router itself\<close>

definition url_safe :: "char \<Rightarrow> bool" where
  "url_safe c \<longleftrightarrow> c \<in> set ''-_.~$&+,/:;=@'' \<or> is_digit c \<or>
     (let n = chr_code c in 65 \<le> n \<and> n \<le> 90 \<or> 97 \<le> n \<and> n \<le> 122)"

definition upper_hex :: "nat \<Rightarrow> char" where "upper_hex n = ''0123456789ABCDEF'' ! n"

definition url_escape_path :: "string \<Rightarrow> string" where
  "url_escape_path p =
    concat (map (\<lambda>c. if url_safe c then [c] else [CHR ''%'', upper_hex (chr_code c div 16), upper_hex (chr_code c mod 16)]) p)"

definition hex_escape_non_ascii :: "string \<Rightarrow> string" where
  "hex_escape_non_ascii s =
    concat (map (\<lambda>c. if chr_code c < 0x80 then [c]
                     else [CHR ''%'', hextable ! (chr_code c div 16), hextable ! (chr_code c mod 16)]) s)"

definition html_escape :: "string \<Rightarrow> string" where
  "html_escape s =
    concat (map (\<lambda>c. if c = CHR ''&'' then ''&amp;'' else if c = CHR ''<'' then ''&lt;''
                     else if c = CHR ''>'' then ''&gt;'' else if c = dquote then ''&#34;''
                     else if c = CHR 0x27 then ''&#39;'' else [c]) s)"

definition http_Redirect :: "Request \<Rightarrow> string \<Rightarrow> writer_call list" where
  "http_Redirect r path =
    (let url = url_escape_path path @ (if rq_RawQuery r = '''' then '''' else CHR ''?'' # rq_RawQuery r)
     in [Set_header ''Location'' (hex_escape_non_ascii url)] @
        (if rq_Method r \<in> {''GET'', ''HEAD''} then [Set_header ''Content-Type'' ''text/html; charset=utf-8''] else []) @
        [Write_header 301] @
        (if rq_Method r = ''GET''
         then [Write_body (bytes_of (''<a href='' @ [dquote] @ html_escape url @ [dquote] @ ''>'' @ StatusText 301 @
           ''</a>.'' @ [CHR 0x0A, CHR 0x0A]))] else []))"

fun join :: "string list \<Rightarrow> string" where
  "join [] = ''''"
| "join [s] = s"
| "join (s # ss) = s @ '', '' @ join ss"

definition mux_answer :: "Request \<Rightarrow> mux_result \<Rightarrow> writer_call list" where
  "mux_answer r res =
    (case res of
       Redirect path \<Rightarrow> http_Redirect r path
     | Method_not_allowed ms \<Rightarrow> Set_header ''Allow'' (join ms) # http_Error (StatusText 405) 405
     | Path_not_found \<Rightarrow> http_Error ''404 page not found'' 404
     | Route _ _ \<Rightarrow> [])"

subsection \<open>Facts\<close>

lemma match_iff:
  "match_segments [] ss = Some vs \<longleftrightarrow> ss = [] \<and> vs = []"
  "match_segments (Lit l # ps) ss = Some vs \<longleftrightarrow> (\<exists>ss'. ss = l # ss' \<and> match_segments ps ss' = Some vs)"
  "match_segments (Wild n # ps) ss = Some vs \<longleftrightarrow>
    (\<exists>s ss' vs'. ss = s # ss' \<and> s \<noteq> ''/'' \<and> vs = (n, s) # vs' \<and> match_segments ps ss' = Some vs')"
  by (cases ss; auto)+

lemma match_routes_iff:
  "match_routes rs meth segs \<noteq> None \<longleftrightarrow> (\<exists>(m, pat, ep)\<in>set rs. m = meth \<and> match_segments pat segs \<noteq> None)"
  by (induction rs meth segs rule: match_routes.induct) (auto split: option.splits)

lemma match_routes_SomeD:
  "match_routes rs meth segs = Some (ep, vs) \<Longrightarrow> \<exists>pat. (meth, pat, ep) \<in> set rs \<and> match_segments pat segs = Some vs"
  by (induction rs meth segs rule: match_routes.induct) (auto split: option.splits if_splits)

text \<open>No request matches two patterns, so the order of registration does not matter.\<close>

lemma routes_unambiguous:
  assumes "(m, pat, ep) \<in> set routes" "match_segments pat segs = Some vs"
    and "(m, pat', ep') \<in> set routes" "match_segments pat' segs = Some vs'"
  shows "pat' = pat \<and> ep' = ep \<and> vs' = vs"
  using assms by (auto simp: routes_def match_iff)

lemma match_routes_eq:
  "match_routes routes meth segs = Some (ep, vs) \<longleftrightarrow>
    (\<exists>pat. (meth, pat, ep) \<in> set routes \<and> match_segments pat segs = Some vs)"
proof
  assume "\<exists>pat. (meth, pat, ep) \<in> set routes \<and> match_segments pat segs = Some vs"
  then obtain pat where p: "(meth, pat, ep) \<in> set routes" "match_segments pat segs = Some vs" by blast
  then have "match_routes routes meth segs \<noteq> None"
    unfolding match_routes_iff by (intro bexI[of _ "(meth, pat, ep)"]) simp_all
  then obtain ep' vs' where r: "match_routes routes meth segs = Some (ep', vs')" by auto
  from match_routes_SomeD[OF r] routes_unambiguous[OF p] r show "match_routes routes meth segs = Some (ep, vs)" by blast
qed (rule match_routes_SomeD)

text \<open>Paths of plain segments: not empty, without slashes and escapes, and no dots only.\<close>

definition plain :: "string \<Rightarrow> bool" where
  "plain s \<longleftrightarrow> s \<noteq> '''' \<and> s \<noteq> ''.'' \<and> s \<noteq> ''..'' \<and> CHR ''/'' \<notin> set s \<and> CHR ''%'' \<notin> set s"

definition path_of :: "string list \<Rightarrow> string" where
  "path_of segs = concat (map ((#) CHR ''/'') segs)"

lemma split_on_plain: "sep \<notin> set s \<Longrightarrow> split_on sep (s @ sep # t) = s # split_on sep t"
  by (induction s) auto

lemma split_on_none: "sep \<notin> set s \<Longrightarrow> split_on sep s = [s]"
  by (induction s) auto

lemma split_path_of:
  "\<forall>s\<in>set segs. CHR ''/'' \<notin> set s \<Longrightarrow> split_on (CHR ''/'') (path_of segs) = [] # segs"
proof (induction segs)
  case Nil
  then show ?case by (simp add: path_of_def)
next
  case (Cons s segs)
  have "split_on (CHR ''/'') (s @ path_of segs) = s # segs"
  proof (cases segs)
    case Nil
    with Cons.prems show ?thesis by (simp add: path_of_def split_on_none)
  next
    case (Cons t ts)
    then have "path_of segs = CHR ''/'' # t @ path_of ts" by (simp add: path_of_def)
    with Cons.IH Cons.prems Cons split_on_plain[of "CHR ''/''" s "t @ path_of ts"] show ?thesis by simp
  qed
  then show ?case by (simp add: path_of_def)
qed

lemma unescape_plain: "CHR ''%'' \<notin> set s \<Longrightarrow> unescape False s = Some s"
  by (induction s) auto

lemma clean_plain: "\<forall>s\<in>set segs. plain s \<Longrightarrow> clean_segments acc segs = rev acc @ segs"
  by (induction segs arbitrary: acc) (auto simp: plain_def)

lemma path_of_last: "segs \<noteq> [] \<Longrightarrow> plain (last segs) \<Longrightarrow> last (path_of segs) \<noteq> CHR ''/''"
  by (induction segs rule: rev_induct) (auto simp: path_of_def plain_def dest: last_in_set)

lemma path_of_routing:
  assumes "segs \<noteq> []" and "\<forall>s\<in>set segs. plain s"
  shows "cleanPath (path_of segs) = path_of segs" and "path_segments (path_of segs) = segs"
proof -
  have sp: "split_on (CHR ''/'') (path_of segs) = [] # segs"
    using assms(2) by (intro split_path_of) (simp add: plain_def)
  have last: "last (path_of segs) \<noteq> CHR ''/''" using assms by (intro path_of_last) auto
  have clean: "clean_segments [] ([] # segs) = segs" using clean_plain[OF assms(2), of "[]"] by simp
  show "cleanPath (path_of segs) = path_of segs"
    using assms(1) last by (simp add: cleanPath_def sp clean del: clean_segments.simps) (simp add: path_of_def)
  obtain s ss where segs: "segs = s # ss" using assms(1) by (cases segs) auto
  have "split_on (CHR ''/'') (drop 1 (path_of segs)) = segs"
    using sp by (simp add: segs path_of_def)
  moreover have "last segs \<noteq> ''''" using assms by (auto simp: plain_def)
  moreover have "map pathUnescape segs = segs"
    using assms(2) by (intro map_idI) (simp add: pathUnescape_def unescape_plain plain_def)
  ultimately show "path_segments (path_of segs) = segs" by (simp add: path_segments_def)
qed

lemma findHandler_plain:
  assumes "rq_Path r = path_of segs" "segs \<noteq> []" "\<forall>s\<in>set segs. plain s"
    and "(rq_Method r, pat, ep) \<in> set routes" "match_segments pat segs = Some vs"
  shows "findHandler r = Route ep vs"
proof -
  have "find_route (rq_Method r) segs = Some (ep, vs)"
    using assms(4,5) match_routes_eq[of "rq_Method r" segs ep vs] by (auto simp: find_route_def)
  with assms(1) path_of_routing[OF assms(2,3)] show ?thesis by (auto simp: findHandler_def Let_def)
qed

subsection \<open>Properties\<close>



end
