(* ===== verification/Idempotency.thy ===== *)
theory Idempotency
  imports Http_Core Sha256
begin

text \<open>
  \<^verbatim>\<open>src/transport/httpapi/idempotency.go\<close>: a request that carries an \<^verbatim>\<open>Idempotency-Key\<close> is executed once and
  its response replayed to later requests with the same key and body. The middleware reads its map
  in one critical section, may evict an expired entry in a second one and stores the response in a
  third one after the handler has run; the sections are separate definitions.
\<close>

subsection \<open>The store and the middleware\<close>

definition idempotencyTTL :: duration where "idempotencyTTL = 24 * Hour"

record idempotencyEntry =
  ie_requestHash :: bytes
  ie_statusCode :: int
  ie_body :: bytes
  ie_createdAt :: time

record idempotencyStore =
  is_entries :: "string \<rightharpoonup> idempotencyEntry"

definition newIdempotencyStore :: idempotencyStore where
  "newIdempotencyStore = \<lparr>is_entries = Map.empty\<rparr>"

text \<open>The first section: look the key up; then decide outside of the lock whether the entry has expired.\<close>

definition idem_lookup :: "string \<Rightarrow> idempotencyStore \<Rightarrow> idempotencyEntry option" where
  "idem_lookup key i = is_entries i key"

definition idem_expired :: "idempotencyEntry \<Rightarrow> world \<Rightarrow> bool \<times> world" where
  "idem_expired e w = (let (now, w) = time_Now w in (idempotencyTTL < time_Sub now (ie_createdAt e), w))"

definition idem_evict :: "string \<Rightarrow> idempotencyStore \<Rightarrow> idempotencyStore" where
  "idem_evict key i = i\<lparr>is_entries := (is_entries i)(key := None)\<rparr>"

definition idem_store :: "string \<Rightarrow> bytes \<Rightarrow> responseRecorder \<Rightarrow> idempotencyStore \<Rightarrow> world \<Rightarrow> idempotencyStore \<times> world" where
  "idem_store key hash rec i w =
    (let (now, w) = time_Now w
     in (i\<lparr>is_entries := (is_entries i)(key \<mapsto>
           \<lparr>ie_requestHash = hash, ie_statusCode = rr_statusCode rec, ie_body = rr_body rec, ie_createdAt = now\<rparr>)\<rparr>, w))"

text \<open>The entry a request finds, after lazy eviction.\<close>

definition idem_find :: "string \<Rightarrow> idempotencyStore \<Rightarrow> world \<Rightarrow> idempotencyEntry option \<times> idempotencyStore \<times> world" where
  "idem_find key i w =
    (case idem_lookup key i of
       None \<Rightarrow> (None, i, w)
     | Some entry \<Rightarrow>
         let (expired, w) = idem_expired entry w
         in if expired then (None, idem_evict key i, w) else (Some entry, i, w))"

type_synonym 'p handler = "Request \<Rightarrow> ('p, writer_call list) action"

definition new_responseRecorder :: responseRecorder where
  "new_responseRecorder = \<lparr>rr_statusCode = 200, rr_body = [], rr_wroteHeader = False\<rparr>"

definition idem_replay :: "idempotencyEntry \<Rightarrow> writer_call list" where
  "idem_replay entry =
    [Set_header ''Content-Type'' ''application/json'', Write_header (ie_statusCode entry), Write_body (ie_body entry)]"

definition idem_wrap :: "'p handler \<Rightarrow> (idempotencyStore \<times> 'p) handler" where
  "idem_wrap next_handler r st w =
    (let (i, p) = st; key = Header_Get ''Idempotency-Key'' r
     in if key = '''' then
          let (calls, p, w) = next_handler r p w in (calls, (i, p), w)
        else case rq_Body r of
          Inl err \<Rightarrow> (http_Error ''failed to read request body'' 400, (i, p), w)
        | Inr body \<Rightarrow>
            let r = r\<lparr>rq_Body := Inr body\<rparr>;
                hash = sha256_Sum256 body;
                (found, i, w) = idem_find key i w
            in case found of
                 Some entry \<Rightarrow>
                   if ie_requestHash entry \<noteq> hash
                   then (writeErrorMessage 409 ''conflict'' ''idempotency key reused with different request body'',
                         (i, p), w)
                   else (idem_replay entry, (i, p), w)
               | None \<Rightarrow>
                   let (calls, p, w) = next_handler r p w;
                       (rec, out) = record_calls responseRecorder_call calls new_responseRecorder;
                       (i, w) = idem_store key hash rec i w
                   in (out, (i, p), w))"

subsection \<open>What the middleware does\<close>

text \<open>The entry that counts for a key at a time.\<close>

definition idem_live :: "idempotencyStore \<Rightarrow> time \<Rightarrow> string \<rightharpoonup> idempotencyEntry" where
  "idem_live i now key =
    (case is_entries i key of
       None \<Rightarrow> None
     | Some e \<Rightarrow> if now - ie_createdAt e \<le> idempotencyTTL then Some e else None)"

lemma idem_expired_eq:
  "idem_expired e w = (idempotencyTTL < shd (clock w) - ie_createdAt e, w\<lparr>clock := stl (clock w)\<rparr>)"
  by (simp add: idem_expired_def time_Now_def time_Sub_greater_iff idempotencyTTL_def Hour_def
      min_int64_def max_int64_def)

lemma idem_find_eq:
  assumes "idem_find key i w = (found, i', w')"
  shows "found = idem_live i (shd (clock w)) key" and "clock_after w w'"
    and "is_entries i' = (if found = None then (is_entries i)(key := None) else is_entries i)"
  using assms
  by (auto simp: idem_find_def idem_lookup_def idem_live_def idem_evict_def fun_upd_idem idem_expired_eq
      intro: clock_after_refl clock_after_read split: option.splits if_splits)

text \<open>The three ways through the middleware when a key is given and the body can be read.\<close>

lemma idem_wrap_no_key:
  "Header_Get ''Idempotency-Key'' r = '''' \<Longrightarrow>
    idem_wrap h r (i, p) w = (case h r p w of (calls, p', w') \<Rightarrow> (calls, (i, p'), w'))"
  by (simp add: idem_wrap_def Let_def)

lemma idem_wrap_found:
  assumes "Header_Get ''Idempotency-Key'' r = key" "key \<noteq> ''''" "rq_Body r = Inr body"
    and "idem_live i (shd (clock w)) key = Some e"
  shows "\<exists>w'. idem_wrap h r (i, p) w =
    (if ie_requestHash e = sha256_Sum256 body then idem_replay e
     else writeErrorMessage 409 ''conflict'' ''idempotency key reused with different request body'', (i, p), w') \<and>
    clock_after w w'"
proof -
  obtain found i' w' where find: "idem_find key i w = (found, i', w')" by (metis prod.exhaust)
  note eq = idem_find_eq[OF find]
  from eq(1,3) assms(4) have "found = Some e" "i' = i" by (simp_all add: idempotencyStore.equality)
  with find assms eq(2) show ?thesis by (auto simp: idem_wrap_def)
qed

lemma idem_wrap_executes:
  assumes "Header_Get ''Idempotency-Key'' r = key" "key \<noteq> ''''" "rq_Body r = Inr body"
    and "idem_live i (shd (clock w)) key = None"
  obtains w1 calls p' w2 rec out where
    "clock_after w w1" "h r p w1 = (calls, p', w2)"
    "record_calls responseRecorder_call calls new_responseRecorder = (rec, out)"
    "idem_wrap h r (i, p) w =
      (out, (i\<lparr>is_entries := (is_entries i)(key \<mapsto> \<lparr>ie_requestHash = sha256_Sum256 body,
         ie_statusCode = rr_statusCode rec, ie_body = rr_body rec, ie_createdAt = shd (clock w2)\<rparr>)\<rparr>, p'),
       w2\<lparr>clock := stl (clock w2)\<rparr>)"
proof -
  obtain found i' w1 where find: "idem_find key i w = (found, i', w1)" by (metis prod.exhaust)
  note eq = idem_find_eq[OF find]
  from eq(1,3) assms(4) have found: "found = None" "is_entries i' = (is_entries i)(key := None)" by simp_all
  obtain calls p' w2 where h: "h r p w1 = (calls, p', w2)" by (metis prod.exhaust)
  obtain rec out where rec: "record_calls responseRecorder_call calls new_responseRecorder = (rec, out)"
    by (metis prod.exhaust)
  have r: "r\<lparr>rq_Body := Inr body\<rparr> = r" using assms(3) by (simp add: Request.equality)
  have i: "i'\<lparr>is_entries := (is_entries i')(key \<mapsto> e)\<rparr> = i\<lparr>is_entries := (is_entries i)(key \<mapsto> e)\<rparr>" for e
    using found(2) by (simp add: idempotencyStore.equality)
  show thesis
    by (rule that[OF eq(2) h rec])
      (simp add: idem_wrap_def assms find found(1) h rec idem_store_def time_Now_def i r)
qed

text \<open>
  Any requests through the middleware up to a time, for whatever handlers, with whatever else
  happening to the world and to the providers in between.
\<close>

inductive idem_until :: "time \<Rightarrow> idempotencyStore \<times> 'p \<Rightarrow> idempotencyStore \<times> 'p \<Rightarrow> bool" for T where
  until_refl: "idem_until T (i, p) (i, p')"
| until_step: "idem_until T st (i, p) \<Longrightarrow> shd (clock w) \<le> T \<Longrightarrow>
    idem_wrap (h :: 'p handler) r (i, p1) w = (calls, (i', p2), w') \<Longrightarrow> idem_until T st (i', p')"

lemma idem_wrap_keeps:
  assumes entry: "is_entries i key = Some e" and time: "shd (clock w) \<le> ie_createdAt e + idempotencyTTL"
    and call: "idem_wrap h r (i, p) w = (calls, (i', p'), w')"
  shows "is_entries i' key = Some e"
proof -
  have live: "idem_live i (shd (clock w)) key = Some e" using entry time by (simp add: idem_live_def)
  let ?k = "Header_Get ''Idempotency-Key'' r"
  consider (none) "?k = ''''" | (unread) err where "?k \<noteq> ''''" "rq_Body r = Inl err"
    | (keyed) body where "?k \<noteq> ''''" "rq_Body r = Inr body" by (cases "rq_Body r") auto
  then show ?thesis
  proof cases
    case none
    with call entry show ?thesis by (auto simp: idem_wrap_no_key split: prod.splits)
  next
    case unread
    with call entry show ?thesis by (simp add: idem_wrap_def)
  next
    case keyed
    show ?thesis
    proof (cases "idem_live i (shd (clock w)) ?k")
      case None
      then have "?k \<noteq> key" using live by auto
      obtain out e1 p2 w2 where "idem_wrap h r (i, p) w = (out, (i\<lparr>is_entries := (is_entries i)(?k \<mapsto> e1)\<rparr>, p2), w2)"
        by (rule idem_wrap_executes[OF refl keyed None, of h p])
      with call \<open>?k \<noteq> key\<close> entry show ?thesis by auto
    next
      case (Some e')
      from idem_wrap_found[OF refl keyed Some, of h p] call entry show ?thesis by auto
    qed
  qed
qed

lemma idem_until_keeps:
  "idem_until T st st' \<Longrightarrow> is_entries (fst st) key = Some e \<Longrightarrow> T \<le> ie_createdAt e + idempotencyTTL \<Longrightarrow>
    is_entries (fst st') key = Some e"
proof (induction rule: idem_until.induct)
  case (until_step st i p w h r p1 calls i' p2 w' p')
  then have "is_entries i key = Some e" "shd (clock w) \<le> ie_createdAt e + idempotencyTTL" by simp_all
  from idem_wrap_keeps[OF this until_step.hyps(3)] show ?case by simp
qed simp

lemma idem_recorded:
  assumes "record_calls responseRecorder_call calls new_responseRecorder = (rec, out)" and "status_first calls"
  shows "response out = response calls" and "rr_body rec = re_Body (response calls)"
    and "rr_statusCode rec = status_of calls"
proof -
  show "response out = response calls" unfolding response_def
    using record_response[OF assms(1), of no_response] by (simp add: new_responseRecorder_def)
  show "rr_body rec = re_Body (response calls)" unfolding response_def
    using recorded_body[OF assms(1), of no_response] by (simp add: new_responseRecorder_def no_response_def)
  show "rr_statusCode rec = status_of calls" unfolding response_def status_of_def
    using recorded_code(1)[OF assms(1), of no_response] assms(2)
    by (simp add: new_responseRecorder_def no_response_def)
qed

subsection \<open>Properties\<close>

text \<open>
  C2: Exactly once: after a request with a fresh key was executed, every request with the same key
  in the next 24 hours, whatever other requests come in between and whatever handler it is for,
  leaves providers and store alone. If its body has the same SHA-256 digest it gets a response with
  the status and the body of the first one, as JSON; otherwise it gets status 409.
\<close>

theorem idem_exactly_once:
  assumes "key \<noteq> ''''" and "Header_Get ''Idempotency-Key'' r = key" and "rq_Body r = Inr body"
    and "idem_live i (shd (clock w)) key = None" and "\<And>r p w. status_first (fst (h r p w))"
    and "idem_wrap h r (i, p) w = (calls, (i1, p1), w1)"
    and "idem_until T (i1, p1) (i2, p2)" and "T \<le> ie_createdAt (the (is_entries i1 key)) + idempotencyTTL"
    and "Header_Get ''Idempotency-Key'' r2 = key" and "rq_Body r2 = Inr body2" and "shd (clock w2) \<le> T"
  shows "\<exists>calls2 w3. idem_wrap h2 r2 (i2, p2) w2 = (calls2, (i2, p2), w3) \<and>
    (if sha256_Sum256 body2 = sha256_Sum256 body
     then status_of calls2 = status_of calls \<and> re_Body (response calls2) = re_Body (response calls) \<and>
       re_Header (response calls2) = [''Content-Type'' \<mapsto> ''application/json'']
     else status_of calls2 = 409)"
proof -
  obtain w' hcalls p' wh rec out where h: "h r p w' = (hcalls, p', wh)"
    "record_calls responseRecorder_call hcalls new_responseRecorder = (rec, out)"
    and wrap: "idem_wrap h r (i, p) w =
      (out, (i\<lparr>is_entries := (is_entries i)(key \<mapsto> \<lparr>ie_requestHash = sha256_Sum256 body,
         ie_statusCode = rr_statusCode rec, ie_body = rr_body rec, ie_createdAt = shd (clock wh)\<rparr>)\<rparr>, p'),
       wh\<lparr>clock := stl (clock wh)\<rparr>)"
    by (rule idem_wrap_executes[OF assms(2,1,3,4), of h p])
  from wrap assms(6) have out: "out = calls" and i1: "i1 = i\<lparr>is_entries := (is_entries i)(key \<mapsto>
      \<lparr>ie_requestHash = sha256_Sum256 body, ie_statusCode = rr_statusCode rec, ie_body = rr_body rec,
       ie_createdAt = shd (clock wh)\<rparr>)\<rparr>" by simp_all
  have first: "status_first hcalls" using assms(5)[of r p w'] h(1) by simp
  note rec = idem_recorded[OF h(2)[unfolded out] first]
  let ?e = "the (is_entries i1 key)"
  have e: "is_entries i1 key = Some ?e" "ie_requestHash ?e = sha256_Sum256 body"
    "ie_statusCode ?e = status_of calls" "ie_body ?e = re_Body (response calls)"
    using rec by (simp_all add: i1 status_of_def)
  from idem_until_keeps[OF assms(7), of key ?e] e(1) assms(8,11)
  have "idem_live i2 (shd (clock w2)) key = Some ?e"
    by (cases "is_entries i1 key") (simp_all add: idem_live_def)
  from idem_wrap_found[OF assms(9,1,10) this, of h2 p2] e show ?thesis
    by (auto simp: idem_replay_def writeErrorMessage_def)
qed

text \<open>For concrete runs: a request with a key and a handler that counts its executions.\<close>

definition keyed_request :: "string \<Rightarrow> bytes \<Rightarrow> Request" where
  "keyed_request key body = \<lparr>rq_Method = ''POST'', rq_Path = ''/'', rq_RawQuery = '''',
     rq_Header = [(''Idempotency-Key'', key)], rq_Body = Inr body, rq_PathValues = []\<rparr>"

definition counting :: "nat handler" where
  "counting r n w = ([Write_header 202, Write_body [of_nat n]], Suc n, w)"

lemma keyed_request_simps [simp]:
  "Header_Get ''Idempotency-Key'' (keyed_request key body) = key" "rq_Body (keyed_request key body) = Inr body"
  by (simp_all add: keyed_request_def Header_Get_def)

lemma idem_live_new [simp]: "idem_live newIdempotencyStore t key = None"
  by (simp add: idem_live_def newIdempotencyStore_def)

lemma counting_simps:
  "fst (counting r n w) = [Write_header 202, Write_body [of_nat n]]" "fst (snd (counting r n w)) = Suc n"
  "status_first (fst (counting r n w))"
  by (simp_all add: counting_def)

theorem idem_exactly_once_witness:
  "\<exists>calls i1 w1 calls2 w3.
     idem_wrap counting (keyed_request ''k'' [7]) (newIdempotencyStore, 0) (clock_world (sconst 5)) = (calls, (i1, 1), w1) \<and>
     idem_wrap counting (keyed_request ''k'' [7]) (i1, 1) (clock_world (sconst 6)) = (calls2, (i1, 1), w3) \<and>
     status_of calls2 = status_of calls"
proof -
  let ?r = "keyed_request ''k'' [7]" and ?w = "clock_world (sconst 5)"
  obtain calls i1 w1 where first: "idem_wrap counting ?r (newIdempotencyStore, 0) ?w = (calls, (i1, 1), w1)"
    and created: "ie_createdAt (the (is_entries i1 ''k'')) = 5"
    by (simp add: idem_wrap_def idem_find_def idem_lookup_def newIdempotencyStore_def counting_def
        idem_store_def time_Now_def new_responseRecorder_def)
  have "6 \<le> ie_createdAt (the (is_entries i1 ''k'')) + idempotencyTTL"
    by (simp add: created idempotencyTTL_def Hour_def)
  from idem_exactly_once[of "''k''" ?r "[7]" newIdempotencyStore ?w counting 0 calls i1 1 w1 6 i1 1 ?r "[7]"
      "clock_world (sconst 6)" counting] this first
  have "\<exists>calls2 w3. idem_wrap counting ?r (i1, 1) (clock_world (sconst 6)) = (calls2, (i1, 1), w3) \<and>
      status_of calls2 = status_of calls"
    by (auto simp: counting_simps until_refl)
  with first show ?thesis by blast
qed

text \<open>
  The first request is served as if the middleware were not there: with no key, or with a key
  that has no live entry, the handler runs on the unchanged request and providers, and the client
  gets the handler's own response.
\<close>

lemma idem_transparent:
  assumes "rq_Body r = Inr body" and "\<And>r p w. status_first (fst (h r p w))"
    and "idem_live i (shd (clock w)) (Header_Get ''Idempotency-Key'' r) = None \<or> Header_Get ''Idempotency-Key'' r = ''''"
  shows "\<exists>w1 out i' w'. clock_after w w1 \<and>
    idem_wrap h r (i, p) w = (out, (i', fst (snd (h r p w1))), w') \<and> response out = response (fst (h r p w1))"
proof (cases "Header_Get ''Idempotency-Key'' r = ''''")
  case True
  then show ?thesis
    by (intro exI[of _ w]) (auto simp: idem_wrap_no_key clock_after_refl split: prod.splits)
next
  case False
  with assms(3) have "idem_live i (shd (clock w)) (Header_Get ''Idempotency-Key'' r) = None" by simp
  then obtain w1 calls p' w2 rec out i' w' where "clock_after w w1" and h: "h r p w1 = (calls, p', w2)"
    and rec: "record_calls responseRecorder_call calls new_responseRecorder = (rec, out)"
    and call: "idem_wrap h r (i, p) w = (out, (i', p'), w')"
    by (rule idem_wrap_executes[OF refl False assms(1), of i w h p])
  moreover have "response out = response calls"
    using idem_recorded(1)[OF rec] assms(2)[of r p w1] h by simp
  ultimately show ?thesis by (intro exI[of _ w1]) auto
qed

end
