(* ===== verification/Api_Service.thy ===== *)
theory Api_Service
  imports Mem_State Mem_Queue
begin

text \<open>
  \<^verbatim>\<open>src/api/service.go\<close>: the business logic of the control plane. A service holds a state store and a work
  queue as interface values; its methods act on the pair of their states. What the methods promise
  is proved from the state store contract alone, so it holds for every store that meets it.
\<close>

subsection \<open>The service and its methods\<close>

record ('s, 'q) Service =
  sv_state :: "'s StateStore"
  sv_queue :: "'q WorkQueue"

definition Service_New :: "'s StateStore \<Rightarrow> 'q WorkQueue \<Rightarrow> ('s, 'q) Service" where
  "Service_New st qu = \<lparr>sv_state = st, sv_queue = qu\<rparr>"

text \<open>A call of the state store from the service.\<close>

definition on_state :: "('s, 'a) action \<Rightarrow> ('s \<times> 'q, 'a) action" where
  "on_state act p w = (let (r, s, w) = act (fst p) w in (r, (s, snd p), w))"

definition Service_CreateVM :: "('s, 'q) Service \<Rightarrow> VMSpec \<Rightarrow> ('s \<times> 'q, string result) action" where
  "Service_CreateVM svc spec p w =
    (let (r, p, w) = on_state (ss_CreateVM (sv_state svc) spec) p w
     in case r of
          Inl err \<Rightarrow> (Inl err, p, w)
        | Inr vid \<Rightarrow>
            let (_, p, w) = on_state (ss_AppendEvent (sv_state svc)
                  (zero_Event\<lparr>ev_VMID := vid, ev_Type := ''vm.created''\<rparr>)) p w
            in (Inr vid, p, w))"

definition Service_GetVM :: "('s, 'q) Service \<Rightarrow> string \<Rightarrow> ('s \<times> 'q, VM result) action" where
  "Service_GetVM svc vmID = on_state (ss_GetVM (sv_state svc) vmID)"

definition Service_StopVM :: "('s, 'q) Service \<Rightarrow> string \<Rightarrow> ('s \<times> 'q, unit result) action" where
  "Service_StopVM svc vmID p w =
    (let (r, p, w) = on_state (ss_UpdateVMDesiredState (sv_state svc) vmID DesiredStopped) p w
     in case r of
          Inl err \<Rightarrow> (Inl err, p, w)
        | Inr _ \<Rightarrow>
            let (_, p, w) = on_state (ss_AppendEvent (sv_state svc)
                  (zero_Event\<lparr>ev_VMID := vmID, ev_Type := ''vm.stop_requested''\<rparr>)) p w
            in (Inr (), p, w))"

definition Service_DeleteVM :: "('s, 'q) Service \<Rightarrow> string \<Rightarrow> ('s \<times> 'q, unit result) action" where
  "Service_DeleteVM svc vmID p w =
    (let (r, p, w) = on_state (ss_UpdateVMDesiredState (sv_state svc) vmID DesiredDeleted) p w
     in case r of
          Inl err \<Rightarrow> (Inl err, p, w)
        | Inr _ \<Rightarrow>
            let (_, p, w) = on_state (ss_AppendEvent (sv_state svc)
                  (zero_Event\<lparr>ev_VMID := vmID, ev_Type := ''vm.delete_requested''\<rparr>)) p w
            in (Inr (), p, w))"

definition Service_RegisterController :: "('s, 'q) Service \<Rightarrow> Controller \<Rightarrow> ('s \<times> 'q, unit result) action" where
  "Service_RegisterController svc c = on_state (ss_RegisterController (sv_state svc) c)"

definition Service_Heartbeat :: "('s, 'q) Service \<Rightarrow> string \<Rightarrow> Heartbeat \<Rightarrow> ('s \<times> 'q, unit result) action" where
  "Service_Heartbeat svc controllerID hb = on_state (ss_UpdateControllerHeartbeat (sv_state svc) controllerID hb)"

definition defaultListLimit :: int where "defaultListLimit = 100"
definition maxListLimit :: int where "maxListLimit = 1000"

definition clampLimit :: "int \<Rightarrow> int" where
  "clampLimit limit =
    (if limit \<le> 0 then defaultListLimit
     else if maxListLimit < limit then maxListLimit
     else limit)"

definition Service_ListControllers ::
    "('s, 'q) Service \<Rightarrow> ControllerFilter \<Rightarrow> ('s \<times> 'q, Controller list result) action" where
  "Service_ListControllers svc flt =
    (let flt = flt\<lparr>cf_Limit := clampLimit (cf_Limit flt)\<rparr>
     in on_state (ss_ListControllers (sv_state svc) flt))"

definition Service_ListEvents ::
    "('s, 'q) Service \<Rightarrow> EventFilter \<Rightarrow> ('s \<times> 'q, Event list result) action" where
  "Service_ListEvents svc flt =
    (let flt = flt\<lparr>ef_Limit := clampLimit (ef_Limit flt)\<rparr>
     in on_state (ss_ListEvents (sv_state svc) flt))"

subsection \<open>Histories of requests\<close>

text \<open>
  The requests of API clients, and the two calls by which controllers and the scheduler change VM
  records directly in the store.
\<close>

datatype service_call =
  Create_VM VMSpec
| Get_VM string
| Stop_VM string
| Delete_VM string
| Register_ctrl Controller
| Heartbeat_ctrl string Heartbeat
| List_ctrls ControllerFilter
| List_evs EventFilter
| Observe_VM string ObservedState string
| Assign_VM string string

fun service_do :: "('s, 'q) Service \<Rightarrow> service_call \<Rightarrow> 's \<times> 'q \<Rightarrow> world \<Rightarrow> ('s \<times> 'q) \<times> world" where
  "service_do svc (Create_VM spec) p w = snd (Service_CreateVM svc spec p w)"
| "service_do svc (Get_VM vid) p w = snd (Service_GetVM svc vid p w)"
| "service_do svc (Stop_VM vid) p w = snd (Service_StopVM svc vid p w)"
| "service_do svc (Delete_VM vid) p w = snd (Service_DeleteVM svc vid p w)"
| "service_do svc (Register_ctrl c) p w = snd (Service_RegisterController svc c p w)"
| "service_do svc (Heartbeat_ctrl cid hb) p w = snd (Service_Heartbeat svc cid hb p w)"
| "service_do svc (List_ctrls flt) p w = snd (Service_ListControllers svc flt p w)"
| "service_do svc (List_evs flt) p w = snd (Service_ListEvents svc flt p w)"
| "service_do svc (Observe_VM vid ob cid) p w =
    snd (on_state (ss_UpdateVMObservedState (sv_state svc) vid ob cid) p w)"
| "service_do svc (Assign_VM vid cid) p w = snd (on_state (ss_AssignVM (sv_state svc) vid cid) p w)"

fun service_run :: "('s, 'q) Service \<Rightarrow> service_call list \<Rightarrow> 's \<times> 'q \<Rightarrow> world \<Rightarrow> ('s \<times> 'q) \<times> world" where
  "service_run svc [] p w = (p, w)"
| "service_run svc (call # calls) p w = (let (p, w) = service_do svc call p w in service_run svc calls p w)"

text \<open>
  The event log as a record of decisions: what a VM's desired state must be according to its events.
\<close>

definition replay_event :: "string \<Rightarrow> Event \<Rightarrow> DesiredState option \<Rightarrow> DesiredState option" where
  "replay_event vid e d =
    (if ev_VMID e \<noteq> vid then d
     else if ev_Type e = ''vm.created'' then Some DesiredRunning
     else if ev_Type e = ''vm.stop_requested'' then Some DesiredStopped
     else if ev_Type e = ''vm.delete_requested'' then Some DesiredDeleted
     else d)"

definition replay :: "string \<Rightarrow> Event list \<Rightarrow> DesiredState option" where
  "replay vid evs = fold (replay_event vid) evs None"

definition in_sync :: "cp_view \<Rightarrow> bool" where
  "in_sync v \<longleftrightarrow> (\<forall>vid. replay vid (cp_log v) = map_option vm_DesiredState (cp_vms v vid))"

text \<open>\<^verbatim>\<open>StopVM\<close> and \<^verbatim>\<open>DeleteVM\<close> are the same code with another desired state and event type.\<close>

definition desire :: "'s StateStore \<Rightarrow> DesiredState \<Rightarrow> string \<Rightarrow> string \<Rightarrow> ('s \<times> 'q, unit result) action" where
  "desire st d ty vid p w =
    (let (r, p, w) = on_state (ss_UpdateVMDesiredState st vid d) p w
     in case r of
          Inl err \<Rightarrow> (Inl err, p, w)
        | Inr _ \<Rightarrow>
            let (_, p, w) = on_state (ss_AppendEvent st (zero_Event\<lparr>ev_VMID := vid, ev_Type := ty\<rparr>)) p w
            in (Inr (), p, w))"

lemma Service_New_simps [simp]: "sv_state (Service_New st qu) = st" "sv_queue (Service_New st qu) = qu"
  by (simp_all add: Service_New_def)

lemma desire_eq:
  "Service_StopVM (Service_New st qu) vid p w = desire st DesiredStopped ''vm.stop_requested'' vid p w"
  "Service_DeleteVM (Service_New st qu) vid p w = desire st DesiredDeleted ''vm.delete_requested'' vid p w"
  unfolding Service_StopVM_def Service_DeleteVM_def desire_def Service_New_simps by (rule refl)+

lemma replay_snoc: "replay vid (evs @ [e]) = replay_event vid e (replay vid evs)"
  by (simp add: replay_def)

lemma in_sync_append:
  assumes "in_sync v" and "v' = v\<lparr>cp_vms := (cp_vms v)(vid \<mapsto> vm), cp_log := cp_log v @ [ev]\<rparr>"
    and "ev_VMID ev = vid" and "\<And>d. replay_event vid ev d = Some (vm_DesiredState vm)"
  shows "in_sync v'"
  using assms by (auto simp: in_sync_def replay_snoc) (simp add: replay_event_def)

text \<open>Two views that agree on the log and on the desired state of every VM.\<close>

definition same_decisions :: "cp_view \<Rightarrow> cp_view \<Rightarrow> bool" where
  "same_decisions v v' \<longleftrightarrow> cp_log v' = cp_log v \<and>
     (\<forall>vid. map_option vm_DesiredState (cp_vms v' vid) = map_option vm_DesiredState (cp_vms v vid))"

lemma same_decisions_refl [simp]: "same_decisions v v"
  by (simp add: same_decisions_def)

lemma same_decisions_ctrls [simp]: "same_decisions v (v\<lparr>cp_ctrls := cs\<rparr>)"
  by (simp add: same_decisions_def)

lemma same_decisions_update [simp]:
  "cp_vms v vid = Some vm \<Longrightarrow> vm_DesiredState vm' = vm_DesiredState vm \<Longrightarrow>
    same_decisions v (v\<lparr>cp_vms := (cp_vms v)(vid \<mapsto> vm')\<rparr>)"
  by (simp add: same_decisions_def)

lemma in_sync_same: "same_decisions v v' \<Longrightarrow> in_sync v' = in_sync v"
  by (simp add: same_decisions_def in_sync_def)

fun decides :: "service_call \<Rightarrow> bool" where
  "decides (Create_VM spec) = True"
| "decides (Stop_VM vid) = True"
| "decides (Delete_VM vid) = True"
| "decides _ = False"

lemma clampLimit_bounds: "1 \<le> clampLimit n" "clampLimit n \<le> 1000"
  by (simp_all add: clampLimit_def defaultListLimit_def maxListLimit_def)

lemma on_stateE:
  assumes "on_state act p w = (r, p', w')"
  obtains s' where "act (fst p) w = (r, s', w')" "p' = (s', snd p)"
  using assms by (auto simp: on_state_def Let_def split: prod.splits)

subsection \<open>What the methods promise, for every store that meets the contract\<close>

context reliable_state_store
begin

lemma append_event:
  assumes "inv s"
  shows "\<exists>s' w' ev'. ss_AppendEvent ops ev s w = (Inr (), s', w') \<and> inv s' \<and> completes ev ev' \<and>
    view s' = (view s)\<lparr>cp_log := cp_log (view s) @ [ev']\<rparr>"
  using append_total[OF assms, of ev w] append_ok[OF assms] by blast

lemma service_create:
  assumes inv: "inv (fst p)" and call: "Service_CreateVM (Service_New ops qops) spec p w = (r, p', w')"
  shows "snd p' = snd p \<and> inv (fst p') \<and>
    (case r of
       Inl e \<Rightarrow> view (fst p') = view (fst p)
     | Inr vid \<Rightarrow> vid \<noteq> '''' \<and> (\<exists>vm ev. fresh_vm vid spec vm \<and> ev_VMID ev = vid \<and> ev_Type ev = ''vm.created'' \<and>
         view (fst p') = (view (fst p))\<lparr>cp_vms := (cp_vms (view (fst p)))(vid \<mapsto> vm),
           cp_log := cp_log (view (fst p)) @ [ev]\<rparr>))"
proof -
  obtain r1 s1 w1 where c: "ss_CreateVM ops spec (fst p) w = (r1, s1, w1)" by (metis prod.exhaust)
  show ?thesis
  proof (cases r1)
    case (Inl e)
    with c call create_err[OF inv] show ?thesis
      by (auto simp: Service_CreateVM_def Service_New_def on_state_def)
  next
    case (Inr vid)
    with create_ok[OF inv] c obtain vm where inv1: "inv s1" "vid \<noteq> ''''" and vm: "fresh_vm vid spec vm"
      "view s1 = (view (fst p))\<lparr>cp_vms := (cp_vms (view (fst p)))(vid \<mapsto> vm)\<rparr>" by blast
    let ?ev = "zero_Event\<lparr>ev_VMID := vid, ev_Type := ''vm.created''\<rparr>"
    from append_event[OF inv1(1), of ?ev w1] obtain s2 w2 ev where a: "ss_AppendEvent ops ?ev s1 w1 = (Inr (), s2, w2)"
      "inv s2" "completes ?ev ev" "view s2 = (view s1)\<lparr>cp_log := cp_log (view s1) @ [ev]\<rparr>" by blast
    from c Inr a(1) call have "r = Inr vid" "p' = (s2, snd p)"
      by (auto simp: Service_CreateVM_def Service_New_def on_state_def)
    with inv1 vm a completesD[OF a(3)] show ?thesis by auto
  qed
qed

lemma service_desire:
  assumes inv: "inv (fst p)" and call: "desire ops d ty vid p w = (r, p', w')"
  shows "snd p' = snd p \<and> inv (fst p') \<and>
    (case r of
       Inl e \<Rightarrow> view (fst p') = view (fst p)
     | Inr _ \<Rightarrow> (\<exists>vm t ev. cp_vms (view (fst p)) vid = Some vm \<and> ev_VMID ev = vid \<and> ev_Type ev = ty \<and>
         view (fst p') = (view (fst p))\<lparr>cp_vms := (cp_vms (view (fst p)))(vid \<mapsto>
             vm\<lparr>vm_DesiredState := d, vm_UpdatedAt := t\<rparr>), cp_log := cp_log (view (fst p)) @ [ev]\<rparr>)) \<and>
    (cp_vms (view (fst p)) vid = None \<longrightarrow> (\<exists>e. r = Inl e \<and> errors_Is e ErrNotFound))"
proof -
  obtain r1 s1 w1 where c: "ss_UpdateVMDesiredState ops vid d (fst p) w = (r1, s1, w1)" by (metis prod.exhaust)
  show ?thesis
  proof (cases r1)
    case (Inl e)
    with c call desired_err[OF inv] desired_missing[OF inv, of vid d w] show ?thesis
      by (fastforce simp: desire_def on_state_def)
  next
    case (Inr u)
    with desired_ok[OF inv] c obtain vm t where inv1: "inv s1" and vm: "cp_vms (view (fst p)) vid = Some vm"
      "view s1 = (view (fst p))\<lparr>cp_vms := (cp_vms (view (fst p)))(vid \<mapsto>
         vm\<lparr>vm_DesiredState := d, vm_UpdatedAt := t\<rparr>)\<rparr>" by blast
    let ?ev = "zero_Event\<lparr>ev_VMID := vid, ev_Type := ty\<rparr>"
    from append_event[OF inv1, of ?ev w1] obtain s2 w2 ev where a: "ss_AppendEvent ops ?ev s1 w1 = (Inr (), s2, w2)"
      "inv s2" "completes ?ev ev" "view s2 = (view s1)\<lparr>cp_log := cp_log (view s1) @ [ev]\<rparr>" by blast
    from c Inr a(1) call have "r = Inr ()" "p' = (s2, snd p)" by (auto simp: desire_def on_state_def)
    with vm a completesD[OF a(3)] show ?thesis by auto
  qed
qed

text \<open>The calls that decide about VMs append to the log; all others leave log and desired states alone.\<close>

lemma service_frame:
  assumes inv: "inv (fst p)" and other: "\<not> decides call"
    and step: "service_do (Service_New ops qops) call p w = (p', w')"
  shows "inv (fst p') \<and> snd p' = snd p \<and> same_decisions (view (fst p)) (view (fst p'))"
proof -
  have lift: ?thesis if call: "snd (on_state act p w) = (p', w')"
    and keep: "\<And>r s'. act (fst p) w = (r, s', w') \<Longrightarrow> inv s' \<and> same_decisions (view (fst p)) (view s')"
    for act :: "('a, 'x) action"
  proof -
    obtain r s' where a: "act (fst p) w = (r, s', w')" and p': "p' = (s', snd p)"
      using call by (auto simp: on_state_def Let_def split: prod.splits)
    from keep[OF a] p' show ?thesis by simp
  qed
  show ?thesis
  proof (cases call)
    case (Get_VM vid)
    with step have "snd (on_state (ss_GetVM ops vid) p w) = (p', w')" by (simp add: Service_GetVM_def)
    then show ?thesis by (rule lift) (use get_view[OF inv] in fastforce)
  next
    case (Register_ctrl c)
    with step have "snd (on_state (ss_RegisterController ops c) p w) = (p', w')"
      by (simp add: Service_RegisterController_def)
    then show ?thesis
    proof (rule lift)
      fix r s' assume "ss_RegisterController ops c (fst p) w = (r, s', w')"
      then show "inv s' \<and> same_decisions (view (fst p)) (view s')"
        using register_ok[OF inv] register_err[OF inv] by (cases r) fastforce+
    qed
  next
    case (Heartbeat_ctrl cid hb)
    with step have "snd (on_state (ss_UpdateControllerHeartbeat ops cid hb) p w) = (p', w')"
      by (simp add: Service_Heartbeat_def)
    then show ?thesis
    proof (rule lift)
      fix r s' assume "ss_UpdateControllerHeartbeat ops cid hb (fst p) w = (r, s', w')"
      then show "inv s' \<and> same_decisions (view (fst p)) (view s')"
        using heartbeat_ok[OF inv] heartbeat_err[OF inv] by (cases r) fastforce+
    qed
  next
    case (List_ctrls flt)
    with step have "snd (on_state (ss_ListControllers ops (flt\<lparr>cf_Limit := clampLimit (cf_Limit flt)\<rparr>)) p w) = (p', w')"
      by (simp add: Service_ListControllers_def)
    then show ?thesis by (rule lift) (use controllers_view[OF inv] in fastforce)
  next
    case (List_evs flt)
    with step have "snd (on_state (ss_ListEvents ops (flt\<lparr>ef_Limit := clampLimit (ef_Limit flt)\<rparr>)) p w) = (p', w')"
      by (simp add: Service_ListEvents_def)
    then show ?thesis by (rule lift) (use events_view[OF inv] in fastforce)
  next
    case (Observe_VM vid ob cid)
    with step have "snd (on_state (ss_UpdateVMObservedState ops vid ob cid) p w) = (p', w')" by simp
    then show ?thesis
    proof (rule lift)
      fix r s' assume "ss_UpdateVMObservedState ops vid ob cid (fst p) w = (r, s', w')"
      then show "inv s' \<and> same_decisions (view (fst p)) (view s')"
        using observed_ok[OF inv] observed_err[OF inv] by (cases r) fastforce+
    qed
  next
    case (Assign_VM vid cid)
    with step have "snd (on_state (ss_AssignVM ops vid cid) p w) = (p', w')" by simp
    then show ?thesis
    proof (rule lift)
      fix r s' assume "ss_AssignVM ops vid cid (fst p) w = (r, s', w')"
      then show "inv s' \<and> same_decisions (view (fst p)) (view s')"
        using assign_ok[OF inv] assign_err[OF inv] by (cases r) fastforce+
    qed
  qed (use other in simp_all)
qed

lemma service_step:
  assumes inv: "inv (fst p)" and sync: "in_sync (view (fst p))"
    and step: "service_do (Service_New ops qops) call p w = (p', w')"
  shows "inv (fst p') \<and> in_sync (view (fst p')) \<and> snd p' = snd p"
proof (cases "decides call")
  case False
  from service_frame[OF inv this step] sync show ?thesis using in_sync_same by blast
next
  case True
  let ?svc = "Service_New ops qops"
  from True show ?thesis
  proof (cases call)
    case (Create_VM spec)
    with step obtain r where call: "Service_CreateVM ?svc spec p w = (r, p', w')"
      by (cases "Service_CreateVM ?svc spec p w") auto
    from service_create[OF inv this] show ?thesis
      by (auto simp: sync fresh_vm_def replay_event_def split: sum.splits intro!: in_sync_append[OF sync])
  next
    case (Stop_VM vid)
    with step obtain r where "desire ops DesiredStopped ''vm.stop_requested'' vid p w = (r, p', w')"
      by (cases "desire ops DesiredStopped ''vm.stop_requested'' vid p w") (auto simp: desire_eq)
    from service_desire[OF inv this] show ?thesis
      by (auto simp: sync replay_event_def split: sum.splits intro!: in_sync_append[OF sync])
  next
    case (Delete_VM vid)
    with step obtain r where "desire ops DesiredDeleted ''vm.delete_requested'' vid p w = (r, p', w')"
      by (cases "desire ops DesiredDeleted ''vm.delete_requested'' vid p w") (auto simp: desire_eq)
    from service_desire[OF inv this] show ?thesis
      by (auto simp: sync replay_event_def split: sum.splits intro!: in_sync_append[OF sync])
  qed simp_all
qed

lemma service_history:
  "inv (fst p) \<Longrightarrow> in_sync (view (fst p)) \<Longrightarrow> service_run (Service_New ops qops) calls p w = (p', w') \<Longrightarrow>
    inv (fst p') \<and> in_sync (view (fst p')) \<and> snd p' = snd p"
proof (induction calls arbitrary: p w)
  case (Cons call calls)
  obtain p1 w1 where step: "service_do (Service_New ops qops) call p w = (p1, w1)" by (metis prod.exhaust)
  with Cons.prems(3) have "service_run (Service_New ops qops) calls p1 w1 = (p', w')" by simp
  with service_step[OF Cons.prems(1,2) step] Cons.IH[of p1 w1] show ?case by simp
qed simp

lemma service_events:
  assumes "inv (fst p)" and "Service_ListEvents (Service_New ops qops) flt p w = (Inr evs, p', w')"
  shows "evs = take (nat (clampLimit (ef_Limit flt))) (filter (event_matches flt) (cp_log (view (fst p))))"
proof -
  let ?flt = "flt\<lparr>ef_Limit := clampLimit (ef_Limit flt)\<rparr>"
  from assms(2) obtain s' where "ss_ListEvents ops ?flt (fst p) w = (Inr evs, s', w')"
    by (auto simp: Service_ListEvents_def elim!: on_stateE)
  from events_ok[OF assms(1) this] clampLimit_bounds(1)[of "ef_Limit flt"] show ?thesis
    by (simp add: limited_def event_matches_def[abs_def])
qed

lemma service_controllers:
  assumes "inv (fst p)" and "Service_ListControllers (Service_New ops qops) flt p w = (Inr cs, p', w')"
  shows "distinct cs \<and> set cs \<subseteq> {c \<in> ran (cp_ctrls (view (fst p))). controller_matches flt c} \<and>
    int (length cs) = min (clampLimit (cf_Limit flt))
      (int (card {k \<in> dom (cp_ctrls (view (fst p))). controller_matches flt (the (cp_ctrls (view (fst p)) k))}))"
proof -
  let ?flt = "flt\<lparr>cf_Limit := clampLimit (cf_Limit flt)\<rparr>"
  from assms(2) obtain s' where "ss_ListControllers ops ?flt (fst p) w = (Inr cs, s', w')"
    by (auto simp: Service_ListControllers_def elim!: on_stateE)
  from controllers_ok[OF assms(1) this] clampLimit_bounds(1)[of "cf_Limit flt"] show ?thesis
    by (simp add: controller_matches_def[abs_def] Let_def)
qed

end

subsection \<open>The service of the running program\<close>

text \<open>\<^verbatim>\<open>src/cmd/flames-api/main.go\<close> injects the in-memory providers.\<close>

definition flames_service :: "(memstate, memqueue) Service" where
  "flames_service = Service_New memstate_ops memqueue_ops"

lemma memstate_view_eqD:
  assumes "memstate_view s' = (memstate_view s)\<lparr>cp_vms := m, cp_log := l\<rparr>"
  shows "ms_vms s' = m" "ms_events s' = l" "ms_controllers s' = ms_controllers s"
  using assms by (simp_all add: memstate_view_def)

lemma memstate_desire:
  assumes "memstate_inv s"
  shows "case ms_vms s vid of
      None \<Rightarrow> desire memstate_ops d ty vid (s, q) w = (Inl (NotFound ''vm'' vid), (s, q), w)
    | Some vm \<Rightarrow> \<exists>s' w' t ev. desire memstate_ops d ty vid (s, q) w = (Inr (), (s', q), w') \<and>
        ms_vms s' = (ms_vms s)(vid \<mapsto> vm\<lparr>vm_DesiredState := d, vm_UpdatedAt := t\<rparr>) \<and>
        ms_controllers s' = ms_controllers s \<and> ms_events s' = ms_events s @ [ev] \<and>
        ev_VMID ev = vid \<and> ev_Type ev = ty"
proof -
  obtain r p' w' where call: "desire memstate_ops d ty vid (s, q) w = (r, p', w')" by (metis prod.exhaust)
  have inv: "memstate_inv (fst (s, q))" using assms by simp
  note spec = memstate.service_desire[OF inv call]
  show ?thesis
  proof (cases "ms_vms s vid")
    case None
    then show ?thesis by (simp add: desire_def on_state_def memstate_ops_def memstate_UpdateVMDesiredState_def)
  next
    case (Some vm)
    then obtain u where "r = Inr u" using call
      by (auto simp: desire_def on_state_def memstate_ops_def memstate_UpdateVMDesiredState_def Let_def
          split: prod.splits)
    with spec Some obtain t ev where eq: "memstate_view (fst p') = (memstate_view s)\<lparr>cp_vms := (ms_vms s)(vid \<mapsto>
        vm\<lparr>vm_DesiredState := d, vm_UpdatedAt := t\<rparr>), cp_log := ms_events s @ [ev]\<rparr>"
      "ev_VMID ev = vid" "ev_Type ev = ty" "snd p' = q" by auto
    from memstate_view_eqD[OF eq(1)] eq(2-4) call \<open>r = Inr u\<close> Some show ?thesis
      by (cases p') (auto intro!: exI[of _ t])
  qed
qed

lemma memstate_create_get:
  fixes w :: world
  assumes "memstate_inv s"
  defines "vid \<equiv> fst (memstate_newID w)"
  shows "\<exists>s' w' vm ev. Service_CreateVM flames_service spec (s, q) w = (Inr vid, (s', q), w') \<and>
    length vid = 32 \<and> fresh_vm vid spec vm \<and> vm_CreatedAt vm = shd (clock w) \<and>
    Service_GetVM flames_service vid (s', q) w' = (Inr vm, (s', q), w') \<and> ms_vms s' vid = Some vm \<and>
    (\<forall>k. k \<noteq> vid \<longrightarrow> ms_vms s' k = ms_vms s k) \<and> ms_controllers s' = ms_controllers s \<and>
    ms_events s' = ms_events s @ [ev] \<and> ev_VMID ev = vid \<and> ev_Type ev = ''vm.created''"
proof -
  obtain r p' w' where call: "Service_CreateVM flames_service spec (s, q) w = (r, p', w')" by (metis prod.exhaust)
  have inv: "memstate_inv (fst (s, q))" using assms by simp
  from call have r: "r = Inr (vid)"
    by (auto simp: Service_CreateVM_def flames_service_def on_state_def memstate_ops_def memstate_CreateVM_eq
        Let_def vid_def split: prod.splits)
  from memstate.service_create[OF inv call[unfolded flames_service_def]] r obtain vm ev where
    eq: "memstate_view (fst p') = (memstate_view s)\<lparr>cp_vms := (ms_vms s)(vid \<mapsto> vm),
        cp_log := ms_events s @ [ev]\<rparr>" and "snd p' = q" "fresh_vm (vid) spec vm"
      "ev_VMID ev = vid" "ev_Type ev = ''vm.created''" by auto
  moreover have "length (vid) = 32" by (simp add: vid_def memstate_newID_def rand_Read_def)
  moreover from memstate_view_eqD[OF eq] have
    "Service_GetVM flames_service (vid) p' w' = (Inr vm, p', w')"
    by (simp add: Service_GetVM_def flames_service_def on_state_def memstate_ops_def memstate_GetVM_def)
  moreover from call have "ms_vms (fst p') vid = Some (created_vm spec w)"
    by (auto simp: Service_CreateVM_def flames_service_def on_state_def memstate_ops_def memstate_CreateVM_eq
        memstate_AppendEvent_def Let_def vid_def split: prod.splits if_splits)
  moreover have "vm_CreatedAt (created_vm spec w) = shd (clock w)"
    by (simp add: created_vm_def memstate_simps)
  ultimately show ?thesis using memstate_view_eqD[OF eq] call r
    by (cases p') (auto intro!: exI[of _ vm])
qed

subsection \<open>Properties\<close>

text \<open>
  C11: The event log explains the state: after any history of requests to the service, and of
  controllers and scheduler reporting in between, replaying a VM's events (created, stop requested,
  delete requested) gives exactly its desired state, and no VM exists without its events. The work
  queue is not touched.
\<close>

theorem service_replay:
  "case service_run flames_service calls (memstate_New, q) w of ((s, q'), w') \<Rightarrow>
     q' = q \<and> memstate_inv s \<and> (\<forall>vid. replay vid (ms_events s) = map_option vm_DesiredState (ms_vms s vid))"
proof -
  obtain s q' w' where run: "service_run flames_service calls (memstate_New, q) w = ((s, q'), w')"
    by (metis prod.exhaust)
  have "in_sync (memstate_view memstate_New)"
    by (simp add: in_sync_def memstate_view_def memstate_New_def replay_def)
  with memstate.service_history[of "(memstate_New, q)", OF _ _ run[unfolded flames_service_def]] run
  show ?thesis by (simp add: memstate_inv_New in_sync_def)
qed

text \<open>
  C35: \<^verbatim>\<open>StopVM\<close> and \<^verbatim>\<open>DeleteVM\<close> on every branch: for an unknown VM they return its \<^verbatim>\<open>ErrNotFound\<close> error and
  change nothing; for a known one they succeed, change the desired state and the update time of
  this VM and nothing else, and append exactly one event that names the VM and the request.
\<close>

theorem service_stop_delete:
  assumes "memstate_inv s"
  shows "\<forall>(f, d, ty) \<in> {(Service_StopVM flames_service, DesiredStopped, ''vm.stop_requested''),
                         (Service_DeleteVM flames_service, DesiredDeleted, ''vm.delete_requested'')}.
    case ms_vms s vid of
      None \<Rightarrow> f vid (s, q) w = (Inl (NotFound ''vm'' vid), (s, q), w)
    | Some vm \<Rightarrow> \<exists>s' w' t ev. f vid (s, q) w = (Inr (), (s', q), w') \<and>
        ms_vms s' = (ms_vms s)(vid \<mapsto> vm\<lparr>vm_DesiredState := d, vm_UpdatedAt := t\<rparr>) \<and>
        ms_controllers s' = ms_controllers s \<and> ms_events s' = ms_events s @ [ev] \<and>
        ev_VMID ev = vid \<and> ev_Type ev = ty"
  using memstate_desire[OF assms, of DesiredStopped "''vm.stop_requested''" vid q w]
    memstate_desire[OF assms, of DesiredDeleted "''vm.delete_requested''" vid q w]
  by (cases "ms_vms s vid") (simp_all add: flames_service_def desire_eq)

theorem service_stop_delete_witness:
  "Service_StopVM flames_service ''x'' (memstate_New, memqueue_New) (clock_world (sconst 5)) =
     (Inl (NotFound ''vm'' ''x''), (memstate_New, memqueue_New), clock_world (sconst 5))"
  using service_stop_delete[OF memstate_inv_New, of "''x''" memqueue_New "clock_world (sconst 5)"]
  by (simp add: memstate_New_def)

text \<open>
  C36: \<^verbatim>\<open>CreateVM\<close> never fails on the in-memory store: it returns a new 32-digit identifier, under which
  \<^verbatim>\<open>GetVM\<close> returns a VM with the given specification that is desired running, observed pending and
  unassigned; every other VM and every controller stays as it was, and the log gains exactly the
  creation event.
\<close>

theorem service_create_get:
  assumes "memstate_inv s"
  shows "\<exists>vid s' w' vm ev. Service_CreateVM flames_service spec (s, q) w = (Inr vid, (s', q), w') \<and>
    length vid = 32 \<and> fresh_vm vid spec vm \<and>
    Service_GetVM flames_service vid (s', q) w' = (Inr vm, (s', q), w') \<and>
    (\<forall>k. k \<noteq> vid \<longrightarrow> ms_vms s' k = ms_vms s k) \<and> ms_controllers s' = ms_controllers s \<and>
    ms_events s' = ms_events s @ [ev] \<and> ev_VMID ev = vid \<and> ev_Type ev = ''vm.created''"
  using memstate_create_get[OF assms, of spec q w] by blast

theorem service_create_get_witness:
  "\<exists>vid s' w'. Service_CreateVM flames_service zero_VMSpec (memstate_New, memqueue_New) (clock_world (sconst 5)) =
     (Inr vid, (s', memqueue_New), w') \<and> length (ms_events s') = 1"
  using service_create_get[OF memstate_inv_New, of zero_VMSpec memqueue_New "clock_world (sconst 5)"]
  by (auto simp: memstate_New_def)

text \<open>
  C37: Listings are bounded and complete up to the bound: \<^verbatim>\<open>ListEvents\<close> returns the oldest matching
  events and \<^verbatim>\<open>ListControllers\<close> distinct matching controllers, as many as there are or as the limit
  allows; the limit is the requested one if it lies between 1 and 1000, 1000 above and 100 below.
\<close>

theorem service_listings:
  assumes "memstate_inv s"
  shows "(\<exists>evs w'. Service_ListEvents flames_service ef (s, q) w = (Inr evs, (s, q), w') \<and>
      evs = take (nat (clampLimit (ef_Limit ef))) (filter (event_matches ef) (ms_events s)) \<and>
      length evs \<le> 1000) \<and>
    (\<exists>cs w'. Service_ListControllers flames_service cf (s, q) w = (Inr cs, (s, q), w') \<and>
      distinct cs \<and> set cs \<subseteq> {c \<in> ran (ms_controllers s). controller_matches cf c} \<and>
      int (length cs) = min (clampLimit (cf_Limit cf))
        (int (card {k \<in> dom (ms_controllers s). controller_matches cf (the (ms_controllers s k))}))) \<and>
    (\<forall>n. clampLimit n = (if n \<le> 0 then 100 else min n 1000))"
proof (intro conjI)
  let ?p = "(s, q)"
  have inv: "memstate_inv (fst ?p)" using assms by simp
  obtain r p' w' where e: "Service_ListEvents flames_service ef ?p w = (r, p', w')" by (metis prod.exhaust)
  then obtain evs where r: "r = Inr evs" "p' = ?p"
    by (auto simp: Service_ListEvents_def flames_service_def on_state_def memstate_ops_def memstate_ListEvents_def)
  from memstate.service_events[OF inv, of memqueue_ops ef w evs p' w'] e r clampLimit_bounds[of "ef_Limit ef"]
  show "\<exists>evs w'. Service_ListEvents flames_service ef ?p w = (Inr evs, ?p, w') \<and>
      evs = take (nat (clampLimit (ef_Limit ef))) (filter (event_matches ef) (ms_events s)) \<and> length evs \<le> 1000"
    by (auto simp: flames_service_def)
  obtain r p' w' where c: "Service_ListControllers flames_service cf ?p w = (r, p', w')" by (metis prod.exhaust)
  then obtain cs where r: "r = Inr cs" "p' = ?p"
    by (auto simp: Service_ListControllers_def flames_service_def on_state_def memstate_ops_def
        memstate_ListControllers_def map_range_def)
  from memstate.service_controllers[OF inv, of memqueue_ops cf w cs p' w'] c r
  show "\<exists>cs w'. Service_ListControllers flames_service cf ?p w = (Inr cs, ?p, w') \<and>
      distinct cs \<and> set cs \<subseteq> {c \<in> ran (ms_controllers s). controller_matches cf c} \<and>
      int (length cs) = min (clampLimit (cf_Limit cf))
        (int (card {k \<in> dom (ms_controllers s). controller_matches cf (the (ms_controllers s k))}))"
    by (auto simp: flames_service_def)
  show "\<forall>n. clampLimit n = (if n \<le> 0 then 100 else min n 1000)"
    by (auto simp: clampLimit_def defaultListLimit_def maxListLimit_def)
qed

theorem service_listings_witness:
  "\<exists>w'. Service_ListEvents flames_service zero_EventFilter (memstate_New, memqueue_New) (clock_world (sconst 5)) =
     (Inr [], (memstate_New, memqueue_New), w')"
  using service_listings[OF memstate_inv_New, of zero_EventFilter memqueue_New "clock_world (sconst 5)"]
  by (auto simp: memstate_New_def)

end
