(* ===== verification/Http_Handler.thy ===== *)
theory Http_Handler
  imports Router Idempotency Api_Service
begin

text \<open>
  \<^verbatim>\<open>src/transport/httpapi/handler.go\<close>: the HTTP handlers over the API service, their composition with the
  router and the idempotency middleware, and the logging entry point \<^verbatim>\<open>ServeHTTP\<close>. The program that
  \<^verbatim>\<open>src/cmd/flames-api/main.go\<close> runs is \<open>ServeHTTP flames_service\<close>.
\<close>

subsection \<open>Helpers\<close>

definition writeJSON :: "int \<Rightarrow> json option \<Rightarrow> writer_call list" where
  "writeJSON status v =
    [Set_header ''Content-Type'' ''application/json'', Write_header status] @
    (case v of None \<Rightarrow> [] | Some j \<Rightarrow> [Write_body (bytes_of (json_Encode (Some j)))])"

definition queryInt :: "Request \<Rightarrow> string \<Rightarrow> int" where
  "queryInt r key = (let s = Query_Get r key in if s = '''' then 0 else fst (Atoi s))"

text \<open>\<^verbatim>\<open>json.NewDecoder(r.Body).Decode\<close>; a body that cannot be read is an error as well.\<close>

definition decode_body :: "'a decoder \<Rightarrow> 'a \<Rightarrow> Request \<Rightarrow> 'a option" where
  "decode_body f zero r = (case rq_Body r of Inl _ \<Rightarrow> None | Inr b \<Rightarrow> json_Decode f zero (string_of b))"

definition bad_request :: "string \<Rightarrow> writer_call list" where
  "bad_request message = writeErrorMessage 400 ''bad_request'' message"

definition id_object :: "string \<Rightarrow> json" where
  "id_object vid = JObj [(''id'', jstr vid)]"

definition ok_object :: json where
  "ok_object = JObj [(''status'', jstr ''ok'')]"

subsection \<open>Handlers\<close>

definition h_createVM :: "('s, 'q) Service \<Rightarrow> ('s \<times> 'q) handler" where
  "h_createVM svc r p w =
    (case decode_body dec_VMSpec zero_VMSpec r of
       None \<Rightarrow> (bad_request ''invalid JSON body'', p, w)
     | Some spec \<Rightarrow>
         let (res, p, w) = Service_CreateVM svc spec p w
         in case res of
              Inl err \<Rightarrow> (writeError err, p, w)
            | Inr vid \<Rightarrow> (writeJSON 202 (Some (id_object vid)), p, w))"

definition h_getVM :: "('s, 'q) Service \<Rightarrow> ('s \<times> 'q) handler" where
  "h_getVM svc r p w =
    (let vmID = PathValue ''vm_id'' r; (res, p, w) = Service_GetVM svc vmID p w
     in case res of
          Inl err \<Rightarrow> (writeError err, p, w)
        | Inr vm \<Rightarrow> (writeJSON 200 (json_VM vm), p, w))"

definition h_stopVM :: "('s, 'q) Service \<Rightarrow> ('s \<times> 'q) handler" where
  "h_stopVM svc r p w =
    (let vmID = PathValue ''vm_id'' r; (res, p, w) = Service_StopVM svc vmID p w
     in case res of
          Inl err \<Rightarrow> (writeError err, p, w)
        | Inr _ \<Rightarrow> (writeJSON 202 (Some (id_object vmID)), p, w))"

definition h_deleteVM :: "('s, 'q) Service \<Rightarrow> ('s \<times> 'q) handler" where
  "h_deleteVM svc r p w =
    (let vmID = PathValue ''vm_id'' r; (res, p, w) = Service_DeleteVM svc vmID p w
     in case res of
          Inl err \<Rightarrow> (writeError err, p, w)
        | Inr _ \<Rightarrow> (writeJSON 202 (Some (id_object vmID)), p, w))"

definition h_registerController :: "('s, 'q) Service \<Rightarrow> ('s \<times> 'q) handler" where
  "h_registerController svc r p w =
    (case decode_body dec_Controller zero_Controller r of
       None \<Rightarrow> (bad_request ''invalid JSON body'', p, w)
     | Some ctrl \<Rightarrow>
         let (res, p, w) = Service_RegisterController svc ctrl p w
         in case res of
              Inl err \<Rightarrow> (writeError err, p, w)
            | Inr _ \<Rightarrow> (writeJSON 201 (json_Controller ctrl), p, w))"

definition h_heartbeat :: "('s, 'q) Service \<Rightarrow> ('s \<times> 'q) handler" where
  "h_heartbeat svc r p w =
    (let controllerID = PathValue ''controller_id'' r
     in case decode_body dec_Heartbeat zero_Heartbeat r of
          None \<Rightarrow> (bad_request ''invalid JSON body'', p, w)
        | Some hb \<Rightarrow>
            let (res, p, w) = Service_Heartbeat svc controllerID hb p w
            in case res of
                 Inl err \<Rightarrow> (writeError err, p, w)
               | Inr _ \<Rightarrow> (writeJSON 200 (Some ok_object), p, w))"

definition h_listControllers :: "('s, 'q) Service \<Rightarrow> ('s \<times> 'q) handler" where
  "h_listControllers svc r p w =
    (let flt = \<lparr>cf_Status = Query_Get r ''status'', cf_Limit = queryInt r ''limit''\<rparr>;
         (res, p, w) = Service_ListControllers svc flt p w
     in case res of
          Inl err \<Rightarrow> (writeError err, p, w)
        | Inr cs \<Rightarrow> (writeJSON 200 (json_listing json_Controller cs), p, w))"

definition h_listEvents :: "('s, 'q) Service \<Rightarrow> ('s \<times> 'q) handler" where
  "h_listEvents svc r p w =
    (let flt = \<lparr>ef_VMID = Query_Get r ''vm_id'', ef_ControllerID = Query_Get r ''controller_id'',
                ef_Type = Query_Get r ''type'', ef_Since = 0, ef_Limit = queryInt r ''limit''\<rparr>;
         since = Query_Get r ''since'';
         flt = (if since = '''' then Some flt
                else case time_Parse since of None \<Rightarrow> None | Some t \<Rightarrow> Some (flt\<lparr>ef_Since := t\<rparr>))
     in case flt of
          None \<Rightarrow> (bad_request (''invalid '' @ [CHR 0x27] @ ''since'' @ [CHR 0x27] @ '' parameter, expected RFC 3339''), p, w)
        | Some flt \<Rightarrow>
            let (res, p, w) = Service_ListEvents svc flt p w
            in case res of
                 Inl err \<Rightarrow> (writeError err, p, w)
               | Inr evs \<Rightarrow> (writeJSON 200 (json_listing json_Event evs), p, w))"

definition h_healthz :: "'p handler" where
  "h_healthz r p w = (writeJSON 200 (Some ok_object), p, w)"

subsection \<open>Dispatch\<close>

definition unwrapped :: "'p handler \<Rightarrow> (idempotencyStore \<times> 'p) handler" where
  "unwrapped h r st w = (let (calls, p, w) = h r (snd st) w in (calls, (fst st, p), w))"

text \<open>The handler that \<^verbatim>\<open>NewHandler\<close> registers for each pattern.\<close>

fun registered :: "('s, 'q) Service \<Rightarrow> endpoint \<Rightarrow> (idempotencyStore \<times> 's \<times> 'q) handler" where
  "registered svc Create_VM_ep = idem_wrap (h_createVM svc)"
| "registered svc Get_VM_ep = unwrapped (h_getVM svc)"
| "registered svc Stop_VM_ep = idem_wrap (h_stopVM svc)"
| "registered svc Delete_VM_ep = idem_wrap (h_deleteVM svc)"
| "registered svc Register_controller_ep = idem_wrap (h_registerController svc)"
| "registered svc Heartbeat_ep = unwrapped (h_heartbeat svc)"
| "registered svc List_controllers_ep = unwrapped (h_listControllers svc)"
| "registered svc List_events_ep = unwrapped (h_listEvents svc)"
| "registered svc Healthz_ep = unwrapped h_healthz"

definition mux_ServeHTTP :: "('s, 'q) Service \<Rightarrow> (idempotencyStore \<times> 's \<times> 'q) handler" where
  "mux_ServeHTTP svc r st w =
    (case findHandler r of
       Route ep vs \<Rightarrow> registered svc ep (r\<lparr>rq_PathValues := vs\<rparr>) st w
     | res \<Rightarrow> (mux_answer r res, st, w))"

text \<open>The handler's state: idempotency store, providers, and the lines logged so far.\<close>

record log_line =
  ll_method :: string
  ll_path :: string
  ll_status :: int
  ll_micros :: int

record 'p Handler =
  hd_idem :: idempotencyStore
  hd_prov :: 'p
  hd_log :: "log_line list"

definition NewHandler :: "'p \<Rightarrow> 'p Handler" where
  "NewHandler p = \<lparr>hd_idem = newIdempotencyStore, hd_prov = p, hd_log = []\<rparr>"

definition Microseconds :: "duration \<Rightarrow> int" where
  "Microseconds d = (if d < 0 then - (- d div 1000) else d div 1000)"

definition ServeHTTP :: "('s, 'q) Service \<Rightarrow> ('s \<times> 'q) Handler handler" where
  "ServeHTTP svc r h w =
    (let (start, w) = time_Now w;
         (calls, st, w) = mux_ServeHTTP svc r (hd_idem h, hd_prov h) w;
         (rec, out) = record_calls statusRecorder_call calls \<lparr>sr_statusCode = 200, sr_wroteHeader = False\<rparr>;
         (now, w) = time_Now w;
         line = \<lparr>ll_method = rq_Method r, ll_path = pathUnescape (rq_Path r), ll_status = sr_statusCode rec,
                 ll_micros = Microseconds (time_Sub now start)\<rparr>
     in (out, \<lparr>hd_idem = fst st, hd_prov = snd st, hd_log = hd_log h @ [line]\<rparr>, w))"

subsection \<open>Every handler sends its status first\<close>

lemma status_first_writers [simp]:
  "status_first (writeJSON s j)" "status_first (writeError e)" "status_first (bad_request m)"
  "status_first (writeErrorMessage s c m)" "status_first (http_Error m s)" "status_first (idem_replay en)"
  by (simp_all add: writeJSON_def writeError_def bad_request_def writeErrorMessage_def http_Error_def
      idem_replay_def Let_def)

lemmas handler_defs = h_createVM_def h_getVM_def h_stopVM_def h_deleteVM_def h_registerController_def
  h_heartbeat_def h_listControllers_def h_listEvents_def h_healthz_def

lemma status_first_handlers:
  "status_first (fst (h_createVM svc r p w))" "status_first (fst (h_getVM svc r p w))"
  "status_first (fst (h_stopVM svc r p w))" "status_first (fst (h_deleteVM svc r p w))"
  "status_first (fst (h_registerController svc r p w))" "status_first (fst (h_heartbeat svc r p w))"
  "status_first (fst (h_listControllers svc r p w))" "status_first (fst (h_listEvents svc r p w))"
  "status_first (fst (h_healthz r p' w))"
  by (simp_all add: handler_defs Let_def split: option.split prod.split sum.split)

lemma status_first_record:
  "status_first calls \<Longrightarrow> record_calls responseRecorder_call calls r = (r', out) \<Longrightarrow> \<not> rr_wroteHeader r \<Longrightarrow> status_first out"
  "status_first calls \<Longrightarrow> record_calls statusRecorder_call calls q = (q', out) \<Longrightarrow> \<not> sr_wroteHeader q \<Longrightarrow> status_first out"
proof (induction calls arbitrary: r r' q q' out)
  case (Cons c cs)
  { case 1
    then show ?case using Cons.IH(1) by (cases c) (auto split: prod.splits)
  next
    case 2
    then show ?case using Cons.IH(2) by (cases c) (auto split: prod.splits)
  }
qed simp_all

lemma status_first_wrap:
  assumes "\<And>r p w. status_first (fst (h r p w))"
  shows "status_first (fst (idem_wrap h r st w))"
proof -
  have "status_first out" if "record_calls responseRecorder_call (fst (h r p w)) new_responseRecorder = (rec, out)"
    for r p w rec out
    using status_first_record(1)[OF assms that] by (simp add: new_responseRecorder_def)
  with assms show ?thesis
    by (auto simp: idem_wrap_def Let_def split: prod.split sum.split option.split) (metis fst_conv)+
qed

lemma unwrapped_simps:
  "fst (unwrapped h r st w) = fst (h r (snd st) w)"
  "snd (unwrapped h r st w) = (case snd (h r (snd st) w) of (p, w') \<Rightarrow> ((fst st, p), w'))"
  by (simp_all add: unwrapped_def Let_def split: prod.split)

lemma status_first_registered: "status_first (fst (registered svc ep r st w))"
  by (cases ep) (auto simp: status_first_handlers unwrapped_simps intro!: status_first_wrap)

lemma status_first_mux: "status_first (fst (mux_ServeHTTP svc r st w))"
  by (auto simp: mux_ServeHTTP_def mux_answer_def http_Redirect_def Let_def status_first_registered
      split: mux_result.split)

text \<open>The logging recorder is invisible to the client and logs the status that the client gets.\<close>

lemma ServeHTTP_eq:
  assumes "ServeHTTP svc r h w = (out, h', w')"
  obtains calls w1 where
    "fst (mux_ServeHTTP svc r (hd_idem h, hd_prov h) (w\<lparr>clock := stl (clock w)\<rparr>)) = calls"
    "response out = response calls" "status_of out = status_of calls"
    "snd (mux_ServeHTTP svc r (hd_idem h, hd_prov h) (w\<lparr>clock := stl (clock w)\<rparr>)) = ((hd_idem h', hd_prov h'), w1)"
    "\<exists>line. hd_log h' = hd_log h @ [line] \<and> ll_status line = status_of calls \<and> ll_method line = rq_Method r"
proof -
  let ?w = "w\<lparr>clock := stl (clock w)\<rparr>"
  obtain calls st w1 where mux: "mux_ServeHTTP svc r (hd_idem h, hd_prov h) ?w = (calls, st, w1)"
    by (metis prod.exhaust)
  obtain rec out1 where rec: "record_calls statusRecorder_call calls \<lparr>sr_statusCode = 200, sr_wroteHeader = False\<rparr> = (rec, out1)"
    by (metis prod.exhaust)
  from assms mux rec have out: "out = out1" and h': "hd_idem h' = fst st" "hd_prov h' = snd st"
    and line: "\<exists>line. hd_log h' = hd_log h @ [line] \<and> ll_status line = sr_statusCode rec \<and> ll_method line = rq_Method r"
    by (auto simp: ServeHTTP_def time_Now_def)
  have resp: "response out = response calls" unfolding response_def out
    by (rule record_status[OF rec]) (simp add: no_response_def)
  have "status_first calls" using status_first_mux[of svc r "(hd_idem h, hd_prov h)" ?w] mux by simp
  with recorded_code(2)[OF rec, of no_response] have "sr_statusCode rec = status_of calls"
    by (simp add: no_response_def status_of_def response_def)
  with line resp mux h' show thesis by (intro that) (simp_all add: status_of_def)
qed

end
