(* ===== verification/Http_Properties.thy ===== *)
theory Http_Properties
  imports Http_Handler
begin

text \<open>
  End-to-end properties of the HTTP server with the in-memory providers: which status codes it
  answers, that an error response means nothing was changed, that read requests change nothing,
  that the event log explains the desired states after any sequence of requests, and how the
  idempotency middleware acts across routes.
\<close>

subsection \<open>Outcomes of the handlers\<close>

lemma status_of_writers [simp]:
  "status_of (writeJSON s j) = s" "status_of (writeError e) = errorToStatus e"
  "status_of (bad_request m) = 400" "status_of (writeErrorMessage s c m) = s" "status_of (http_Error m s) = s"
  "status_of (idem_replay en) = ie_statusCode en"
  by (simp_all add: writeJSON_def writeError_def bad_request_def writeErrorMessage_def http_Error_def
      idem_replay_def Let_def status_of_def response_def no_response_def split: option.split)

lemma status_of_mux [simp]:
  "status_of (http_Redirect r path) = 301" "status_of (Set_header k v # http_Error m s) = s"
  by (cases "rq_Method r = ''GET''"; cases "rq_Method r = ''HEAD''")
    (simp_all add: http_Redirect_def http_Error_def Let_def status_of_def response_def no_response_def)

lemma errorToStatus_constructors [simp]:
  "errorToStatus (NotFound rt rid) = 404" "errorToStatus (AlreadyExists rt rid) = 409"
  "errorToStatus (Conflict rt rid msg) = 409"
  by (simp_all add: errorToStatus_def)

text \<open>
  A handler either succeeds, having made one call of the service (or none), or answers with a client
  error and leaves the providers alone.
\<close>

definition outcome_ok :: "memstate \<times> memqueue \<Rightarrow> world \<Rightarrow> writer_call list \<times> (memstate \<times> memqueue) \<times> world \<Rightarrow> bool" where
  "outcome_ok p w out \<longleftrightarrow>
    (status_of (fst out) \<in> {200, 201, 202} \<and> (snd out = (p, w) \<or> (\<exists>call. service_do flames_service call p w = snd out))) \<or>
    (status_of (fst out) \<in> {400, 404, 409} \<and> fst (snd out) = p)"

lemma outcome_success:
  "status_of calls \<in> {200, 201, 202} \<Longrightarrow> service_do flames_service call p w = (p', w') \<Longrightarrow> outcome_ok p w (calls, p', w')"
  by (auto simp: outcome_ok_def)

lemma outcome_error: "status_of calls \<in> {400, 404, 409} \<Longrightarrow> outcome_ok p w (calls, p, w')"
  by (auto simp: outcome_ok_def)

lemma outcome_bad_request [simp]: "outcome_ok p w (bad_request m, p, w')"
  by (simp add: outcome_ok_def)

text \<open>What can go wrong in the in-memory store: a missing VM or controller, or a duplicate controller.\<close>

lemma service_errors:
  "Service_CreateVM flames_service spec p w \<noteq> (Inl e, p', w')"
  "Service_GetVM flames_service vid p w = (Inl e, p', w') \<Longrightarrow> e = NotFound ''vm'' vid \<and> p' = p"
  "Service_StopVM flames_service vid p w = (Inl e, p', w') \<Longrightarrow> e = NotFound ''vm'' vid \<and> p' = p"
  "Service_DeleteVM flames_service vid p w = (Inl e, p', w') \<Longrightarrow> e = NotFound ''vm'' vid \<and> p' = p"
  "Service_RegisterController flames_service c p w = (Inl e, p', w') \<Longrightarrow> e = AlreadyExists ''controller'' (ct_ID c) \<and> p' = p"
  "Service_Heartbeat flames_service cid hb p w = (Inl e, p', w') \<Longrightarrow> e = NotFound ''controller'' cid \<and> p' = p"
  "Service_ListControllers flames_service cf p w \<noteq> (Inl e, p', w')"
  "Service_ListEvents flames_service ef p w \<noteq> (Inl e, p', w')"
  by (auto simp: flames_service_def on_state_def Service_CreateVM_def Service_GetVM_def Service_StopVM_def
      Service_DeleteVM_def Service_RegisterController_def Service_Heartbeat_def Service_ListControllers_def
      Service_ListEvents_def memstate_ops_def memstate_CreateVM_eq memstate_GetVM_def memstate_UpdateVMDesiredState_def
      memstate_RegisterController_def memstate_UpdateControllerHeartbeat_def memstate_ListControllers_def
      memstate_ListEvents_def map_range_def Let_def split: option.splits prod.splits)

lemma outcome_createVM: "outcome_ok p w (h_createVM flames_service r p w)"
proof (cases "decode_body dec_VMSpec zero_VMSpec r")
  case (Some spec)
  obtain res p' w' where call: "Service_CreateVM flames_service spec p w = (res, p', w')" by (metis prod.exhaust)
  with service_errors(1) obtain vid where "res = Inr vid" by (cases res) auto
  with call Some show ?thesis
    by (auto simp: h_createVM_def intro!: outcome_success[of _ "Create_VM spec"])
qed (simp add: h_createVM_def)

lemma outcome_getVM: "outcome_ok p w (h_getVM flames_service r p w)"
proof -
  let ?vid = "PathValue ''vm_id'' r"
  obtain res p' w' where call: "Service_GetVM flames_service ?vid p w = (res, p', w')" by (metis prod.exhaust)
  with service_errors(2)[of ?vid p w _ p' w'] show ?thesis
    by (cases res) (auto simp: h_getVM_def intro!: outcome_error outcome_success[of _ "Get_VM ?vid"])
qed

lemma outcome_stopVM: "outcome_ok p w (h_stopVM flames_service r p w)"
proof -
  let ?vid = "PathValue ''vm_id'' r"
  obtain res p' w' where call: "Service_StopVM flames_service ?vid p w = (res, p', w')" by (metis prod.exhaust)
  with service_errors(3)[of ?vid p w _ p' w'] show ?thesis
    by (cases res) (auto simp: h_stopVM_def intro!: outcome_error outcome_success[of _ "Stop_VM ?vid"])
qed

lemma outcome_deleteVM: "outcome_ok p w (h_deleteVM flames_service r p w)"
proof -
  let ?vid = "PathValue ''vm_id'' r"
  obtain res p' w' where call: "Service_DeleteVM flames_service ?vid p w = (res, p', w')" by (metis prod.exhaust)
  with service_errors(4)[of ?vid p w _ p' w'] show ?thesis
    by (cases res) (auto simp: h_deleteVM_def intro!: outcome_error outcome_success[of _ "Delete_VM ?vid"])
qed

lemma outcome_registerController: "outcome_ok p w (h_registerController flames_service r p w)"
proof (cases "decode_body dec_Controller zero_Controller r")
  case (Some c)
  obtain res p' w' where call: "Service_RegisterController flames_service c p w = (res, p', w')" by (metis prod.exhaust)
  with Some service_errors(5)[of c p w _ p' w'] show ?thesis
    by (cases res) (auto simp: h_registerController_def intro!: outcome_error outcome_success[of _ "Register_ctrl c"])
qed (simp add: h_registerController_def)

lemma outcome_heartbeat: "outcome_ok p w (h_heartbeat flames_service r p w)"
proof (cases "decode_body dec_Heartbeat zero_Heartbeat r")
  case (Some hb)
  let ?cid = "PathValue ''controller_id'' r"
  obtain res p' w' where call: "Service_Heartbeat flames_service ?cid hb p w = (res, p', w')" by (metis prod.exhaust)
  with Some service_errors(6)[of ?cid hb p w _ p' w'] show ?thesis
    by (cases res) (auto simp: h_heartbeat_def intro!: outcome_error outcome_success[of _ "Heartbeat_ctrl ?cid hb"])
qed (simp add: h_heartbeat_def)

lemma outcome_listControllers: "outcome_ok p w (h_listControllers flames_service r p w)"
proof -
  let ?flt = "\<lparr>cf_Status = Query_Get r ''status'', cf_Limit = queryInt r ''limit''\<rparr>"
  obtain res p' w' where call: "Service_ListControllers flames_service ?flt p w = (res, p', w')" by (metis prod.exhaust)
  with service_errors(7)[of ?flt p w _ p' w'] obtain cs where "res = Inr cs" by (cases res) auto
  with call show ?thesis by (auto simp: h_listControllers_def intro!: outcome_success[of _ "List_ctrls ?flt"])
qed

lemma outcome_listEvents: "outcome_ok p w (h_listEvents flames_service r p w)"
proof -
  have list: "outcome_ok p w (let (res, p, w) = Service_ListEvents flames_service flt p w
      in case res of Inl err \<Rightarrow> (writeError err, p, w) | Inr evs \<Rightarrow> (writeJSON 200 (json_listing json_Event evs), p, w))"
    for flt
  proof -
    obtain res p' w' where call: "Service_ListEvents flames_service flt p w = (res, p', w')" by (metis prod.exhaust)
    with service_errors(8)[of flt p w _ p' w'] obtain evs where "res = Inr evs" by (cases res) auto
    with call show ?thesis by (auto intro!: outcome_success[of _ "List_evs flt"])
  qed
  show ?thesis unfolding h_listEvents_def Let_def by (auto simp: list[unfolded Let_def] split: option.split)
qed

lemma outcome_healthz: "outcome_ok p w (h_healthz r p w)"
  by (simp add: h_healthz_def outcome_ok_def)

lemmas outcome_handlers = outcome_createVM outcome_getVM outcome_stopVM outcome_deleteVM
  outcome_registerController outcome_heartbeat outcome_listControllers outcome_listEvents outcome_healthz

subsection \<open>The invariant of the server\<close>

definition codes_ok :: "idempotencyStore \<Rightarrow> bool" where
  "codes_ok i \<longleftrightarrow> (\<forall>k e. is_entries i k = Some e \<longrightarrow> ie_statusCode e \<in> {200, 201, 202, 400, 404, 409})"

definition prov_ok :: "memstate \<times> memqueue \<Rightarrow> bool" where
  "prov_ok p \<longleftrightarrow> memstate_inv (fst p) \<and> in_sync (memstate_view (fst p))"

definition server_inv :: "(memstate \<times> memqueue) Handler \<Rightarrow> bool" where
  "server_inv h \<longleftrightarrow> codes_ok (hd_idem h) \<and> prov_ok (hd_prov h)"

text \<open>What a request may do: the codes it may answer, and that only a success may change the providers.\<close>

definition answer_ok :: "idempotencyStore \<times> memstate \<times> memqueue \<Rightarrow> writer_call list \<Rightarrow>
    idempotencyStore \<times> memstate \<times> memqueue \<Rightarrow> bool" where
  "answer_ok st calls st' \<longleftrightarrow>
    status_of calls \<in> {200, 201, 202, 301, 400, 404, 405, 409} \<and>
    (300 \<le> status_of calls \<longrightarrow> snd st' = snd st) \<and>
    codes_ok (fst st') \<and> prov_ok (snd st') \<and> snd (snd st') = snd (snd st)"

lemma outcome_prov_ok:
  assumes "prov_ok p" and "outcome_ok p w (calls, p', w')"
  shows "prov_ok p' \<and> snd p' = snd p"
proof -
  from assms(2) consider "p' = p" | call where "service_do flames_service call p w = (p', w')"
    by (auto simp: outcome_ok_def)
  then show ?thesis
  proof cases
    case 2
    with memstate.service_step[of p memqueue_ops call w p' w'] assms(1) show ?thesis
      by (simp add: prov_ok_def flames_service_def)
  qed (use assms(1) in simp)
qed

lemma outcome_answer:
  assumes "codes_ok i" and "prov_ok p" and "outcome_ok p w (calls, p', w')"
  shows "answer_ok (i, p) calls (i, p')"
  using assms(1) outcome_prov_ok[OF assms(2,3)] assms(3) by (auto simp: answer_ok_def outcome_ok_def)

lemma wrap_answer:
  assumes h: "\<And>r p w. outcome_ok p w (h r p w)" "\<And>r p w. status_first (fst (h r p w))"
    and ok: "codes_ok i" "prov_ok p" and call: "idem_wrap h r (i, p) w = (out, (i', p'), w')"
  shows "answer_ok (i, p) out (i', p')"
proof -
  let ?k = "Header_Get ''Idempotency-Key'' r"
  consider (none) "?k = ''''" | (unread) err where "?k \<noteq> ''''" "rq_Body r = Inl err"
    | (keyed) body where "?k \<noteq> ''''" "rq_Body r = Inr body" by (cases "rq_Body r") auto
  then show ?thesis
  proof cases
    case none
    with call have "h r p w = (out, p', w')" "i' = i" by (auto simp: idem_wrap_no_key split: prod.splits)
    with outcome_answer[OF ok] h(1)[of p w r] show ?thesis by simp
  next
    case unread
    with call ok show ?thesis by (auto simp: idem_wrap_def answer_ok_def)
  next
    case keyed
    show ?thesis
    proof (cases "idem_live i (shd (clock w)) ?k")
      case (Some e)
      then have "ie_statusCode e \<in> {200, 201, 202, 400, 404, 409}"
        using ok(1) by (auto simp: idem_live_def codes_ok_def split: option.splits if_splits)
      with idem_wrap_found[OF refl keyed Some, of h p] call ok show ?thesis
        by (auto simp: answer_ok_def split: if_splits)
    next
      case None
      obtain w1 calls p1 w2 rec out1 where run: "h r p w1 = (calls, p1, w2)"
        "record_calls responseRecorder_call calls new_responseRecorder = (rec, out1)"
        and wrap: "idem_wrap h r (i, p) w =
          (out1, (i\<lparr>is_entries := (is_entries i)(?k \<mapsto> \<lparr>ie_requestHash = sha256_Sum256 body,
             ie_statusCode = rr_statusCode rec, ie_body = rr_body rec, ie_createdAt = shd (clock w2)\<rparr>)\<rparr>, p1),
           w2\<lparr>clock := stl (clock w2)\<rparr>)"
        by (rule idem_wrap_executes[OF refl keyed None, of h p])
      have first: "status_first calls" using h(2)[of r p w1] run(1) by simp
      have o: "outcome_ok p w1 (calls, p1, w2)" using h(1)[of p w1 r] run(1) by simp
      note rec = idem_recorded[OF run(2) first]
      have same: "status_of out1 = status_of calls" using rec(1) by (simp add: status_of_def)
      from wrap call have eq: "out = out1" "p' = p1" and i': "i' = i\<lparr>is_entries := (is_entries i)(?k \<mapsto>
          \<lparr>ie_requestHash = sha256_Sum256 body, ie_statusCode = rr_statusCode rec, ie_body = rr_body rec,
           ie_createdAt = shd (clock w2)\<rparr>)\<rparr>" by simp_all
      have "codes_ok i'" using ok(1) rec(3) o by (auto simp: codes_ok_def i' outcome_ok_def)
      with outcome_answer[OF ok o] same eq show ?thesis by (simp add: answer_ok_def)
    qed
  qed
qed

lemma unwrapped_answer:
  assumes "\<And>r p w. outcome_ok p w (h r p w)" and ok: "codes_ok i" "prov_ok p"
    and call: "unwrapped h r (i, p) w = (out, (i', p'), w')"
  shows "answer_ok (i, p) out (i', p')"
proof -
  from call have "h r p w = (out, p', w')" "i' = i" by (auto simp: unwrapped_def Let_def split: prod.splits)
  with outcome_answer[OF ok] assms(1)[of p w r] show ?thesis by simp
qed

lemma registered_answer:
  assumes ok: "codes_ok i" "prov_ok p" and call: "registered flames_service ep r (i, p) w = (out, (i', p'), w')"
  shows "answer_ok (i, p) out (i', p')"
  using call by (cases ep)
    (auto intro: wrap_answer[OF _ _ ok] unwrapped_answer[OF _ ok] outcome_handlers status_first_handlers)

lemma mux_answer_ok:
  assumes ok: "codes_ok i" "prov_ok p" and call: "mux_ServeHTTP flames_service r (i, p) w = (out, (i', p'), w')"
  shows "answer_ok (i, p) out (i', p')"
proof (cases "findHandler r")
  case (Route ep vs)
  with call registered_answer[OF ok] show ?thesis by (simp add: mux_ServeHTTP_def)
qed (use call ok in \<open>auto simp: mux_ServeHTTP_def mux_answer_def answer_ok_def\<close>)

lemma serve_answer:
  assumes inv: "server_inv h" and call: "ServeHTTP flames_service r h w = (out, h', w')"
  shows "answer_ok (hd_idem h, hd_prov h) out (hd_idem h', hd_prov h')"
proof -
  let ?m = "mux_ServeHTTP flames_service r (hd_idem h, hd_prov h) (w\<lparr>clock := stl (clock w)\<rparr>)"
  obtain calls w1 where m: "fst ?m = calls" "status_of out = status_of calls" "snd ?m = ((hd_idem h', hd_prov h'), w1)"
    by (rule ServeHTTP_eq[OF call])
  have "?m = (calls, (hd_idem h', hd_prov h'), w1)" using m(1,3) by (metis prod.collapse)
  from mux_answer_ok[OF _ _ this] inv m(2) show ?thesis by (simp add: server_inv_def answer_ok_def)
qed

text \<open>Any sequence of requests, one after the other.\<close>

fun serve_all :: "('s, 'q) Service \<Rightarrow> Request list \<Rightarrow> ('s \<times> 'q) Handler \<Rightarrow> world \<Rightarrow> ('s \<times> 'q) Handler \<times> world" where
  "serve_all svc [] h w = (h, w)"
| "serve_all svc (r # rs) h w = (let (out, h, w) = ServeHTTP svc r h w in serve_all svc rs h w)"

lemma server_inv_New: "server_inv (NewHandler (memstate_New, q))"
  by (simp add: server_inv_def NewHandler_def codes_ok_def newIdempotencyStore_def prov_ok_def memstate_inv_New
      in_sync_def replay_def memstate_view_def) (simp add: memstate_New_def)

lemma serve_all_inv:
  "server_inv h \<Longrightarrow> serve_all flames_service rs h w = (h', w') \<Longrightarrow> server_inv h' \<and> snd (hd_prov h') = snd (hd_prov h)"
proof (induction rs arbitrary: h w)
  case (Cons r rs)
  obtain out h1 w1 where step: "ServeHTTP flames_service r h w = (out, h1, w1)" by (metis prod.exhaust)
  from serve_answer[OF Cons.prems(1) step] have "server_inv h1" "snd (hd_prov h1) = snd (hd_prov h)"
    by (simp_all add: answer_ok_def server_inv_def)
  with Cons.IH[of h1 w1] Cons.prems(2) step show ?case by simp
qed simp

subsection \<open>Properties\<close>

text \<open>
  C3: Errors are atomic and no request fails with a server error: after any sequence of requests to a
  new server, the next request is answered with 200, 201, 202, 301, 400, 404, 405 or 409, and if
  the status is not a success the providers are exactly as they were before it.
\<close>

theorem http_error_atomic:
  "case serve_all flames_service rs (NewHandler (memstate_New, q)) w of (h, w1) \<Rightarrow>
     case ServeHTTP flames_service r h w1 of (out, h', w2) \<Rightarrow>
       status_of out \<in> {200, 201, 202, 301, 400, 404, 405, 409} \<and>
       (status_of out < 300 \<or> hd_prov h' = hd_prov h)"
proof -
  obtain h w1 where run: "serve_all flames_service rs (NewHandler (memstate_New, q)) w = (h, w1)" by (metis prod.exhaust)
  obtain out h' w2 where step: "ServeHTTP flames_service r h w1 = (out, h', w2)" by (metis prod.exhaust)
  from serve_all_inv[OF server_inv_New run] have "server_inv h" by simp
  from serve_answer[OF this step] run step show ?thesis by (auto simp: answer_ok_def)
qed

text \<open>
  C1: End to end, the event log explains the state: after any sequence of HTTP requests to a new
  server, replaying the events of a VM gives its desired state, no VM is without events, and no job
  was ever enqueued.
\<close>

theorem http_replay:
  "case serve_all flames_service rs (NewHandler (memstate_New, memqueue_New)) w of (h, w1) \<Rightarrow>
     memstate_inv (fst (hd_prov h)) \<and> snd (hd_prov h) = memqueue_New \<and>
     (\<forall>vid. replay vid (ms_events (fst (hd_prov h))) =
       map_option vm_DesiredState (ms_vms (fst (hd_prov h)) vid))"
proof -
  obtain h w1 where run: "serve_all flames_service rs (NewHandler (memstate_New, memqueue_New)) w = (h, w1)"
    by (metis prod.exhaust)
  from serve_all_inv[OF server_inv_New run] run show ?thesis
    by (simp add: server_inv_def prov_ok_def in_sync_def NewHandler_def)
qed

text \<open>
  The access log is truthful: every request adds exactly one line, with its method and with the
  status that the client receives, and logging does not change the response.
\<close>

lemma http_access_log:
  "case ServeHTTP svc r h w of (out, h', w') \<Rightarrow>
     (\<exists>line. hd_log h' = hd_log h @ [line] \<and> ll_method line = rq_Method r \<and> ll_status line = status_of out) \<and>
     response out = response (fst (mux_ServeHTTP svc r (hd_idem h, hd_prov h) (w\<lparr>clock := stl (clock w)\<rparr>)))"
proof -
  obtain out h' w' where step: "ServeHTTP svc r h w = (out, h', w')" by (metis prod.exhaust)
  show ?thesis by (rule ServeHTTP_eq[OF step]) (auto simp: step)
qed

text \<open>Endpoints that a read request can reach, and that they leave the in-memory providers alone.\<close>

lemma find_route_read:
  assumes "find_route m segs = Some (ep, vs)" and "m = ''GET'' \<or> m = ''HEAD''"
  shows "ep \<in> {Get_VM_ep, List_controllers_ep, List_events_ep, Healthz_ep}"
proof -
  from assms have "match_routes routes ''GET'' segs = Some (ep, vs) \<or> match_routes routes ''HEAD'' segs = Some (ep, vs)"
    by (auto simp: find_route_def split: option.splits if_splits)
  then obtain m' pat where "(m', pat, ep) \<in> set routes" "m' = ''GET'' \<or> m' = ''HEAD''"
    using match_routes_SomeD by blast
  then show ?thesis by (auto simp: routes_def)
qed

lemma read_services:
  "Service_GetVM flames_service vid p w = (r1, p1, w1) \<Longrightarrow> p1 = p"
  "Service_ListControllers flames_service cf p w = (r2, p1, w1) \<Longrightarrow> p1 = p"
  "Service_ListEvents flames_service ef p w = (r3, p1, w1) \<Longrightarrow> p1 = p"
  by (auto simp: flames_service_def on_state_def Service_GetVM_def Service_ListControllers_def
      Service_ListEvents_def memstate_ops_def memstate_GetVM_def memstate_ListControllers_def
      memstate_ListEvents_def map_range_def Let_def split: option.splits)

lemma read_handlers:
  "fst (snd (h_getVM flames_service r p w)) = p" "fst (snd (h_listControllers flames_service r p w)) = p"
  "fst (snd (h_listEvents flames_service r p w)) = p" "fst (snd (h_healthz r p w)) = p"
  by (auto simp: handler_defs Let_def dest: read_services split: prod.split sum.split option.split)

lemma read_endpoints:
  assumes "ep \<in> {Get_VM_ep, List_controllers_ep, List_events_ep, Healthz_ep}"
  shows "fst (snd (registered flames_service ep r st w)) = st"
  using assms by (auto simp: unwrapped_simps split_beta read_handlers)

text \<open>
  C22: Read requests are safe: a \<^verbatim>\<open>GET\<close> or \<^verbatim>\<open>HEAD\<close> request, whatever its path, query, headers and body,
  changes neither the providers nor the idempotency store.
\<close>

theorem http_safe_methods:
  assumes "rq_Method r = ''GET'' \<or> rq_Method r = ''HEAD''" and "ServeHTTP flames_service r h w = (out, h', w')"
  shows "hd_prov h' = hd_prov h \<and> hd_idem h' = hd_idem h"
proof -
  let ?m = "mux_ServeHTTP flames_service r (hd_idem h, hd_prov h) (w\<lparr>clock := stl (clock w)\<rparr>)"
  obtain w1 where m: "snd ?m = ((hd_idem h', hd_prov h'), w1)" by (rule ServeHTTP_eq[OF assms(2)])
  have "fst (snd ?m) = (hd_idem h, hd_prov h)"
  proof (cases "findHandler r")
    case (Route ep vs)
    then have "ep \<in> {Get_VM_ep, List_controllers_ep, List_events_ep, Healthz_ep}"
      using assms(1) by (auto simp: findHandler_def Let_def dest: find_route_read split: option.splits if_splits)
    from read_endpoints[OF this] Route show ?thesis by (simp add: mux_ServeHTTP_def)
  qed (simp_all add: mux_ServeHTTP_def)
  with m show ?thesis by simp
qed

definition get_request :: "string list \<Rightarrow> Request" where
  "get_request segs = \<lparr>rq_Method = ''GET'', rq_Path = path_of segs, rq_RawQuery = '''', rq_Header = [],
     rq_Body = Inr [], rq_PathValues = []\<rparr>"

theorem http_safe_methods_witness:
  "hd_prov (fst (snd (ServeHTTP flames_service (get_request [''healthz'']) (NewHandler (memstate_New, memqueue_New))
     (clock_world (sconst 5))))) = (memstate_New, memqueue_New)"
proof -
  obtain out h' w' where "ServeHTTP flames_service (get_request [''healthz'']) (NewHandler (memstate_New, memqueue_New))
      (clock_world (sconst 5)) = (out, h', w')" by (metis prod.exhaust)
  with http_safe_methods[OF _ this] show ?thesis by (simp add: get_request_def NewHandler_def)
qed

text \<open>Identifiers are plain path segments.\<close>

lemma hex_chars: "set (hex_EncodeToString bs) \<subseteq> set hextable"
proof (induction bs)
  case (Cons v bs)
  have "length hextable = 16" by (simp add: hextable_def)
  with Cons nibble_bounds[of v] show ?case by (auto intro!: nth_mem)
qed simp

lemma plain_id: "plain (fst (memstate_newID w))"
proof -
  let ?vid = "fst (memstate_newID w)"
  have "length ?vid = 32" by (simp add: memstate_newID_def rand_Read_def)
  then have "?vid \<noteq> ''''" "?vid \<noteq> ''.''" "?vid \<noteq> ''..''" by auto
  moreover have "set ?vid \<subseteq> set hextable" by (simp add: memstate_newID_def rand_Read_def hex_chars)
  ultimately show ?thesis by (auto simp: plain_def hextable_def)
qed

text \<open>A request that the router dispatches, seen through \<^verbatim>\<open>ServeHTTP\<close>.\<close>

lemma serve_route:
  assumes "findHandler r = Route ep vs"
    and "registered svc ep (r\<lparr>rq_PathValues := vs\<rparr>) (hd_idem h, hd_prov h) (w\<lparr>clock := stl (clock w)\<rparr>) = (calls, (i, p), w1)"
  shows "\<exists>out h' w'. ServeHTTP svc r h w = (out, h', w') \<and> response out = response calls \<and>
    status_of out = status_of calls \<and> hd_idem h' = i \<and> hd_prov h' = p"
proof -
  obtain out h' w' where call: "ServeHTTP svc r h w = (out, h', w')" by (metis prod.exhaust)
  have mux: "mux_ServeHTTP svc r (hd_idem h, hd_prov h) (w\<lparr>clock := stl (clock w)\<rparr>) = (calls, (i, p), w1)"
    using assms by (simp add: mux_ServeHTTP_def)
  show ?thesis by (rule ServeHTTP_eq[OF call]) (use call mux in auto)
qed

definition post_request :: "string list \<Rightarrow> (string \<times> string) list \<Rightarrow> bytes \<Rightarrow> Request" where
  "post_request segs hdrs body = \<lparr>rq_Method = ''POST'', rq_Path = path_of segs, rq_RawQuery = '''',
     rq_Header = hdrs, rq_Body = Inr body, rq_PathValues = []\<rparr>"

definition delete_request :: "string list \<Rightarrow> (string \<times> string) list \<Rightarrow> Request" where
  "delete_request segs hdrs = \<lparr>rq_Method = ''DELETE'', rq_Path = path_of segs, rq_RawQuery = '''',
     rq_Header = hdrs, rq_Body = Inr [], rq_PathValues = []\<rparr>"

lemmas request_defs = get_request_def post_request_def delete_request_def

lemma plain_words [simp]: "plain ''v1''" "plain ''vms''" "plain ''stop''"
  by (simp_all add: plain_def)

lemma route_requests:
  assumes "plain vid"
  shows "findHandler (post_request [''v1'', ''vms''] hdrs body) = Route Create_VM_ep []"
    and "findHandler (get_request [''v1'', ''vms'', vid]) = Route Get_VM_ep [(''vm_id'', vid)]"
    and "findHandler (post_request [''v1'', ''vms'', vid, ''stop''] hdrs body) = Route Stop_VM_ep [(''vm_id'', vid)]"
    and "findHandler (delete_request [''v1'', ''vms'', vid] hdrs) = Route Delete_VM_ep [(''vm_id'', vid)]"
proof -
  have vid: "vid \<noteq> ''/''" using assms by (auto simp: plain_def)
  show "findHandler (post_request [''v1'', ''vms''] hdrs body) = Route Create_VM_ep []"
    by (rule findHandler_plain[where segs = "[''v1'', ''vms'']" and pat = "[Lit ''v1'', Lit ''vms'']"])
      (simp_all add: request_defs routes_def)
  show "findHandler (get_request [''v1'', ''vms'', vid]) = Route Get_VM_ep [(''vm_id'', vid)]"
    by (rule findHandler_plain[where segs = "[''v1'', ''vms'', vid]" and pat = "[Lit ''v1'', Lit ''vms'', Wild ''vm_id'']"])
      (simp_all add: request_defs routes_def vid assms)
  show "findHandler (post_request [''v1'', ''vms'', vid, ''stop''] hdrs body) = Route Stop_VM_ep [(''vm_id'', vid)]"
    by (rule findHandler_plain[where segs = "[''v1'', ''vms'', vid, ''stop'']"
          and pat = "[Lit ''v1'', Lit ''vms'', Wild ''vm_id'', Lit ''stop'']"])
      (simp_all add: request_defs routes_def vid assms)
  show "findHandler (delete_request [''v1'', ''vms'', vid] hdrs) = Route Delete_VM_ep [(''vm_id'', vid)]"
    by (rule findHandler_plain[where segs = "[''v1'', ''vms'', vid]" and pat = "[Lit ''v1'', Lit ''vms'', Wild ''vm_id'']"])
      (simp_all add: request_defs routes_def vid assms)
qed

lemma response_writeJSON: "re_Body (response (writeJSON s j)) = bytes_of (json_Encode j)"
  by (cases j) (simp_all add: writeJSON_def response_def no_response_def json_Encode_def bytes_of_def)

lemma createVM_no_key:
  assumes inv: "memstate_inv (fst p)" and body: "json_Decode dec_VMSpec zero_VMSpec (string_of body) = Some spec"
    and r: "rq_Body r = Inr body" "Header_Get ''Idempotency-Key'' r = ''''"
  shows "\<exists>calls p' w' vm. registered flames_service Create_VM_ep r (i, p) w = (calls, (i, p'), w') \<and>
    status_of calls = 202 \<and> re_Body (response calls) = bytes_of (json_Encode (Some (id_object (fst (memstate_newID w))))) \<and>
    fresh_vm (fst (memstate_newID w)) spec vm \<and> vm_CreatedAt vm = shd (clock w) \<and>
    ms_vms (fst p') (fst (memstate_newID w)) = Some vm"
proof -
  obtain s q where p: "p = (s, q)" by (cases p)
  from memstate_create_get[of s spec q w] inv p obtain s' w' vm where
    c: "Service_CreateVM flames_service spec p w = (Inr (fst (memstate_newID w)), (s', q), w')"
    and vm: "fresh_vm (fst (memstate_newID w)) spec vm" "vm_CreatedAt vm = shd (clock w)"
      "ms_vms s' (fst (memstate_newID w)) = Some vm" by auto
  have "h_createVM flames_service r p w = (writeJSON 202 (Some (id_object (fst (memstate_newID w)))), (s', q), w')"
    using body r(1) c by (simp add: h_createVM_def decode_body_def)
  with vm show ?thesis by (simp add: idem_wrap_no_key[OF r(2)] response_writeJSON)
qed

lemma getVM_found:
  assumes "ms_vms (fst p) vid = Some vm" and "PathValue ''vm_id'' r = vid"
  shows "registered flames_service Get_VM_ep r (i, p) w = (writeJSON 200 (json_VM vm), (i, p), w)"
  using assms by (simp add: unwrapped_def h_getVM_def Service_GetVM_def flames_service_def on_state_def
      memstate_ops_def memstate_GetVM_def)

text \<open>Create and read back, for clients of the server.\<close>

lemma create_get:
  assumes "memstate_inv (fst (hd_prov h))" and "json_Decode dec_VMSpec zero_VMSpec (string_of body) = Some spec"
  shows "\<exists>out h1 w1 vid vm out2 h2 w2.
    ServeHTTP flames_service (post_request [''v1'', ''vms''] [] body) h w = (out, h1, w1) \<and>
    status_of out = 202 \<and> re_Body (response out) = bytes_of (json_Encode (Some (id_object vid))) \<and>
    ServeHTTP flames_service (get_request [''v1'', ''vms'', vid]) h1 w1 = (out2, h2, w2) \<and>
    status_of out2 = 200 \<and> re_Body (response out2) = bytes_of (json_Encode (json_VM vm)) \<and> fresh_vm vid spec vm \<and>
    vm_CreatedAt vm = clock w !! 1"
proof -
  let ?r = "post_request [''v1'', ''vms''] [] body" and ?w = "w\<lparr>clock := stl (clock w)\<rparr>"
  let ?vid = "fst (memstate_newID ?w)"
  have r: "rq_Body (?r\<lparr>rq_PathValues := []\<rparr>) = Inr body" "Header_Get ''Idempotency-Key'' (?r\<lparr>rq_PathValues := []\<rparr>) = ''''"
    by (simp_all add: post_request_def Header_Get_def)
  from createVM_no_key[OF assms r, of "hd_idem h" ?w] obtain calls p' w' vm where
    c: "registered flames_service Create_VM_ep (?r\<lparr>rq_PathValues := []\<rparr>) (hd_idem h, hd_prov h) ?w = (calls, (hd_idem h, p'), w')"
    and d: "status_of calls = 202" "re_Body (response calls) = bytes_of (json_Encode (Some (id_object ?vid)))"
    "fresh_vm ?vid spec vm" "ms_vms (fst p') ?vid = Some vm" "vm_CreatedAt vm = clock w !! 1" by auto
  from serve_route[OF route_requests(1)[OF plain_id] c] obtain out h1 w1 where
    s1: "ServeHTTP flames_service ?r h w = (out, h1, w1)" "response out = response calls" "status_of out = status_of calls"
    "hd_prov h1 = p'" by blast
  let ?g = "get_request [''v1'', ''vms'', ?vid]"
  have "PathValue ''vm_id'' (?g\<lparr>rq_PathValues := [(''vm_id'', ?vid)]\<rparr>) = ?vid" by (simp add: PathValue_def)
  from getVM_found[OF _ this, of "hd_prov h1" vm] d(4) s1(4) have
    "registered flames_service Get_VM_ep (?g\<lparr>rq_PathValues := [(''vm_id'', ?vid)]\<rparr>) (hd_idem h1, hd_prov h1)
      (w1\<lparr>clock := stl (clock w1)\<rparr>) = (writeJSON 200 (json_VM vm), (hd_idem h1, hd_prov h1), w1\<lparr>clock := stl (clock w1)\<rparr>)"
    by blast
  from serve_route[OF route_requests(2)[OF plain_id] this] obtain out2 h2 w2 where
    "ServeHTTP flames_service ?g h1 w1 = (out2, h2, w2)" "status_of out2 = 200"
    "response out2 = response (writeJSON 200 (json_VM vm))" by auto
  with s1 d show ?thesis
    by (intro exI[of _ out] exI[of _ h1] exI[of _ w1] exI[of _ ?vid] exI[of _ vm] exI[of _ out2] exI[of _ h2]
        exI[of _ w2]) (simp add: response_writeJSON)
qed

text \<open>The stop handler behind the middleware, for a VM that exists and a fresh key, and a replay on another route.\<close>

lemma stopVM_found:
  assumes "memstate_inv (fst p)" and "ms_vms (fst p) vid = Some vm" and "PathValue ''vm_id'' r = vid"
  shows "\<exists>p' w'. h_stopVM flames_service r p w = (writeJSON 202 (Some (id_object vid)), p', w') \<and>
    (\<forall>k. k \<noteq> vid \<longrightarrow> ms_vms (fst p') k = ms_vms (fst p) k)"
proof -
  obtain s q where p: "p = (s, q)" by (cases p)
  from memstate_desire[of s DesiredStopped "''vm.stop_requested''" vid q w] assms(1,2) p obtain s' w' t where
    "desire memstate_ops DesiredStopped ''vm.stop_requested'' vid p w = (Inr (), (s', q), w')"
    "ms_vms s' = (ms_vms s)(vid \<mapsto> vm\<lparr>vm_DesiredState := DesiredStopped, vm_UpdatedAt := t\<rparr>)" by auto
  with assms(3) p show ?thesis by (simp add: h_stopVM_def flames_service_def desire_eq)
qed

text \<open>
  C38: The idempotency key is global: it is not tied to a route. When a client stops VM \<^verbatim>\<open>a\<close> and then
  deletes VM \<^verbatim>\<open>b\<close> with the same key within 24 hours, the delete request is answered with the response
  of the stop request (202, naming \<^verbatim>\<open>a\<close>), and VM \<^verbatim>\<open>b\<close> is not deleted.
\<close>

theorem http_key_across_routes:
  assumes "memstate_inv (fst (hd_prov h))" and "plain a" and "plain b" and "a \<noteq> b" and "key \<noteq> ''''"
    and "ms_vms (fst (hd_prov h)) a = Some vm_a" and "ms_vms (fst (hd_prov h)) b = Some vm_b"
    and "is_entries (hd_idem h) key = None"
    and "ServeHTTP flames_service (post_request [''v1'', ''vms'', a, ''stop''] [(''Idempotency-Key'', key)] []) h w = (out, h1, w1)"
    and "clock w1 !! 1 - ie_createdAt (the (is_entries (hd_idem h1) key)) \<le> idempotencyTTL"
    and "ServeHTTP flames_service (delete_request [''v1'', ''vms'', b] [(''Idempotency-Key'', key)]) h1 w1 = (out2, h2, w2)"
  shows "status_of out2 = 202 \<and> re_Body (response out2) = bytes_of (json_Encode (Some (id_object a))) \<and>
    ms_vms (fst (hd_prov h2)) b = Some vm_b"
proof -
  let ?r = "post_request [''v1'', ''vms'', a, ''stop''] [(''Idempotency-Key'', key)] []\<lparr>rq_PathValues := [(''vm_id'', a)]\<rparr>"
  let ?d = "delete_request [''v1'', ''vms'', b] [(''Idempotency-Key'', key)]\<lparr>rq_PathValues := [(''vm_id'', b)]\<rparr>"
  let ?w = "w\<lparr>clock := stl (clock w)\<rparr>" and ?w1 = "w1\<lparr>clock := stl (clock w1)\<rparr>"
  have keys: "Header_Get ''Idempotency-Key'' ?r = key" "Header_Get ''Idempotency-Key'' ?d = key"
    "rq_Body ?r = Inr []" "rq_Body ?d = Inr []" "PathValue ''vm_id'' ?r = a"
    by (simp_all add: request_defs Header_Get_def PathValue_def)
  have fresh: "idem_live (hd_idem h) (shd (clock ?w)) key = None" using assms(8) by (simp add: idem_live_def)
  obtain wa calls p' wb rec out1 where run: "h_stopVM flames_service ?r (hd_prov h) wa = (calls, p', wb)"
    "record_calls responseRecorder_call calls new_responseRecorder = (rec, out1)"
    and wrap: "idem_wrap (h_stopVM flames_service) ?r (hd_idem h, hd_prov h) ?w =
      (out1, (hd_idem h\<lparr>is_entries := (is_entries (hd_idem h))(key \<mapsto> \<lparr>ie_requestHash = sha256_Sum256 [],
         ie_statusCode = rr_statusCode rec, ie_body = rr_body rec, ie_createdAt = shd (clock wb)\<rparr>)\<rparr>, p'),
       wb\<lparr>clock := stl (clock wb)\<rparr>)"
    by (rule idem_wrap_executes[OF keys(1) assms(5) keys(3) fresh, of "h_stopVM flames_service" "hd_prov h"])
  from stopVM_found[OF assms(1,6) keys(5), of wa] run(1) have calls: "calls = writeJSON 202 (Some (id_object a))"
    and same: "\<forall>k. k \<noteq> a \<longrightarrow> ms_vms (fst p') k = ms_vms (fst (hd_prov h)) k" by auto
  note rec = idem_recorded[OF run(2)]
  let ?e = "\<lparr>ie_requestHash = sha256_Sum256 [], ie_statusCode = 202,
    ie_body = bytes_of (json_Encode (Some (id_object a))), ie_createdAt = shd (clock wb)\<rparr>"
  from serve_route[OF route_requests(3)[OF assms(2)], of flames_service "[(''Idempotency-Key'', key)]" "[]" h w] wrap assms(9) rec
  have h1: "is_entries (hd_idem h1) key = Some ?e" "hd_prov h1 = p'"
    by (auto simp: calls response_writeJSON)
  with assms(10) have "idem_live (hd_idem h1) (shd (clock ?w1)) key = Some ?e" by (simp add: idem_live_def)
  from idem_wrap_found[OF keys(2) assms(5) keys(4) this, of "h_deleteVM flames_service" "hd_prov h1"] obtain w3 where
    "registered flames_service Delete_VM_ep ?d (hd_idem h1, hd_prov h1) ?w1 = (idem_replay ?e, (hd_idem h1, hd_prov h1), w3)"
    by auto
  from serve_route[OF route_requests(4)[OF assms(3)] this] assms(11) have
    "response out2 = response (idem_replay ?e)" "hd_prov h2 = hd_prov h1" by auto
  with same assms(4,7) h1 show ?thesis
    by (simp add: status_of_def idem_replay_def)
qed

text \<open>For a concrete run: a server with two VMs.\<close>

definition two_vms :: memstate where
  "two_vms = memstate_New\<lparr>ms_vms :=
     [''a'' \<mapsto> (created_vm zero_VMSpec (clock_world (sconst 1)))\<lparr>vm_ID := ''a''\<rparr>,
      ''b'' \<mapsto> (created_vm zero_VMSpec (clock_world (sconst 1)))\<lparr>vm_ID := ''b''\<rparr>]\<rparr>"

lemma two_vms_inv: "memstate_inv two_vms"
  by (auto simp: two_vms_def memstate_inv_def memstate_New_def)

theorem http_key_across_routes_witness:
  "\<exists>out h1 w1 out2 h2 w2.
    ServeHTTP flames_service (post_request [''v1'', ''vms'', ''a'', ''stop''] [(''Idempotency-Key'', ''k'')] [])
      (NewHandler (two_vms, memqueue_New)) (clock_world (sconst 5)) = (out, h1, w1) \<and>
    ServeHTTP flames_service (delete_request [''v1'', ''vms'', ''b''] [(''Idempotency-Key'', ''k'')]) h1 w1 = (out2, h2, w2) \<and>
    status_of out2 = 202 \<and> ms_vms (fst (hd_prov h2)) ''b'' = ms_vms two_vms ''b''"
proof -
  let ?h = "NewHandler (two_vms, memqueue_New)" and ?w = "clock_world (sconst 5)"
  let ?r = "post_request [''v1'', ''vms'', ''a'', ''stop''] [(''Idempotency-Key'', ''k'')] []"
  let ?d = "delete_request [''v1'', ''vms'', ''b''] [(''Idempotency-Key'', ''k'')]"
  have plain: "plain ''a''" "plain ''b''" by (simp_all add: plain_def)
  obtain out h1 w1 where s1: "ServeHTTP flames_service ?r ?h ?w = (out, h1, w1)" by (metis prod.exhaust)
  obtain out2 h2 w2 where s2: "ServeHTTP flames_service ?d h1 w1 = (out2, h2, w2)" by (metis prod.exhaust)
  have time: "clock w1 = sconst 5" "ie_createdAt (the (is_entries (hd_idem h1) ''k'')) = 5"
    using s1 route_requests(3)[OF plain(1), of "[(''Idempotency-Key'', ''k'')]" "[]"]
    by (auto simp: ServeHTTP_def mux_ServeHTTP_def time_Now_def idem_wrap_def idem_find_def idem_lookup_def
        idem_store_def NewHandler_def newIdempotencyStore_def Header_Get_def PathValue_def post_request_def
        h_stopVM_def flames_service_def desire_eq desire_def on_state_def memstate_ops_def two_vms_def
        memstate_UpdateVMDesiredState_def memstate_AppendEvent_def memstate_newID_eq zero_Event_def time_IsZero_def Let_def
        split: prod.splits)
  obtain va vb where vms: "ms_vms (fst (hd_prov ?h)) ''a'' = Some va" "ms_vms (fst (hd_prov ?h)) ''b'' = Some vb"
    by (simp add: NewHandler_def two_vms_def)
  have "status_of out2 = 202 \<and> re_Body (response out2) = bytes_of (json_Encode (Some (id_object ''a''))) \<and>
      ms_vms (fst (hd_prov h2)) ''b'' = Some vb"
    by (rule http_key_across_routes[OF _ plain _ _ vms _ s1 _ s2])
      (simp_all add: time NewHandler_def two_vms_inv newIdempotencyStore_def idempotencyTTL_def Hour_def)
  with s1 s2 vms show ?thesis by (auto simp: NewHandler_def)
qed


end
