(* ===== verification/Json_Roundtrip.thy ===== *)
theory Json_Roundtrip
  imports Json_Codec
begin

text \<open>
  Decoding undoes encoding: strings that are valid UTF-8 survive escaping and unescaping, the parser
  reads back the tree that was printed, and numbers are read back as printed.
\<close>

subsection \<open>Strings\<close>

function valid_utf8 :: "string \<Rightarrow> bool" where
  "valid_utf8 [] = True"
| "valid_utf8 (c # cs) = (let n = utf8_len (c # cs) in if n = 0 then False else valid_utf8 (drop n (c # cs)))"
  by pat_completeness auto
termination by (relation "measure length") auto

lemma chr_code_eq: "chr_code c = n \<longleftrightarrow> n < 256 \<and> c = char_of n"
  by (auto simp: chr_code_def of_char_mod_256)

lemma char_of_chr_code [simp]: "char_of (chr_code c) = c"
  by (simp add: chr_code_def)

lemma chr_code_char_of: "n < 256 \<Longrightarrow> chr_code (char_of n) = n"
  by (simp add: chr_code_def of_char_of)

lemma hex_digit_hextable: "k < 16 \<Longrightarrow> hex_digit (hextable ! k) = Some k"
proof -
  have "\<forall>k\<in>{..<16}. hex_digit (hextable ! k) = Some k" by code_simp
  then show "k < 16 \<Longrightarrow> ?thesis" by blast
qed

lemma nibbles:
  fixes n :: nat
  assumes "n < 0x10000"
  shows "((n div 4096 mod 16 * 16 + n div 256 mod 16) * 16 + n div 16 mod 16) * 16 + n mod 16 = n"
proof -
  have "n div 4096 mod 16 = n div 4096" using assms by simp
  moreover have "n div 4096 * 16 + n div 256 mod 16 = n div 256"
    using div_mult_mod_eq[of "n div 256" 16] by (simp add: div_mult2_eq[symmetric])
  moreover have "n div 256 * 16 + n div 16 mod 16 = n div 16"
    using div_mult_mod_eq[of "n div 16" 16] by (simp add: div_mult2_eq[symmetric])
  moreover have "n div 16 * 16 + n mod 16 = n" by (rule div_mult_mod_eq)
  ultimately show ?thesis by simp
qed

lemma getu4_u_escape: "n < 0x10000 \<Longrightarrow> getu4 (drop 2 (u_escape n) @ t) = Some n"
  using nibbles[of n] by (simp add: u_escape_def hex_digit_hextable)

lemma u_escape_parts: "u_escape n = backslash # CHR ''u'' # drop 2 (u_escape n)" "length (drop 2 (u_escape n)) = 4"
  by (simp_all add: u_escape_def)

lemma unquote_u_escape:
  assumes "n < 0x10000" "\<not> (0xD800 \<le> n \<and> n < 0xE000)"
  shows "json_unquote (u_escape n @ t) = utf8_encode n @ json_unquote t"
proof -
  have step: "json_unquote (backslash # CHR ''u'' # ds) = utf8_encode n @ json_unquote (drop 4 ds)"
    if "getu4 ds = Some n" for ds
    using that assms(2) by auto
  let ?d = "drop 2 (u_escape n)"
  have "json_unquote (u_escape n @ t) = json_unquote (backslash # CHR ''u'' # ?d @ t)"
    by (subst u_escape_parts(1)) simp
  also have "\<dots> = utf8_encode n @ json_unquote (drop 4 (?d @ t))"
    by (rule step[OF getu4_u_escape[OF assms(1)]])
  also have "drop 4 (?d @ t) = t" using u_escape_parts(2)[of n] by simp
  finally show ?thesis .
qed

lemma unquote_simple:
  "simple_escape e = Some x \<Longrightarrow> e \<noteq> CHR ''u'' \<Longrightarrow> json_unquote (backslash # e # t) = x # json_unquote t"
  by simp

lemma unquote_plain:
  "c \<noteq> backslash \<Longrightarrow> chr_code c < 0x80 \<Longrightarrow> json_unquote (c # t) = c # json_unquote t"
  by simp

lemma utf8_encode_ascii: "chr_code c < 0x80 \<Longrightarrow> utf8_encode (chr_code c) = [c]"
  by (simp add: utf8_encode_def)

lemma unquote_escape_ascii:
  assumes "chr_code c < 0x80"
  shows "json_unquote (escape_ascii c @ t) = c # json_unquote t"
proof -
  have vals: "char_of (8::nat) = CHR 0x08" "char_of (12::nat) = CHR 0x0C" "char_of (10::nat) = CHR 0x0A"
    "char_of (13::nat) = CHR 0x0D" "char_of (9::nat) = CHR 0x09" by code_simp+
  consider (self) "c = backslash \<or> c = dquote"
    | (ctl) "c \<in> {CHR 0x08, CHR 0x0C, CHR 0x0A, CHR 0x0D, CHR 0x09}"
    | (u) "c \<noteq> backslash" "c \<noteq> dquote" "chr_code c \<notin> {0x08, 0x0C, 0x0A, 0x0D, 0x09}"
          "chr_code c < 0x20 \<or> c \<in> {CHR ''<'', CHR ''>'', CHR ''&''}"
    | (plain) "c \<noteq> backslash" "c \<noteq> dquote" "chr_code c \<notin> {0x08, 0x0C, 0x0A, 0x0D, 0x09}"
          "\<not> (chr_code c < 0x20 \<or> c \<in> {CHR ''<'', CHR ''>'', CHR ''&''})"
    by (simp add: chr_code_eq vals) blast
  then show ?thesis
  proof cases
    case self
    then show ?thesis by (auto simp: escape_ascii_def simple_escape_def backslash_def dquote_def chr_code_def)
  next
    case u
    then have "escape_ascii c = u_escape (chr_code c)" by (simp add: escape_ascii_def)
    with unquote_u_escape[of "chr_code c" t] utf8_encode_ascii[OF assms] assms show ?thesis by simp
  next
    case plain
    then have "escape_ascii c = [c]" by (simp add: escape_ascii_def)
    with plain(1) unquote_plain[OF _ assms] show ?thesis by simp
  next
    case ctl
    have "\<forall>c\<in>{CHR 0x08, CHR 0x0C, CHR 0x0A, CHR 0x0D, CHR 0x09}. \<exists>e. escape_ascii c = [backslash, e] \<and>
        simple_escape e = Some c \<and> e \<noteq> CHR ''u''"
      by (simp add: escape_ascii_def simple_escape_def backslash_def dquote_def chr_code_def)
    with ctl obtain e where "escape_ascii c = [backslash, e]" "simple_escape e = Some c" "e \<noteq> CHR ''u''" by blast
    with unquote_simple show ?thesis by simp
  qed
qed

lemma utf8_len_take:
  assumes "utf8_len s = n" "0 < n"
  shows "n \<le> length s" and "utf8_len (take n s @ t) = n"
proof -
  obtain c cs where s: "s = c # cs" using assms by (cases s) (auto simp: utf8_len_def)
  have "n \<le> length s \<and> utf8_len (take n s @ t) = n"
  proof (cases cs)
    case Nil
    with assms s show ?thesis by (auto simp: utf8_len_def in_range_def Let_def split: if_splits)
  next
    case (Cons d ds)
    note cs = this
    show ?thesis
    proof (cases ds)
      case Nil
      with assms s cs show ?thesis by (auto simp: utf8_len_def in_range_def Let_def split: if_splits)
    next
      case (Cons e es)
      with assms s cs show ?thesis
        by (cases es) (auto simp: utf8_len_def in_range_def Let_def split: if_splits)
    qed
  qed
  then show "n \<le> length s" "utf8_len (take n s @ t) = n" by blast+
qed

lemma high_chars: "0x80 \<le> chr_code c \<Longrightarrow> c \<noteq> backslash \<and> c \<noteq> dquote"
  by (auto simp: backslash_def dquote_def chr_code_def)

lemma unquote_rune:
  assumes "utf8_len (c # cs) = n" "0 < n" "0x80 \<le> chr_code c"
  shows "json_unquote (take n (c # cs) @ t) = take n (c # cs) @ json_unquote t"
proof -
  note len = utf8_len_take[OF assms(1,2)]
  obtain m where n: "n = Suc m" using assms(2) by (cases n) auto
  let ?u = "c # take m cs @ t"
  have u: "take n (c # cs) @ t = ?u" by (simp add: n)
  have "utf8_len ?u = n" using len(2)[of t] by (simp add: n)
  moreover have "take n ?u = take n (c # cs)" "drop n ?u = t" using len(1) by (simp_all add: n)
  ultimately have "json_unquote ?u = take n (c # cs) @ json_unquote t"
    using assms high_chars[OF assms(3)] by (simp add: n)
  then show ?thesis by (simp only: u)
qed

lemma unquote_escape: "valid_utf8 s \<Longrightarrow> json_unquote (json_escape s) = s"
proof (induction s rule: valid_utf8.induct)
  case (2 c cs)
  let ?n = "utf8_len (c # cs)"
  show ?case
  proof (cases "chr_code c < 0x80")
    case True
    then have "?n = 1" by (simp add: utf8_len_def)
    with 2 True show ?thesis by (simp add: unquote_escape_ascii)
  next
    case False
    from 2 have n: "0 < ?n" and IH: "json_unquote (json_escape (drop ?n (c # cs))) = drop ?n (c # cs)"
      by (auto simp: Let_def split: if_splits)
    let ?rest = "json_escape (drop ?n (c # cs))" and ?rune = "take ?n (c # cs)"
    have eq: "json_escape (c # cs) =
        (if ?rune = utf8_encode 0x2028 then u_escape 0x2028 @ ?rest
         else if ?rune = utf8_encode 0x2029 then u_escape 0x2029 @ ?rest else ?rune @ ?rest)"
      using False n by (simp add: Let_def)
    have raw: "json_unquote (?rune @ ?rest) = ?rune @ json_unquote ?rest"
      using unquote_rune[OF refl n] False by simp
    have "json_unquote (json_escape (c # cs)) = ?rune @ json_unquote ?rest"
      unfolding eq using raw unquote_u_escape[of "0x2028" ?rest] unquote_u_escape[of "0x2029" ?rest]
      by (simp split: if_split)
    also have "\<dots> = ?rune @ drop ?n (c # cs)" by (simp only: IH)
    finally have "json_unquote (json_escape (c # cs)) = ?rune @ drop ?n (c # cs)" .
    then show ?thesis by simp
  qed
qed simp

text \<open>The scanner finds the end of an escaped string.\<close>

definition prefixed :: "string \<Rightarrow> (string \<times> string) option \<Rightarrow> (string \<times> string) option" where
  "prefixed u = map_option (\<lambda>(raw, r). (u @ raw, r))"

lemma prefixed_simps:
  "prefixed [] x = x" "prefixed u (prefixed v x) = prefixed (u @ v) x" "prefixed u (Some (raw, r)) = Some (u @ raw, r)"
  by (cases x; auto simp: prefixed_def)+

lemma scan_prefixed:
  "map_option (apfst ((#) c)) x = prefixed [c] x" "map_option (apfst (\<lambda>raw. c # e # raw)) x = prefixed [c, e] x"
  by (cases x; auto simp: prefixed_def)+

definition transparent :: "string \<Rightarrow> bool" where
  "transparent u \<longleftrightarrow> (\<forall>t. scan_string (u @ t) = prefixed u (scan_string t))"

lemma transparent_append: "transparent u \<Longrightarrow> transparent v \<Longrightarrow> transparent (u @ v)"
  by (simp add: transparent_def prefixed_simps)

lemma transparent_plain:
  assumes "\<forall>c\<in>set u. c \<noteq> dquote \<and> c \<noteq> backslash \<and> 0x20 \<le> chr_code c"
  shows "transparent u"
  using assms
proof (induction u)
  case Nil
  then show ?case by (simp add: transparent_def prefixed_simps)
next
  case (Cons c u)
  then have "scan_string (c # u @ t) = prefixed [c] (scan_string (u @ t))" for t by (simp add: scan_prefixed)
  with Cons show ?case by (simp add: transparent_def prefixed_simps)
qed

lemma transparent_escape:
  assumes "simple_escape e \<noteq> None"
  shows "transparent [backslash, e]"
proof -
  have "backslash \<noteq> dquote" "\<not> chr_code backslash < 0x20" by (simp_all add: backslash_def dquote_def chr_code_def)
  with assms show ?thesis by (auto simp: transparent_def scan_prefixed)
qed

lemma transparent_u_escape:
  assumes "n < 0x10000"
  shows "transparent (u_escape n)"
proof -
  have "length hextable = 16" "\<forall>c\<in>set hextable. c \<noteq> dquote \<and> c \<noteq> backslash \<and> 0x20 \<le> chr_code c"
    by (simp_all add: hextable_def dquote_def backslash_def chr_code_def)
  then have "\<forall>c\<in>set (drop 2 (u_escape n)). c \<noteq> dquote \<and> c \<noteq> backslash \<and> 0x20 \<le> chr_code c"
    by (simp add: u_escape_def)
  then have digits: "transparent (drop 2 (u_escape n))" by (rule transparent_plain)
  have "backslash \<noteq> dquote" "\<not> chr_code backslash < 0x20" by (simp_all add: backslash_def dquote_def chr_code_def)
  then have "scan_string (backslash # CHR ''u'' # ds) = prefixed [backslash, CHR ''u''] (scan_string ds)"
    if "getu4 ds \<noteq> None" for ds
    using that by (auto simp: scan_prefixed)
  with getu4_u_escape[OF assms] digits have "transparent (backslash # CHR ''u'' # drop 2 (u_escape n))"
    by (simp add: transparent_def prefixed_simps)
  then show ?thesis using u_escape_parts(1)[of n] by simp
qed

lemma transparent_escape_ascii:
  assumes "chr_code c < 0x80"
  shows "transparent (escape_ascii c)"
proof -
  have esc: "transparent [backslash, e]" if "e \<in> {backslash, dquote, CHR ''b'', CHR ''f'', CHR ''n'', CHR ''r'', CHR ''t''}" for e
    using that by (intro transparent_escape) (auto simp: simple_escape_def)
  have "transparent [c]" if "\<not> (c = backslash \<or> c = dquote)" "\<not> (chr_code c < 0x20 \<or> c \<in> {CHR ''<'', CHR ''>'', CHR ''&''})"
    using that by (intro transparent_plain) simp
  then show ?thesis unfolding escape_ascii_def
    using esc[of backslash] esc[of dquote] esc[of "CHR ''b''"] esc[of "CHR ''f''"] esc[of "CHR ''n''"] esc[of "CHR ''r''"] esc[of "CHR ''t''"]
      transparent_u_escape[of "chr_code c"] assms
    by (simp split: if_split)
qed

lemma rune_high:
  assumes "utf8_len (c # cs) = n" "0x80 \<le> chr_code c"
  shows "\<forall>x\<in>set (take n (c # cs)). 0x80 \<le> chr_code x"
proof (cases cs)
  case Nil
  with assms show ?thesis by (auto simp: utf8_len_def in_range_def Let_def split: if_splits)
next
  case (Cons d ds)
  note cs = this
  show ?thesis
  proof (cases ds)
    case Nil
    with assms cs show ?thesis by (auto simp: utf8_len_def in_range_def Let_def split: if_splits)
  next
    case (Cons e es)
    with assms cs show ?thesis
      by (cases es) (auto simp: utf8_len_def in_range_def Let_def split: if_splits)
  qed
qed

lemma transparent_json_escape: "transparent (json_escape s)"
proof (induction s rule: length_induct)
  case (1 s)
  show ?case
  proof (cases s)
    case Nil
    then show ?thesis by (simp add: transparent_plain)
  next
    case (Cons c cs)
    let ?n = "utf8_len (c # cs)"
    from 1 Cons have cs: "transparent (json_escape cs)" by simp
    have rest: "transparent (json_escape (drop ?n (c # cs)))" if "?n \<noteq> 0"
      using 1[rule_format, of "drop ?n (c # cs)"] that Cons by simp
    have rune: "transparent (take ?n (c # cs))" if "\<not> chr_code c < 0x80"
    proof (rule transparent_plain, rule ballI)
      fix x assume "x \<in> set (take ?n (c # cs))"
      with rune_high[OF refl, of c cs] that have "0x80 \<le> chr_code x" by simp
      with high_chars[OF this] show "x \<noteq> dquote \<and> x \<noteq> backslash \<and> 0x20 \<le> chr_code x" by simp
    qed
    show ?thesis
    proof (cases "chr_code c < 0x80")
      case True
      with cs Cons show ?thesis by (simp add: transparent_append transparent_escape_ascii)
    next
      case False
      have "json_escape s = u_escape 0xFFFD @ json_escape cs \<or>
          ?n \<noteq> 0 \<and> (\<exists>u. transparent u \<and> json_escape s = u @ json_escape (drop ?n (c # cs)))"
        using False rune[OF False] transparent_u_escape[of "0x2028"] transparent_u_escape[of "0x2029"]
        by (auto simp: Cons Let_def)
      with cs rest show ?thesis by (auto simp: transparent_append transparent_u_escape)
    qed
  qed
qed

lemma scan_escaped: "scan_string (json_escape s @ dquote # t) = Some (json_escape s, t)"
  using transparent_json_escape[of s] by (simp add: transparent_def prefixed_simps)

subsection \<open>Trees\<close>

text \<open>
  What the printer is given: raw strings the scanner passes over, number literals that end where
  they are meant to, and no more nesting than the parser allows.
\<close>

definition ends_number :: "string \<Rightarrow> bool" where
  "ends_number t \<longleftrightarrow> (case t of [] \<Rightarrow> True | c # _ \<Rightarrow> \<not> is_digit c \<and> c \<notin> {CHR ''.'', CHR ''e'', CHR ''E''})"

definition number_ok :: "string \<Rightarrow> bool" where
  "number_ok n \<longleftrightarrow> n \<noteq> [] \<and> (is_digit (hd n) \<or> hd n = CHR ''-'') \<and>
     (\<forall>t. ends_number t \<longrightarrow> scan_number (n @ t) = Some (n, t))"

fun good :: "nat \<Rightarrow> json \<Rightarrow> bool" where
  "good d JNull \<longleftrightarrow> True"
| "good d (JBool b) \<longleftrightarrow> True"
| "good d (JNum n) \<longleftrightarrow> number_ok n"
| "good d (JStr raw) \<longleftrightarrow> transparent raw"
| "good d (JArr js) \<longleftrightarrow> 0 < d \<and> (\<forall>j\<in>set js. good (d - 1) j)"
| "good d (JObj kvs) \<longleftrightarrow> 0 < d \<and> (\<forall>kv\<in>set kvs. transparent (fst kv) \<and> good (d - 1) (snd kv))"

text \<open>The recursion depth the parser needs for a tree.\<close>

fun need :: "json \<Rightarrow> nat" and needs :: "json list \<Rightarrow> nat" and needs_members :: "(string \<times> json) list \<Rightarrow> nat" where
  "need (JArr js) = Suc (needs js)"
| "need (JObj kvs) = Suc (needs_members kvs)"
| "need _ = 1"
| "needs [] = 0"
| "needs (j # js) = Suc (max (need j) (needs js))"
| "needs_members [] = 0"
| "needs_members ((k, j) # kvs) = Suc (max (need j) (needs_members kvs))"

lemma value_start:
  assumes "good d j"
  obtains c cs where "json_text j = c # cs" "\<not> is_space c" "c \<noteq> CHR '']''" "c \<noteq> CHR ''}''"
proof (cases j)
  case (JNum n)
  with assms obtain c cs where n: "n = c # cs" "is_digit c \<or> c = CHR ''-''" by (cases n) (auto simp: number_ok_def)
  then have "\<not> is_space c" "c \<noteq> CHR '']''" "c \<noteq> CHR ''}''"
    by (auto simp: is_digit_def is_space_def chr_code_def)
  with JNum n that show thesis by simp
next
  case (JBool b)
  with that show thesis by (cases b) (simp_all add: is_space_def chr_code_def)
qed (use that in \<open>simp_all add: is_space_def chr_code_def quoted_def dquote_def\<close>)

lemma skip_nonspace: "\<not> is_space c \<Longrightarrow> skip_space (c # cs) = c # cs"
  by (simp add: skip_space_def)

lemma skip_punct [simp]:
  "skip_space (CHR ''['' # t) = CHR ''['' # t" "skip_space (CHR '']'' # t) = CHR '']'' # t"
  "skip_space (CHR ''{'' # t) = CHR ''{'' # t" "skip_space (CHR ''}'' # t) = CHR ''}'' # t"
  "skip_space (CHR '','' # t) = CHR '','' # t" "skip_space (CHR '':'' # t) = CHR '':'' # t"
  "skip_space (dquote # t) = dquote # t"
  by (simp_all add: skip_space_def is_space_def chr_code_def dquote_def)

lemma ends_punct [simp]:
  "ends_number (CHR '']'' # t)" "ends_number (CHR ''}'' # t)" "ends_number (CHR '','' # t)"
  by (simp_all add: ends_number_def is_digit_def)

lemma dquote_neq [simp]:
  "dquote \<noteq> CHR ''{''" "dquote \<noteq> CHR ''[''" "dquote \<noteq> CHR '']''" "dquote \<noteq> CHR ''}''"
  by (simp_all add: dquote_def)

lemma scan_transparent: "transparent raw \<Longrightarrow> scan_string (raw @ dquote # t) = Some (raw, t)"
  by (simp add: transparent_def prefixed_simps)

lemma parse_number:
  assumes "number_ok n" "ends_number t"
  shows "parse_value (Suc m) d (n @ t) = Some (JNum n, t)"
proof -
  from assms(1) obtain c cs where n: "n = c # cs" "is_digit c \<or> c = CHR ''-''" by (cases n) (auto simp: number_ok_def)
  then have c: "\<not> is_space c" "c \<noteq> dquote" "c \<notin> {CHR ''{'', CHR ''['', CHR ''n'', CHR ''t'', CHR ''f''}"
    by (auto simp: is_digit_def is_space_def chr_code_def dquote_def)
  have "scan_number (c # cs @ t) = Some (n, t)" using assms n(1) by (simp add: number_ok_def)
  with c show ?thesis by (simp add: n(1) skip_nonspace)
qed

lemma parse_text:
  shows "good d j \<Longrightarrow> need j \<le> n \<Longrightarrow> ends_number t \<Longrightarrow> parse_value n d (json_text j @ t) = Some (j, t)"
    and "js \<noteq> [] \<Longrightarrow> \<forall>j\<in>set js. good d j \<Longrightarrow> needs js \<le> n \<Longrightarrow>
      parse_elems n d (json_elems js @ CHR '']'' # t) = Some (js, t)"
    and "kvs \<noteq> [] \<Longrightarrow> \<forall>kv\<in>set kvs. transparent (fst kv) \<and> good d (snd kv) \<Longrightarrow> needs_members kvs \<le> n \<Longrightarrow>
      parse_members n d (json_members kvs @ CHR ''}'' # t) = Some (kvs, t)"
proof (induction j and js and kvs arbitrary: d n t and d n t and d n t
    rule: json_text_json_elems_json_members.induct)
  case 1
  then show ?case by (cases n) (auto simp: strip_def skip_space_def is_space_def chr_code_def dquote_def)
next
  case (2 b)
  then show ?case
    by (cases n; cases b) (auto simp: strip_def skip_space_def is_space_def chr_code_def dquote_def)
next
  case (3 num)
  then show ?case by (cases n) (simp_all add: parse_number del: parse_value.simps(2))
next
  case (4 raw)
  then show ?case by (cases n) (simp_all add: quoted_def scan_transparent)
next
  case (5 js)
  then obtain m where n: "n = Suc m" by (cases n) auto
  show ?case
  proof (cases js)
    case Nil
    with 5 n show ?thesis by simp
  next
    case (Cons j js')
    with 5 have "good (d - 1) j" by simp
    then obtain c cs where "json_text j = c # cs" and c: "\<not> is_space c" "c \<noteq> CHR '']''" by (rule value_start)
    then obtain cs' where tx: "json_elems js @ CHR '']'' # t = c # cs'" using Cons by (cases js') auto
    have "parse_elems m (d - 1) (c # cs') = Some (js, t)"
      using 5 n Cons by (simp flip: tx)
    with 5 n tx c show ?thesis by (simp add: skip_nonspace)
  qed
next
  case (6 kvs)
  then obtain m where n: "n = Suc m" by (cases n) auto
  show ?case
  proof (cases kvs)
    case Nil
    with 6 n show ?thesis by simp
  next
    case (Cons kv kvs')
    then obtain cs' where tx: "json_members kvs @ CHR ''}'' # t = dquote # cs'"
      by (cases kv; cases kvs') (auto simp: quoted_def)
    have "parse_members m (d - 1) (dquote # cs') = Some (kvs, t)"
      using 6 n Cons by (simp flip: tx)
    with 6 n tx show ?thesis by simp
  qed
next
  case (8 j)
  then obtain m where n: "n = Suc m" by (cases n) auto
  with 8 show ?case by simp
next
  case (9 j j' js)
  then obtain m where n: "n = Suc m" by (cases n) auto
  from 9 n have "parse_value m d (json_text j @ CHR '','' # json_elems (j' # js) @ CHR '']'' # t) =
      Some (j, CHR '','' # json_elems (j' # js) @ CHR '']'' # t)" by simp
  moreover from 9 n have "parse_elems m d (json_elems (j' # js) @ CHR '']'' # t) = Some (j' # js, t)" by simp
  ultimately show ?case by (simp add: n)
next
  case (11 k j)
  then obtain m where n: "n = Suc m" by (cases n) auto
  with 11 show ?case by (simp add: quoted_def scan_transparent)
next
  case (12 k j kv kvs)
  then obtain m where n: "n = Suc m" by (cases n) auto
  from 12 n have "parse_value m d (json_text j @ CHR '','' # json_members (kv # kvs) @ CHR ''}'' # t) =
      Some (j, CHR '','' # json_members (kv # kvs) @ CHR ''}'' # t)" by simp
  moreover from 12 n have "parse_members m d (json_members (kv # kvs) @ CHR ''}'' # t) = Some (kv # kvs, t)" by simp
  ultimately show ?case using 12 by (simp add: n quoted_def scan_transparent)
qed simp_all

lemma need_bound:
  "good d j \<Longrightarrow> need j \<le> 2 * length (json_text j)"
  "\<forall>j\<in>set js. good d j \<Longrightarrow> needs js \<le> 2 * length (json_elems js) + 1"
  "\<forall>kv\<in>set kvs. good d (snd kv) \<Longrightarrow> needs_members kvs \<le> 2 * length (json_members kvs) + 1"
proof (induction j and js and kvs arbitrary: d and d and d rule: json_text_json_elems_json_members.induct)
  case (3 n)
  then show ?case by (cases n) (auto simp: number_ok_def)
next
  case (5 js)
  from 5(1)[of "d - 1"] 5(2) have "needs js \<le> 2 * length (json_elems js) + 1" by simp
  then show ?case by simp
next
  case (6 kvs)
  from 6(1)[of "d - 1"] 6(2) have "needs_members kvs \<le> 2 * length (json_members kvs) + 1" by simp
  then show ?case by simp
next
  case (9 j j' js)
  from 9(1)[of d] 9(2)[of d] 9(3) show ?case by simp
next
  case (11 k j)
  from 11(1)[of d] 11(2) show ?case by (simp add: quoted_def)
next
  case (12 k j kv kvs)
  from 12(1)[of d] 12(2)[of d] 12(3) show ?case by (simp add: quoted_def)
qed (auto simp: quoted_def)

theorem json_parse_text:
  assumes "good max_nesting j" "ends_number t"
  shows "json_parse (json_text j @ t) = Some j"
proof -
  have "need j \<le> 2 * length (json_text j @ t) + 2" using need_bound(1)[OF assms(1)] by simp
  from parse_text(1)[OF assms(1) this assms(2)] show ?thesis by (simp add: json_parse_def)
qed

subsection \<open>Numbers\<close>

lemma digit_char:
  assumes "k < 10"
  shows "is_digit (hextable ! k)" "digit_val (hextable ! k) = k" "hextable ! k = CHR ''0'' \<longleftrightarrow> k = 0"
proof -
  have "\<forall>k\<in>{..<10}. is_digit (hextable ! k) \<and> digit_val (hextable ! k) = k \<and> (hextable ! k = CHR ''0'' \<longleftrightarrow> k = 0)"
    by code_simp
  with assms show "is_digit (hextable ! k)" "digit_val (hextable ! k) = k" "hextable ! k = CHR ''0'' \<longleftrightarrow> k = 0"
    by blast+
qed

lemma nat_text_digits: "\<forall>c\<in>set (nat_text n). is_digit c"
  by (induction n rule: nat_text.induct) (subst nat_text.simps, auto simp: digit_char)

lemma nat_text_nonempty: "nat_text n \<noteq> []"
  by (subst nat_text.simps) simp

lemma nat_text_leading: "hd (nat_text n) = CHR ''0'' \<longleftrightarrow> n = 0"
proof (induction n rule: nat_text.induct)
  case (1 n)
  show ?case
  proof (cases "n < 10")
    case True
    then show ?thesis by (subst nat_text.simps) (simp add: digit_char)
  next
    case False
    with 1 have "hd (nat_text (n div 10)) = CHR ''0'' \<longleftrightarrow> n div 10 = 0" by simp
    moreover have "hd (nat_text n) = hd (nat_text (n div 10))"
      using False by (subst nat_text.simps) (simp add: nat_text_nonempty)
    ultimately show ?thesis using False by auto
  qed
qed

lemma nat_text_0: "nat_text 0 = ''0''"
  by (subst nat_text.simps) (simp add: hextable_def)

lemma parse_nat_text: "n < 2 ^ 64 \<Longrightarrow> parse_uint_loop 0 (nat_text n @ s) = parse_uint_loop n s"
proof (induction n arbitrary: s rule: nat_text.induct)
  case (1 n)
  show ?case
  proof (cases "n < 10")
    case True
    then show ?thesis by (subst nat_text.simps) (simp add: digit_char)
  next
    case False
    then have "parse_uint_loop 0 (nat_text n @ s) = parse_uint_loop 0 (nat_text (n div 10) @ hextable ! (n mod 10) # s)"
      by (subst nat_text.simps) simp
    also have "\<dots> = parse_uint_loop (n div 10) (hextable ! (n mod 10) # s)" using 1 False by simp
    also have "\<dots> = parse_uint_loop n s" using 1(2) by (simp add: digit_char)
    finally show ?thesis .
  qed
qed

lemma Atoi_int_text:
  assumes "int64_range n"
  shows "Atoi (int_text n) = (n, None)"
proof -
  have hd: "hd (nat_text k) \<noteq> CHR ''-''" "hd (nat_text k) \<noteq> CHR ''+''" for k
  proof -
    have "is_digit (hd (nat_text k))" using nat_text_digits[of k] nat_text_nonempty[of k] by simp
    then show "hd (nat_text k) \<noteq> CHR ''-''" "hd (nat_text k) \<noteq> CHR ''+''" by (auto simp: is_digit_def)
  qed
  have parse: "parse_uint (nat_text k) = Inr k" if "k < 2 ^ 64" for k
    using parse_nat_text[OF that, of "[]"] by (simp add: parse_uint_def nat_text_nonempty)
  from assms have "nat n < 2 ^ 63" "nat (- n) \<le> 2 ^ 63"
    by (auto simp: int64_range_def min_int64_def max_int64_def)
  then show ?thesis
    using parse[of "nat n"] parse[of "nat (- n)"]
    by (cases "n < 0") (simp_all add: Atoi_def int_text_def Let_def hd nat_text_nonempty)
qed

lemma digits_app:
  assumes "\<forall>c\<in>set s. is_digit c" "ends_number t"
  shows "digits (s @ t) = (s, t)"
proof -
  have "takeWhile is_digit t = []" "dropWhile is_digit t = t" using assms(2) by (cases t; simp add: ends_number_def)+
  with assms(1) show ?thesis by (simp add: digits_def)
qed

lemma scan_nat_text:
  assumes "ends_number t"
  shows "scan_number (nat_text n @ t) = Some (nat_text n, t)"
    and "scan_number (CHR ''-'' # nat_text n @ t) = Some (CHR ''-'' # nat_text n, t)"
proof -
  have rest: "scan_fraction t = Some ([], t)" "scan_exponent t = Some ([], t)"
    using assms by (cases t; simp add: scan_fraction_def scan_exponent_def ends_number_def)+
  obtain c cs where n: "nat_text n = c # cs" using nat_text_nonempty[of n] by (cases "nat_text n") auto
  have c: "c \<noteq> CHR ''-''" using nat_text_digits[of n] by (auto simp: n is_digit_def)
  have part: "(if c = CHR ''0'' then ([c], cs @ t) else digits (c # cs @ t)) = (nat_text n, t)"
  proof (cases "n = 0")
    case True
    with n show ?thesis by (simp add: nat_text_0)
  next
    case False
    with nat_text_leading[of n] n digits_app[OF nat_text_digits assms, of n] show ?thesis by simp
  qed
  show "scan_number (nat_text n @ t) = Some (nat_text n, t)"
    using part rest c by (simp add: scan_number_def n)
  show "scan_number (CHR ''-'' # nat_text n @ t) = Some (CHR ''-'' # nat_text n, t)"
    using part rest by (simp add: scan_number_def n)
qed

lemma number_ok_int: "number_ok (int_text n)"
proof -
  have "is_digit (hd (nat_text k))" for k using nat_text_digits[of k] nat_text_nonempty[of k] by simp
  then show ?thesis using scan_nat_text nat_text_nonempty by (simp add: number_ok_def int_text_def)
qed

end
