(* ===== verification/Codec_Roundtrip.thy ===== *)
theory Codec_Roundtrip
  imports Json_Roundtrip
begin

text \<open>
  The domain types survive the wire: what \<^verbatim>\<open>encoding/json\<close> prints for a specification, a heartbeat or a
  controller, the decoders read back as the same value, provided its strings are UTF-8 and its numbers
  fit 64 bits (other strings are printed with replacement characters).
\<close>

subsection \<open>Keys of the domain types\<close>

definition plain_key :: "string \<Rightarrow> bool" where
  "plain_key s \<longleftrightarrow> list_all (\<lambda>c. c \<noteq> dquote \<and> c \<noteq> backslash \<and> 0x20 \<le> chr_code c \<and> chr_code c < 0x80) s"

lemma plain_key_transparent: "plain_key s \<Longrightarrow> transparent s"
  by (rule transparent_plain) (simp add: plain_key_def list_all_iff)

lemma plain_key_unquote: "plain_key s \<Longrightarrow> json_unquote s = s"
  by (induction s) (simp_all add: plain_key_def)

lemma plain_keys [simp]:
  "plain_key ''vcpus''" "plain_key ''memory_mb''" "plain_key ''timeout_seconds''" "plain_key ''auto_delete''"
  "plain_key ''restart_policy''" "plain_key ''command''" "plain_key ''args''" "plain_key ''env''"
  "plain_key ''guest''" "plain_key ''host''" "plain_key ''protocol''" "plain_key ''ports''"
  "plain_key ''root_disk_size_mb''" "plain_key ''labels''" "plain_key ''resources''" "plain_key ''lifecycle''"
  "plain_key ''runtime''" "plain_key ''network''" "plain_key ''storage''" "plain_key ''placement''"
  "plain_key ''metadata''" "plain_key ''total_vcpus''" "plain_key ''total_memory_mb''" "plain_key ''used_vcpus''"
  "plain_key ''used_memory_mb''" "plain_key ''id''" "plain_key ''status''" "plain_key ''capacity''"
  "plain_key ''last_heartbeat_at''"
  by (simp_all add: plain_key_def dquote_def backslash_def chr_code_def)

lemma dec_members_step:
  assumes "plain_key k" "map_of tab k = Some f" "f v r = Some r'"
  shows "dec_members tab ((k, v) # kvs) r = dec_members tab kvs r'"
  using assms by (simp add: plain_key_unquote field_for_def)

lemma field_Some: "f v (get r) = Some x \<Longrightarrow> field f get upd v r = Some (upd (\<lambda>_. x) r)"
  by (simp add: field_def)

text \<open>From here on a member is decoded by its key, never by unfolding the key's characters.\<close>

declare json_unquote.simps [simp del] dec_members.simps(2) [simp del]

subsection \<open>Values of the domain types\<close>

definition utf8_map :: "string_map \<Rightarrow> bool" where
  "utf8_map m \<longleftrightarrow> (case m of None \<Rightarrow> True
     | Some f \<Rightarrow> fmpred (\<lambda>k v. valid_utf8 k \<and> valid_utf8 v) f)"

definition utf8_list :: "string list option \<Rightarrow> bool" where
  "utf8_list xs \<longleftrightarrow> (case xs of None \<Rightarrow> True | Some xs \<Rightarrow> list_all valid_utf8 xs)"

lemma dec_string_jstr: "valid_utf8 s \<Longrightarrow> dec_string (jstr s) old = Some s"
  by (simp add: jstr_def unquote_escape)

lemma dec_int_jint: "int64_range n \<Longrightarrow> dec_int (jint n) old = Some n"
  by (simp add: jint_def Atoi_int_text)

lemma dec_entries_jmap:
  assumes "\<forall>k\<in>set ks. \<exists>v. fmlookup f k = Some v \<and> valid_utf8 k \<and> valid_utf8 v"
  shows "\<exists>m'. dec_entries (map (\<lambda>k. (json_escape k, jstr (the (fmlookup f k)))) ks) m = Some m' \<and>
    (\<forall>k. fmlookup m' k = (if k \<in> set ks then fmlookup f k else fmlookup m k))"
  using assms
proof (induction ks arbitrary: m)
  case (Cons k ks)
  then obtain v where v: "fmlookup f k = Some v" "valid_utf8 k" "valid_utf8 v" by auto
  from Cons.IH[of "fmupd k v m"] Cons.prems obtain m' where
    "dec_entries (map (\<lambda>k. (json_escape k, jstr (the (fmlookup f k)))) ks) (fmupd k v m) = Some m'"
    "\<forall>k'. fmlookup m' k' = (if k' \<in> set ks then fmlookup f k' else fmlookup (fmupd k v m) k')" by auto
  with v show ?case by (auto simp: dec_string_jstr unquote_escape)
qed simp

lemma dec_map_jmap: "utf8_map m \<Longrightarrow> dec_map (jmap m) None = Some m"
proof (cases m)
  case (Some f)
  assume "utf8_map m"
  let ?ks = "sorted_list_of_set (fset (fmdom f))"
  have ks: "set ?ks = fset (fmdom f)" by simp
  have "\<forall>k\<in>set ?ks. \<exists>v. fmlookup f k = Some v \<and> valid_utf8 k \<and> valid_utf8 v"
    using \<open>utf8_map m\<close> Some unfolding ks by (auto simp: utf8_map_def fmpred_iff fmlookup_dom_iff)
  from dec_entries_jmap[OF this, of fmempty] obtain m' where
    m': "dec_entries (map (\<lambda>k. (json_escape k, jstr (the (fmlookup f k)))) ?ks) fmempty = Some m'"
    "\<forall>k. fmlookup m' k = (if k \<in> set ?ks then fmlookup f k else None)" by auto
  have "m' = f" by (rule fmap_ext) (use m'(2) ks in \<open>auto simp: fmlookup_dom_iff\<close>)
  with m' Some show ?thesis by (simp add: jmap_def)
qed (simp add: jmap_def)

lemma dec_elems_map:
  "\<forall>x\<in>set xs. \<forall>old. f (g x) old = Some x \<Longrightarrow> dec_elems f zero (map g xs) old = Some xs"
  by (induction xs arbitrary: old) auto

lemma dec_slice_jslice:
  "(\<And>ys x old. xs = Some ys \<Longrightarrow> x \<in> set ys \<Longrightarrow> f (g x) old = Some x) \<Longrightarrow> dec_slice f zero (jslice g xs) old = Some xs"
  by (cases xs) (simp_all add: jslice_def dec_elems_map)

text \<open>Specifications that JSON can carry: strings in UTF-8, numbers in 64 bits.\<close>

definition port_ok :: "PortMapping \<Rightarrow> bool" where
  "port_ok p \<longleftrightarrow> int64_range (pm_Guest p) \<and> int64_range (pm_Host p) \<and> valid_utf8 (pm_Protocol p)"

definition spec_ok :: "VMSpec \<Rightarrow> bool" where
  "spec_ok s \<longleftrightarrow>
     int64_range (rs_VCPUs (sp_Resources s)) \<and> int64_range (rs_MemoryMB (sp_Resources s)) \<and>
     int64_range (ls_TimeoutSeconds (sp_Lifecycle s)) \<and> valid_utf8 (ls_RestartPolicy (sp_Lifecycle s)) \<and>
     valid_utf8 (rt_Command (sp_Runtime s)) \<and> utf8_list (rt_Args (sp_Runtime s)) \<and> utf8_map (rt_Env (sp_Runtime s)) \<and>
     (case ns_Ports (sp_Network s) of None \<Rightarrow> True | Some ps \<Rightarrow> list_all port_ok ps) \<and>
     int64_range (st_RootDiskSizeMB (sp_Storage s)) \<and> utf8_map (pl_Labels (sp_Placement s)) \<and>
     utf8_map (sp_Metadata s)"

definition capacity_ok :: "CapacityInfo \<Rightarrow> bool" where
  "capacity_ok c \<longleftrightarrow> int64_range (cap_TotalVCPUs c) \<and> int64_range (cap_TotalMemoryMB c) \<and>
     int64_range (cap_UsedVCPUs c) \<and> int64_range (cap_UsedMemoryMB c)"

lemma dec_struct_JObj: "dec_struct tab (JObj kvs) r = dec_members tab kvs r"
  by simp

lemmas dec_step = dec_struct_JObj dec_members_step[OF _ _ field_Some] dec_int_jint dec_string_jstr

lemma dec_ResourceSpec_json:
  "int64_range (rs_VCPUs r) \<Longrightarrow> int64_range (rs_MemoryMB r) \<Longrightarrow> dec_ResourceSpec (json_ResourceSpec r) old = Some r"
  by (simp add: dec_ResourceSpec_def json_ResourceSpec_def dec_step)

lemma dec_LifecycleSpec_json:
  "int64_range (ls_TimeoutSeconds l) \<Longrightarrow> valid_utf8 (ls_RestartPolicy l) \<Longrightarrow>
    dec_LifecycleSpec (json_LifecycleSpec l) old = Some l"
  by (simp add: dec_LifecycleSpec_def json_LifecycleSpec_def dec_step)

lemma dec_RuntimeSpec_json:
  assumes "valid_utf8 (rt_Command r)" "utf8_list (rt_Args r)" "utf8_map (rt_Env r)" "rt_Env old = None"
  shows "dec_RuntimeSpec (json_RuntimeSpec r) old = Some r"
proof -
  have "dec_slice dec_string '''' (jslice jstr (rt_Args r)) a = Some (rt_Args r)" for a
    using assms(2) by (intro dec_slice_jslice dec_string_jstr) (simp add: utf8_list_def list_all_iff)
  with assms show ?thesis by (simp add: dec_RuntimeSpec_def json_RuntimeSpec_def dec_step dec_map_jmap)
qed

lemma dec_PortMapping_json: "port_ok p \<Longrightarrow> dec_PortMapping (json_PortMapping p) old = Some p"
  by (simp add: dec_PortMapping_def json_PortMapping_def dec_step port_ok_def)

lemma dec_NetworkSpec_json:
  assumes "case ns_Ports n of None \<Rightarrow> True | Some ps \<Rightarrow> list_all port_ok ps"
  shows "dec_NetworkSpec (json_NetworkSpec n) old = Some n"
proof -
  have "dec_slice dec_PortMapping z (jslice json_PortMapping (ns_Ports n)) a = Some (ns_Ports n)" for z a
    using assms by (intro dec_slice_jslice dec_PortMapping_json) (simp add: list_all_iff)
  then show ?thesis by (simp add: dec_NetworkSpec_def json_NetworkSpec_def dec_step)
qed

lemma dec_StorageSpec_json:
  "int64_range (st_RootDiskSizeMB s) \<Longrightarrow> dec_StorageSpec (json_StorageSpec s) old = Some s"
  by (simp add: dec_StorageSpec_def json_StorageSpec_def dec_step)

lemma dec_PlacementSpec_json:
  "utf8_map (pl_Labels p) \<Longrightarrow> pl_Labels old = None \<Longrightarrow> dec_PlacementSpec (json_PlacementSpec p) old = Some p"
  by (simp add: dec_PlacementSpec_def json_PlacementSpec_def dec_step dec_map_jmap)

lemma dec_VMSpec_json: "spec_ok s \<Longrightarrow> dec_VMSpec (json_VMSpec s) zero_VMSpec = Some s"
  by (simp add: dec_VMSpec_def json_VMSpec_def dec_step dec_ResourceSpec_json dec_LifecycleSpec_json
      dec_RuntimeSpec_json dec_NetworkSpec_json dec_StorageSpec_json dec_PlacementSpec_json dec_map_jmap
      zero_VMSpec_def spec_ok_def)

lemma dec_CapacityInfo_json: "capacity_ok c \<Longrightarrow> dec_CapacityInfo (json_CapacityInfo c) old = Some c"
  by (simp add: dec_CapacityInfo_def json_CapacityInfo_def dec_step capacity_ok_def)


subsection \<open>What the encoders print can be read back\<close>

lemma good_jstr [simp]: "good d (jstr s)"
  by (simp add: jstr_def transparent_json_escape)

lemma good_jint [simp]: "good d (jint n)"
  by (simp add: jint_def number_ok_int)

lemma good_jmap: "0 < d \<Longrightarrow> good d (jmap m)"
  by (auto simp: jmap_def transparent_json_escape split: option.splits)

lemma good_jslice: "0 < d \<Longrightarrow> (\<And>x. good (d - 1) (f x)) \<Longrightarrow> good d (jslice f xs)"
  by (auto simp: jslice_def split: option.splits)

lemmas good_codec = plain_key_transparent good_jmap good_jslice

lemma good_VMSpec: "4 \<le> d \<Longrightarrow> good d (json_VMSpec s)"
  by (auto simp: json_VMSpec_def json_ResourceSpec_def json_LifecycleSpec_def json_RuntimeSpec_def json_NetworkSpec_def
      json_PortMapping_def json_StorageSpec_def json_PlacementSpec_def good_codec)

lemma good_CapacityInfo: "0 < d \<Longrightarrow> good d (json_CapacityInfo c)"
  by (simp add: json_CapacityInfo_def good_codec)

lemma json_Decode_Encode:
  assumes "good max_nesting j"
  shows "json_Decode f zero (json_Encode (Some j)) = f j zero"
proof -
  have "ends_number [CHR 0x0A]" by (simp add: ends_number_def is_digit_def)
  with assms show ?thesis by (simp add: json_Decode_def json_Encode_def json_parse_text)
qed

lemma VMSpec_wire: "spec_ok spec \<Longrightarrow> json_Decode dec_VMSpec zero_VMSpec (json_Encode (Some (json_VMSpec spec))) = Some spec"
  by (simp add: json_Decode_Encode good_VMSpec max_nesting_def dec_VMSpec_json)

end
