(* ===== verification/Time_Roundtrip.thy ===== *)
theory Time_Roundtrip
  imports Json_Roundtrip
begin

text \<open>
  Times survive the wire: \<^verbatim>\<open>time.Parse(time.RFC3339, s)\<close> reads back what \<^verbatim>\<open>MarshalJSON\<close> prints. The dates are the
  hard part: the year of a day is computed by a closed formula, which is shown to be the year whose
  first day is the last one not after it.
\<close>

subsection \<open>Years\<close>

text \<open>Years start in March and are counted in an era of 400; \<open>year_start y\<close> is the first day of year \<open>y\<close>.\<close>

definition year_start :: "int \<Rightarrow> int" where
  "year_start y = 365 * y + y div 4 - y div 100"

definition year_end :: "int \<Rightarrow> int" where
  "year_end y = (if y = 399 then 146097 else year_start (y + 1))"

definition year_key :: "int \<Rightarrow> int" where
  "year_key doe = doe - doe div 1460 + doe div 36524 - doe div 146096"

lemma year_key_mono:
  assumes "a \<le> b"
  shows "year_key a \<le> year_key b"
proof -
  have less: "x - x div k \<le> y - y div k" if "x \<le> y" "1 \<le> k" for x y k :: int
  proof -
    have "(y - x) * 1 \<le> (y - x) * k" using that by (intro mult_left_mono) simp_all
    then have "y div k \<le> (x + (y - x) * k) div k" using that by (intro zdiv_mono1) simp_all
    also have "\<dots> = x div k + (y - x)" using that by simp
    finally show ?thesis by simp
  qed
  have "a div 36524 \<le> b div 36524" using assms by (simp add: zdiv_mono1)
  from less[OF this, of 4] have "a div 36524 - a div 146096 \<le> b div 36524 - b div 146096"
    by (simp add: zdiv_zmult2_eq[of 4 _ 36524, simplified])
  with less[OF assms, of 1460] show ?thesis by (simp add: year_key_def)
qed

lemma year_bounds:
  assumes "0 \<le> y" "y \<le> 399"
  shows "365 * y \<le> year_key (year_start y)" "year_key (year_end y - 1) < 365 * (y + 1)"
    "year_end y = year_start y + (if is_leap (y + 1) then 366 else 365)"
proof -
  have "list_all (\<lambda>y. 365 * y \<le> year_key (year_start y) \<and> year_key (year_end y - 1) < 365 * (y + 1) \<and>
      year_end y = year_start y + (if is_leap (y + 1) then 366 else 365)) [0..399]" by code_simp
  then have all: "\<forall>y\<in>{0..399}. 365 * y \<le> year_key (year_start y) \<and> year_key (year_end y - 1) < 365 * (y + 1) \<and>
      year_end y = year_start y + (if is_leap (y + 1) then 366 else 365)" by (simp only: list_all_iff set_upto)
  have "y \<in> {0..399}" using assms by simp
  from bspec[OF all this] show "365 * y \<le> year_key (year_start y)" "year_key (year_end y - 1) < 365 * (y + 1)"
    "year_end y = year_start y + (if is_leap (y + 1) then 366 else 365)" by blast+
qed

lemma year_exists:
  assumes "0 \<le> doe" "doe < 146097"
  obtains y where "0 \<le> y" "y \<le> 399" "year_start y \<le> doe" "doe < year_end y"
proof -
  let ?S = "{y \<in> {0..399}. year_start y \<le> doe}"
  have fin: "finite ?S" by (rule finite_subset[of _ "{0..399}"]) auto
  have "0 \<in> ?S" using assms by (simp add: year_start_def)
  then have ne: "?S \<noteq> {}" by blast
  let ?y = "Max ?S"
  have y: "?y \<in> ?S" using fin ne by (rule Max_in)
  have "doe < year_end ?y"
  proof (rule ccontr)
    assume "\<not> doe < year_end ?y"
    then have ge: "year_end ?y \<le> doe" by simp
    have "?y \<noteq> 399" using ge assms(2) by (auto simp: year_end_def)
    with ge y have "?y + 1 \<in> ?S" by (auto simp: year_end_def)
    then have "?y + 1 \<le> ?y" using fin by (rule Max_ge[rotated])
    then show False by simp
  qed
  with y that show thesis by auto
qed

lemma year_unique:
  assumes "0 \<le> y" "y \<le> 399" "year_start y \<le> doe" "doe < year_end y"
  shows "year_key doe div 365 = y"
proof -
  have "365 * y \<le> year_key doe" using year_bounds(1)[OF assms(1,2)] year_key_mono[OF assms(3)] by simp
  moreover have "year_key doe < 365 * (y + 1)"
    using year_bounds(2)[OF assms(1,2)] year_key_mono[of doe "year_end y - 1"] assms(4) by simp
  ultimately show ?thesis by (simp add: div_pos_pos_trivial int_div_pos_eq[of _ 365 y "year_key doe - 365 * y"])
qed

subsection \<open>Days\<close>

text \<open>The month and the day of a day in a year that starts in March.\<close>

lemma month_day:
  fixes doy :: int
  assumes "0 \<le> doy" "doy \<le> 365"
  defines "mp \<equiv> (5 * doy + 2) div 153"
  defines "d \<equiv> doy - (153 * mp + 2) div 5 + 1"
  defines "m \<equiv> if mp < 10 then mp + 3 else mp - 9"
  shows "1 \<le> m \<and> m \<le> 12 \<and> 1 \<le> d \<and> (m + 9) mod 12 = mp \<and> (m \<le> 2 \<longleftrightarrow> 10 \<le> mp) \<and>
    d \<le> (if m = 2 then (if doy = 365 then 29 else 28) else if m \<in> {4, 6, 9, 11} then 30 else 31)"
proof -
  have "list_all (\<lambda>doy :: int. let mp = (5 * doy + 2) div 153; d = doy - (153 * mp + 2) div 5 + 1; m = (if mp < 10 then mp + 3 else mp - 9)
     in 1 \<le> m \<and> m \<le> 12 \<and> 1 \<le> d \<and> (m + 9) mod 12 = mp \<and> (m \<le> 2 \<longleftrightarrow> 10 \<le> mp) \<and>
       d \<le> (if m = 2 then (if doy = 365 then 29 else 28) else if m \<in> {4, 6, 9, 11} then 30 else 31)) [0..365]"
    by code_simp
  then have all: "\<forall>doy\<in>{0..365 :: int}. let mp = (5 * doy + 2) div 153; d = doy - (153 * mp + 2) div 5 + 1; m = (if mp < 10 then mp + 3 else mp - 9)
     in 1 \<le> m \<and> m \<le> 12 \<and> 1 \<le> d \<and> (m + 9) mod 12 = mp \<and> (m \<le> 2 \<longleftrightarrow> 10 \<le> mp) \<and>
       d \<le> (if m = 2 then (if doy = 365 then 29 else 28) else if m \<in> {4, 6, 9, 11} then 30 else 31)"
    by (simp only: list_all_iff set_upto)
  have "doy \<in> {0..365}" using assms by simp
  from bspec[OF all this] show ?thesis unfolding Let_def mp_def d_def m_def .
qed

lemma is_leap_era: "is_leap (y + era * 400) = is_leap y"
proof -
  have "(y + era * 400) mod 4 = y mod 4" "(y + era * 400) mod 100 = y mod 100"
    using mod_mult_self1[of y "era * 100" 4] mod_mult_self1[of y "era * 4" 100] by (simp_all add: mult.assoc mult.commute)
  then show ?thesis by (simp add: is_leap_def)
qed

lemma civil_roundtrip:
  assumes "civil_of_days n = (y, m, d)"
  shows "days_of_civil y m d = n" "1 \<le> m" "m \<le> 12" "1 \<le> d" "d \<le> days_in m y"
proof -
  define era where "era = (n + 306) div 146097"
  define doe where "doe = (n + 306) mod 146097"
  have doe: "0 \<le> doe" "doe < 146097" "n = era * 146097 + doe - 306"
    by (simp_all add: doe_def era_def minus_mult_div_eq_mod[symmetric])
  from year_exists[OF doe(1,2)] obtain yoe where yoe: "0 \<le> yoe" "yoe \<le> 399" "year_start yoe \<le> doe" "doe < year_end yoe" .
  note ye = year_unique[OF yoe]
  define doy where "doy = doe - year_start yoe"
  have doy: "0 \<le> doy" "doy \<le> 365" "doy = 365 \<Longrightarrow> is_leap (yoe + 1)"
    using yoe year_bounds(3)[OF yoe(1,2)] by (auto simp: doy_def split: if_splits)
  define mp where "mp = (5 * doy + 2) div 153"
  define m0 where "m0 = (if mp < 10 then mp + 3 else mp - 9)"
  define d0 where "d0 = doy - (153 * mp + 2) div 5 + 1"
  from month_day[OF doy(1,2)] have md: "1 \<le> m0" "m0 \<le> 12" "1 \<le> d0" "(m0 + 9) mod 12 = mp"
    "d0 \<le> (if m0 = 2 then (if doy = 365 then 29 else 28) else if m0 \<in> {4, 6, 9, 11} then 30 else 31)"
    unfolding mp_def[symmetric] m0_def[symmetric] d0_def[symmetric] by blast+
  have "civil_of_days n = (yoe + era * 400 + (if m0 \<le> 2 then 1 else 0), m0, d0)"
    unfolding civil_of_days_def Let_def era_def[symmetric] doe_def[symmetric] ye[unfolded year_key_def]
      doy_def[unfolded year_start_def, symmetric] mp_def[symmetric] m0_def[symmetric] d0_def[symmetric] by (rule refl)
  with assms have eq: "y = yoe + era * 400 + (if m0 \<le> 2 then 1 else 0)" "m = m0" "d = d0" by auto
  have era: "(yoe + era * 400) div 400 = era" "(yoe + era * 400) mod 400 = yoe" using yoe by simp_all
  have "(if m \<le> 2 then y - 1 else y) = yoe + era * 400" by (simp add: eq)
  then have "days_of_civil y m d = era * 146097 + (yoe * 365 + yoe div 4 - yoe div 100 + ((153 * mp + 2) div 5 + d0 - 1)) - 306"
    unfolding days_of_civil_def Let_def using yoe by (simp add: md(4) eq)
  also have "\<dots> = n" using doe(3) by (simp add: d0_def doy_def year_start_def)
  finally show "days_of_civil y m d = n" .
  show "1 \<le> m" "m \<le> 12" "1 \<le> d" using md eq by simp_all
  have leap: "is_leap y" if "m0 = 2" "doy = 365"
  proof -
    have "y = (yoe + 1) + era * 400" using that eq by simp
    then show ?thesis using doy(3)[OF that(2)] by (simp only: is_leap_era)
  qed
  show "d \<le> days_in m y" using md(5) leap eq by (auto simp: days_in_def split: if_splits)
qed

subsection \<open>Digits\<close>

definition digits_val :: "string \<Rightarrow> int" where
  "digits_val s = foldl (\<lambda>n c. n * 10 + int (digit_val c)) 0 s"

lemma digits_val_snoc: "digits_val (s @ [c]) = digits_val s * 10 + int (digit_val c)"
  by (simp add: digits_val_def)

lemma digits_val_zeros: "digits_val (replicate k (CHR ''0'') @ s) = digits_val s"
proof -
  have "foldl (\<lambda>n c. n * 10 + int (digit_val c)) 0 (replicate k (CHR ''0'')) = 0"
    by (induction k) (simp_all add: digit_val_def)
  then show ?thesis by (simp add: digits_val_def)
qed

lemma digits_val_trailing: "digits_val (s @ replicate k (CHR ''0'')) = digits_val s * 10 ^ k"
proof (induction k)
  case (Suc k)
  have "digits_val (s @ replicate (Suc k) (CHR ''0'')) = digits_val ((s @ replicate k (CHR ''0'')) @ [CHR ''0''])"
    by (simp add: replicate_append_same)
  also have "\<dots> = digits_val s * 10 ^ Suc k" by (simp only: digits_val_snoc Suc) (simp add: digit_val_def)
  finally show ?case .
qed simp

lemma digits_val_nat_text: "digits_val (nat_text n) = int n"
proof (induction n rule: nat_text.induct)
  case (1 n)
  show ?case
  proof (cases "n < 10")
    case True
    then show ?thesis by (subst nat_text.simps) (simp add: digits_val_def digit_char)
  next
    case False
    then have "digits_val (nat_text n) = digits_val (nat_text (n div 10)) * 10 + int (n mod 10)"
      by (subst nat_text.simps) (simp add: digits_val_snoc digit_char)
    also have "\<dots> = int (n div 10 * 10 + n mod 10)" by (simp only: 1[OF False] of_nat_add of_nat_mult of_nat_numeral)
    also have "\<dots> = int n" by (simp only: div_mult_mod_eq)
    finally show ?thesis .
  qed
qed

lemma nat_text_length: "n < 10 ^ Suc k \<Longrightarrow> length (nat_text n) \<le> Suc k"
proof (induction k arbitrary: n)
  case 0
  then show ?case by (subst nat_text.simps) simp
next
  case (Suc k)
  show ?case
  proof (cases "n < 10")
    case False
    from Suc.prems have "n div 10 < 10 ^ Suc k" by (simp add: div_less_iff_less_mult)
    from Suc.IH[OF this] False show ?thesis by (subst nat_text.simps) simp
  qed (subst nat_text.simps, simp)
qed

lemma padded_digits:
  assumes "0 \<le> n" "n < 10 ^ Suc k"
  shows "length (padded (Suc k) n) = Suc k" "list_all is_digit (padded (Suc k) n)" "digits_val (padded (Suc k) n) = n"
proof -
  have "nat n < 10 ^ Suc k" using assms by (simp add: nat_less_iff)
  from nat_text_length[OF this] show "length (padded (Suc k) n) = Suc k" by (simp add: padded_def Let_def)
  have "is_digit (CHR ''0'')" by (simp add: is_digit_def)
  then show "list_all is_digit (padded (Suc k) n)"
    using nat_text_digits[of "nat n"] by (auto simp: padded_def Let_def list_all_iff)
  show "digits_val (padded (Suc k) n) = n" using assms(1) by (simp add: padded_def Let_def digits_val_zeros digits_val_nat_text)
qed

lemma padded_two:
  assumes "0 \<le> n" "n < 100"
  obtains a b where "padded 2 n = [a, b]" "is_digit a" "is_digit b" "int (digit_val a * 10 + digit_val b) = n"
proof -
  note p = padded_digits[of n 1, simplified, OF assms]
  from p(1) obtain a b where ab: "padded 2 n = [a, b]"
    by (cases "padded 2 n" rule: remdups_adj.cases) (auto simp: numeral_2_eq_2)
  with p(2,3) that show thesis by (auto simp: numeral_2_eq_2 digits_val_def)
qed

lemma getnum_padded: "0 \<le> n \<Longrightarrow> n < 100 \<Longrightarrow> getnum fixed (padded 2 n @ s) = Some (n, s)"
  by (rule padded_two[of n]) auto

lemma get_year_padded:
  assumes "0 \<le> y" "y \<le> 9999"
  shows "get_year (padded 4 y @ s) = Some (y, s)"
proof -
  have "length (padded 4 y) = 4" "list_all is_digit (padded 4 y)" "digits_val (padded 4 y) = y"
    using padded_digits[of y 3] assms by (simp_all add: eval_nat_numeral)
  then show ?thesis by (simp add: get_year_def digits_val_def)
qed

subsection \<open>Fractions\<close>

lemma strip_zeros: "\<exists>k. s = rev (dropWhile ((=) (CHR ''0'')) (rev s)) @ replicate k (CHR ''0'')"
proof -
  have "rev s = takeWhile ((=) (CHR ''0'')) (rev s) @ dropWhile ((=) (CHR ''0'')) (rev s)" by simp
  moreover have "takeWhile ((=) (CHR ''0'')) (rev s) = replicate (length (takeWhile ((=) (CHR ''0'')) (rev s))) (CHR ''0'')"
    by (rule replicate_length_same[symmetric]) (auto dest: set_takeWhileD)
  ultimately show ?thesis by (metis rev_append rev_replicate rev_rev_ident)
qed

lemma get_fraction_text:
  assumes "0 \<le> ns" "ns < 10 ^ 9"
  shows "get_fraction (fraction_text ns @ ''Z'') = (ns, ''Z'')"
proof (cases "ns = 0")
  case True
  then show ?thesis by (simp add: fraction_text_def get_fraction_def)
next
  case False
  let ?p = "padded 9 ns" and ?t = "rev (dropWhile ((=) (CHR ''0'')) (rev (padded 9 ns)))"
  have p: "length ?p = 9" "list_all is_digit ?p" "digits_val ?p = ns"
    using padded_digits[of ns 8] assms by (simp_all add: eval_nat_numeral)
  obtain k where k: "?p = ?t @ replicate k (CHR ''0'')" using strip_zeros[of ?p] by blast
  from p(2) k have t: "list_all is_digit ?t" by (metis list_all_append)
  from p(1) k have len: "length ?t + k = 9" by (metis length_append length_replicate)
  have val: "digits_val ?t * 10 ^ k = ns" using p(3) k digits_val_trailing[of ?t k] by metis
  have "?t \<noteq> []"
  proof
    assume "?t = []"
    then have "digits_val ?t = 0" by (simp only: digits_val_def foldl_Nil)
    with val False show False by simp
  qed
  then obtain d r where dr: "?t = d # r" by (cases ?t) auto
  have z: "\<not> is_digit (CHR ''Z'')" by (simp add: is_digit_def)
  have take: "takeWhile is_digit (?t @ ''Z'') = ?t" "dropWhile is_digit (?t @ ''Z'') = ''Z''"
    using t z unfolding list_all_iff by (simp_all only: takeWhile_append2 dropWhile_append2) simp_all
  have "get_fraction (CHR ''.'' # ?t @ ''Z'') = (digits_val ?t * 10 ^ (9 - length ?t), ''Z'')"
    using take t len unfolding dr by (simp add: get_fraction_def Let_def digits_val_def)
  moreover have "9 - length ?t = k" using len by simp
  ultimately show ?thesis using False val by (simp only: fraction_text_def if_False append_Cons append_Nil)
qed

subsection \<open>Times\<close>

lemma clock_parts:
  fixes sod :: int
  assumes "0 \<le> sod" "sod < 86400"
  shows "0 \<le> sod div 3600" "sod div 3600 \<le> 23" "0 \<le> sod mod 3600 div 60" "sod mod 3600 div 60 \<le> 59"
    "sod div 3600 * 3600 + sod mod 3600 div 60 * 60 + sod mod 60 = sod"
proof -
  show "0 \<le> sod div 3600" using assms by (simp add: pos_imp_zdiv_nonneg_iff)
  show "sod div 3600 \<le> 23" using zdiv_mono1[of sod 86399 3600] assms by simp
  show "0 \<le> sod mod 3600 div 60" by (simp add: pos_imp_zdiv_nonneg_iff)
  show "sod mod 3600 div 60 \<le> 59" using zdiv_mono1[of "sod mod 3600" 3599 60] by simp
  have mod: "sod mod 3600 mod 60 = sod mod 60" by (simp add: mod_mod_cancel)
  have "sod = sod div 3600 * 3600 + (sod mod 3600 div 60 * 60 + sod mod 3600 mod 60)"
    by (simp only: div_mult_mod_eq)
  then show "sod div 3600 * 3600 + sod mod 3600 div 60 * 60 + sod mod 60 = sod" by (simp only: mod add.assoc)
qed

lemma time_Parse_printed:
  assumes "0 \<le> y" "y \<le> 9999" "1 \<le> m" "m \<le> 12" "1 \<le> d" "d \<le> days_in m y"
    and "0 \<le> hh" "hh \<le> 23" "0 \<le> mi" "mi \<le> 59" "0 \<le> ss" "ss \<le> 59" "0 \<le> ns" "ns < 10 ^ 9"
  shows "time_Parse (padded 4 y @ ''-'' @ padded 2 m @ ''-'' @ padded 2 d @ ''T'' @
      padded 2 hh @ '':'' @ padded 2 mi @ '':'' @ padded 2 ss @ fraction_text ns @ ''Z'') =
    Some ((days_of_civil y m d * 86400 + hh * 3600 + mi * 60 + ss) * 10 ^ 9 + ns)"
proof -
  have "d \<le> 31" using assms(6) by (auto simp: days_in_def split: if_splits)
  moreover have "get_zone ''Z'' = Some 0" by (simp add: get_zone_def)
  ultimately show ?thesis using assms
    by (simp add: time_Parse_def get_year_padded getnum_padded expect_def in_bounds_def get_fraction_text)
qed

lemma time_roundtrip:
  assumes "time_text t = Some x"
  shows "time_Parse x = Some t"
proof -
  define secs ns where "secs = t div 10 ^ 9" and "ns = t mod 10 ^ 9"
  define sod where "sod = secs mod 86400"
  obtain y m d where c: "civil_of_days (secs div 86400) = (y, m, d)" by (metis prod.exhaust)
  note civil = civil_roundtrip[OF c]
  have sod: "0 \<le> sod" "sod < 86400" and ss: "0 \<le> sod mod 60" "sod mod 60 \<le> 59" and ns: "0 \<le> ns" "ns < 10 ^ 9"
    using pos_mod_bound[of 60 sod] by (simp_all add: sod_def ns_def)
  note clock = clock_parts[OF sod]
  from assms have y: "0 \<le> y" "y \<le> 9999" and x: "x = padded 4 y @ ''-'' @ padded 2 m @ ''-'' @ padded 2 d @ ''T'' @
      padded 2 (sod div 3600) @ '':'' @ padded 2 (sod mod 3600 div 60) @ '':'' @ padded 2 (sod mod 60) @ fraction_text ns @ ''Z''"
    unfolding time_text_def Let_def secs_def[symmetric] ns_def[symmetric] sod_def[symmetric] c prod.case
    by (simp_all only: not_less de_Morgan_disj option.inject split: if_splits) simp_all
  have "secs div 86400 * 86400 + sod div 3600 * 3600 + sod mod 3600 div 60 * 60 + sod mod 60 = secs div 86400 * 86400 + sod"
    using clock(5) by (simp only: add.assoc)
  also have "\<dots> = secs" by (simp only: sod_def div_mult_mod_eq)
  finally have "(secs div 86400 * 86400 + sod div 3600 * 3600 + sod mod 3600 div 60 * 60 + sod mod 60) * 10 ^ 9 + ns = t"
    by (simp only: secs_def ns_def div_mult_mod_eq)
  with time_Parse_printed[OF y civil(2-5) clock(1-4) ss ns] show ?thesis by (simp only: x civil(1))
qed

end
