(* ===== verification/Http_Wire.thy ===== *)
theory Http_Wire
  imports Http_Properties Codec_Roundtrip Time_Roundtrip
begin

text \<open>
  The server seen by a client that speaks JSON: what it posts as the encoding of a value is what the
  server stores, and what the server prints can be parsed back by the client.
\<close>

subsection \<open>Bytes and texts\<close>

lemma string_of_bytes_of [simp]: "string_of (bytes_of s) = s"
proof -
  have "unat (of_char c :: byte) = of_char c" for c
  proof -
    have "(of_char c :: byte) = of_nat (of_char c)" by (rule of_nat_of_char[symmetric])
    then show ?thesis using nat_of_char_less_256[of c] by (simp only: unat_of_nat) simp
  qed
  then show ?thesis by (simp add: string_of_def bytes_of_def comp_def)
qed

subsection \<open>Printed times and VMs\<close>

lemma plain_digit: "is_digit c \<Longrightarrow> plain_key [c]"
  by (auto simp: plain_key_def is_digit_def dquote_def backslash_def chr_code_def less_eq_char_def)

lemma plain_key_iff: "plain_key s \<longleftrightarrow> (\<forall>c\<in>set s. plain_key [c])"
  by (simp add: plain_key_def list_all_iff)

lemma plain_key_append [simp]: "plain_key (s @ t) \<longleftrightarrow> plain_key s \<and> plain_key t"
  by (simp add: plain_key_def)

lemma plain_nat_text: "plain_key (nat_text n)"
  using nat_text_digits[of n] plain_digit by (subst plain_key_iff) blast

lemma plain_padded: "plain_key (padded k n)"
proof -
  have "plain_key ''0''" by (rule plain_digit) (simp add: is_digit_def)
  then have "plain_key (replicate j (CHR ''0''))" for j by (subst plain_key_iff) simp
  then show ?thesis by (simp add: padded_def Let_def plain_nat_text)
qed

lemma plain_punct: "plain_key ''-''" "plain_key ''T''" "plain_key '':''" "plain_key ''Z''" "plain_key ''.''"
  by (simp_all add: plain_key_def dquote_def backslash_def chr_code_def)

lemma plain_fraction: "plain_key (fraction_text n)"
proof -
  have "\<forall>c\<in>set (rev (dropWhile ((=) (CHR ''0'')) (rev (padded 9 n)))). plain_key [c]"
    using plain_padded[of 9 n] plain_key_iff[of "padded 9 n"] by (auto dest: set_dropWhileD)
  then have "plain_key (rev (dropWhile ((=) (CHR ''0'')) (rev (padded 9 n))))" by (subst plain_key_iff)
  then have "plain_key (''.'' @ rev (dropWhile ((=) (CHR ''0'')) (rev (padded 9 n))))"
    unfolding plain_key_append using plain_punct by blast
  then show ?thesis by (simp add: fraction_text_def plain_key_def)
qed

lemma plain_time: "time_text t = Some x \<Longrightarrow> plain_key x"
  unfolding time_text_def Let_def
  by (auto simp del: append_Cons append_Nil simp: plain_padded plain_fraction plain_punct
      split: prod.splits if_splits)

lemma good_jtime: "jtime t = Some j \<Longrightarrow> good d j"
  by (auto simp: jtime_def plain_time plain_key_transparent)

lemma plain_vm_keys [simp]:
  "plain_key ''desired_state''" "plain_key ''observed_state''" "plain_key ''image_id''" "plain_key ''controller_id''"
  "plain_key ''spec''" "plain_key ''created_at''" "plain_key ''updated_at''"
  by (simp_all add: plain_key_def dquote_def backslash_def chr_code_def)

lemma json_VM_parse:
  assumes "json_VM vm = Some j"
  shows "json_parse (json_Encode (Some j)) = Some j \<and>
    (\<exists>kvs. j = JObj kvs \<and> map_of kvs ''id'' = Some (jstr (vm_ID vm)) \<and> map_of kvs ''spec'' = Some (json_VMSpec (vm_Spec vm)))"
proof -
  have "good max_nesting j" using assms
    by (auto simp: json_VM_def bind_eq_Some_conv plain_key_transparent good_VMSpec max_nesting_def intro: good_jtime)
  moreover have "ends_number [CHR 0x0A]" by (simp add: ends_number_def is_digit_def)
  ultimately have "json_parse (json_Encode (Some j)) = Some j" by (simp add: json_Encode_def json_parse_text)
  with assms show ?thesis by (auto simp: json_VM_def bind_eq_Some_conv)
qed

subsection \<open>Posting and reading back a specification\<close>

text \<open>
  C9: The specification of a VM survives the trip over HTTP: when a client posts the JSON encoding of any
  specification whose strings are UTF-8 and whose numbers fit 64 bits, the answer is 202 with an
  identifier, and the body of a later \<^verbatim>\<open>GET\<close> of this identifier is a JSON object which names the same
  identifier and whose \<^verbatim>\<open>spec\<close> member decodes to the specification that was posted (the clock being
  within the years that RFC 3339 can print, for otherwise the body would be empty).
\<close>

theorem http_spec_roundtrip:
  assumes "memstate_inv (fst (hd_prov h))" and "spec_ok spec" and "time_text (clock w !! 1) \<noteq> None"
  shows "\<exists>out h1 w1 vid out2 h2 w2 kvs j.
    ServeHTTP flames_service (post_request [''v1'', ''vms''] [] (bytes_of (json_Encode (Some (json_VMSpec spec))))) h w = (out, h1, w1) \<and>
    status_of out = 202 \<and> re_Body (response out) = bytes_of (json_Encode (Some (id_object vid))) \<and>
    ServeHTTP flames_service (get_request [''v1'', ''vms'', vid]) h1 w1 = (out2, h2, w2) \<and> status_of out2 = 200 \<and>
    json_parse (string_of (re_Body (response out2))) = Some (JObj kvs) \<and>
    map_of kvs ''id'' = Some (jstr vid) \<and> map_of kvs ''spec'' = Some j \<and> dec_VMSpec j zero_VMSpec = Some spec"
proof -
  let ?body = "bytes_of (json_Encode (Some (json_VMSpec spec)))"
  have "json_Decode dec_VMSpec zero_VMSpec (string_of ?body) = Some spec" using assms(2) by (simp add: VMSpec_wire)
  from create_get[OF assms(1) this, of w] obtain out h1 w1 vid vm out2 h2 w2 where
    run: "ServeHTTP flames_service (post_request [''v1'', ''vms''] [] ?body) h w = (out, h1, w1)"
    "status_of out = 202" "re_Body (response out) = bytes_of (json_Encode (Some (id_object vid)))"
    "ServeHTTP flames_service (get_request [''v1'', ''vms'', vid]) h1 w1 = (out2, h2, w2)" "status_of out2 = 200"
    and body: "re_Body (response out2) = bytes_of (json_Encode (json_VM vm))" and vm: "fresh_vm vid spec vm"
    and t: "vm_CreatedAt vm = clock w !! 1" by blast
  from t vm assms(3) obtain j where j: "json_VM vm = Some j"
    by (auto simp: json_VM_def jtime_def fresh_vm_def)
  with json_VM_parse[OF j] vm assms(2) have "\<exists>kvs. json_parse (string_of (re_Body (response out2))) = Some (JObj kvs) \<and>
      map_of kvs ''id'' = Some (jstr vid) \<and> map_of kvs ''spec'' = Some (json_VMSpec spec) \<and>
      dec_VMSpec (json_VMSpec spec) zero_VMSpec = Some spec"
    by (auto simp: body fresh_vm_def dec_VMSpec_json)
  with run show ?thesis by blast
qed

definition example_spec :: VMSpec where
  "example_spec = zero_VMSpec\<lparr>sp_Resources := \<lparr>rs_VCPUs = 2, rs_MemoryMB = 512\<rparr>,
     sp_Runtime := \<lparr>rt_Command = ''/bin/sh'', rt_Args = Some [''-c'', ''echo \"hi\"''], rt_Env = None\<rparr>\<rparr>"

theorem http_spec_roundtrip_witness:
  "\<exists>out h1 w1. ServeHTTP flames_service
     (post_request [''v1'', ''vms''] [] (bytes_of (json_Encode (Some (json_VMSpec example_spec)))))
     (NewHandler (memstate_New, memqueue_New)) (clock_world (sconst 5)) = (out, h1, w1) \<and> status_of out = 202"
proof -
  have "spec_ok example_spec" by code_simp
  moreover have "time_text 5 \<noteq> None" by code_simp
  then have "time_text (clock (clock_world (sconst 5)) !! 1) \<noteq> None" by (simp add: clock_world_def)
  ultimately show ?thesis
    using http_spec_roundtrip[of "NewHandler (memstate_New, memqueue_New)" example_spec "clock_world (sconst 5)"]
    by (auto simp: NewHandler_def memstate_inv_New)
qed

subsection \<open>Registering a controller\<close>

text \<open>Controllers that JSON can carry: also the time of the last heartbeat has to be one RFC 3339 can print.\<close>

definition controller_ok :: "Controller \<Rightarrow> bool" where
  "controller_ok c \<longleftrightarrow> valid_utf8 (ct_ID c) \<and> valid_utf8 (ct_Status c) \<and> utf8_map (ct_Labels c) \<and>
     capacity_ok (ct_Capacity c) \<and> time_text (ct_LastHeartbeatAt c) \<noteq> None"

declare json_unquote.simps [simp del] dec_members.simps(2) [simp del]

lemma dec_time_jtime: "jtime t = Some j \<Longrightarrow> dec_time j old = Some t"
  by (auto simp: jtime_def time_roundtrip)

lemma Controller_wire:
  assumes "controller_ok c"
  shows "json_Decode dec_Controller zero_Controller (json_Encode (json_Controller c)) = Some c"
proof -
  from assms obtain seen where seen: "jtime (ct_LastHeartbeatAt c) = Some seen" by (auto simp: controller_ok_def jtime_def)
  let ?j = "JObj [(''id'', jstr (ct_ID c)), (''status'', jstr (ct_Status c)), (''labels'', jmap (ct_Labels c)),
      (''capacity'', json_CapacityInfo (ct_Capacity c)), (''last_heartbeat_at'', seen)]"
  have "json_Controller c = Some ?j" by (simp add: json_Controller_def seen)
  moreover have "good max_nesting ?j"
    by (simp add: good_codec good_CapacityInfo max_nesting_def good_jtime[OF seen])
  moreover have "dec_Controller ?j zero_Controller = Some c"
    using assms by (simp add: dec_Controller_def dec_step dec_map_jmap dec_CapacityInfo_json dec_time_jtime[OF seen]
        zero_Controller_def controller_ok_def)
  ultimately show ?thesis by (simp add: json_Decode_Encode)
qed

lemma registerController_no_key:
  assumes "ms_controllers (fst p) (ct_ID c) = None" and "controller_ok c"
    and "rq_Body r = Inr (bytes_of (json_Encode (json_Controller c)))" and "Header_Get ''Idempotency-Key'' r = ''''"
  shows "\<exists>p'. registered flames_service Register_controller_ep r (i, p) w = (writeJSON 201 (json_Controller c), (i, p'), w) \<and>
    ms_controllers (fst p') = (ms_controllers (fst p))(ct_ID c \<mapsto> c) \<and> ms_vms (fst p') = ms_vms (fst p) \<and> snd p' = snd p"
proof -
  have "decode_body dec_Controller zero_Controller r = Some c"
    using assms(2,3) by (simp add: decode_body_def Controller_wire)
  with assms(1) show ?thesis
    by (simp add: idem_wrap_no_key[OF assms(4)] h_registerController_def Service_RegisterController_def flames_service_def
        on_state_def memstate_ops_def memstate_RegisterController_def split: prod.splits)
qed

lemma route_controllers: "findHandler (post_request [''v1'', ''controllers''] hdrs body) = Route Register_controller_ep []"
  by (rule findHandler_plain[where segs = "[''v1'', ''controllers'']" and pat = "[Lit ''v1'', Lit ''controllers'']"])
    (simp_all add: request_defs routes_def plain_def)

text \<open>
  C26: A controller survives the trip over HTTP, its heartbeat time to the nanosecond: when a client posts
  the JSON encoding of any controller whose strings are UTF-8, whose numbers fit 64 bits and whose time
  lies within the years that RFC 3339 can print, and no controller with its identifier is registered, the
  answer is 201, the server stores exactly this controller next to the others and changes no VM and no
  job, and the body of the answer decodes to the controller again.
\<close>

theorem http_controller_roundtrip:
  assumes "ms_controllers (fst (hd_prov h)) (ct_ID c) = None" and "controller_ok c"
  shows "\<exists>out h1 w1.
    ServeHTTP flames_service (post_request [''v1'', ''controllers''] [] (bytes_of (json_Encode (json_Controller c)))) h w = (out, h1, w1) \<and>
    status_of out = 201 \<and>
    ms_controllers (fst (hd_prov h1)) = (ms_controllers (fst (hd_prov h)))(ct_ID c \<mapsto> c) \<and>
    ms_vms (fst (hd_prov h1)) = ms_vms (fst (hd_prov h)) \<and> snd (hd_prov h1) = snd (hd_prov h) \<and>
    json_Decode dec_Controller zero_Controller (string_of (re_Body (response out))) = Some c"
proof -
  let ?r = "post_request [''v1'', ''controllers''] [] (bytes_of (json_Encode (json_Controller c)))"
  have "rq_Body (?r\<lparr>rq_PathValues := []\<rparr>) = Inr (bytes_of (json_Encode (json_Controller c)))"
    "Header_Get ''Idempotency-Key'' (?r\<lparr>rq_PathValues := []\<rparr>) = ''''"
    by (simp_all add: post_request_def Header_Get_def)
  from registerController_no_key[OF assms this, of "hd_idem h" "w\<lparr>clock := stl (clock w)\<rparr>"] obtain p' where
    c: "registered flames_service Register_controller_ep (?r\<lparr>rq_PathValues := []\<rparr>) (hd_idem h, hd_prov h)
      (w\<lparr>clock := stl (clock w)\<rparr>) = (writeJSON 201 (json_Controller c), (hd_idem h, p'), w\<lparr>clock := stl (clock w)\<rparr>)"
    and p': "ms_controllers (fst p') = (ms_controllers (fst (hd_prov h)))(ct_ID c \<mapsto> c)"
      "ms_vms (fst p') = ms_vms (fst (hd_prov h))" "snd p' = snd (hd_prov h)" by blast
  from serve_route[OF route_controllers c] p' show ?thesis
    by (auto simp: response_writeJSON Controller_wire[OF assms(2)])
qed

definition example_controller :: Controller where
  "example_controller = zero_Controller\<lparr>ct_ID := ''ctrl-1'', ct_Status := ''online'',
     ct_Labels := Some (fmap_of_list [(''zone'', ''a'')]), ct_LastHeartbeatAt := 63876543210123456789\<rparr>"

theorem http_controller_roundtrip_witness:
  "\<exists>out h1 w1. ServeHTTP flames_service
     (post_request [''v1'', ''controllers''] [] (bytes_of (json_Encode (json_Controller example_controller))))
     (NewHandler (memstate_New, memqueue_New)) (clock_world (sconst 5)) = (out, h1, w1) \<and> status_of out = 201 \<and>
     json_Decode dec_Controller zero_Controller (string_of (re_Body (response out))) = Some example_controller"
proof -
  have "valid_utf8 ''ctrl-1''" "valid_utf8 ''online''" "valid_utf8 ''zone''" "valid_utf8 ''a''" by code_simp+
  moreover have "fst (civil_of_days 739311) = 2025" by code_simp
  then have "time_text 63876543210123456789 \<noteq> None" by (auto simp: time_text_def split: prod.splits)
  moreover have "capacity_ok zero_CapacityInfo" by code_simp
  ultimately have "controller_ok example_controller"
    by (simp add: controller_ok_def example_controller_def zero_Controller_def utf8_map_def fmpred_iff)
  then show ?thesis
    using http_controller_roundtrip[of "NewHandler (memstate_New, memqueue_New)" example_controller "clock_world (sconst 5)"]
    by (auto simp: NewHandler_def memstate_New_def)
qed

end
