(* ===== verification/Decode_Types.thy ===== *)
theory Decode_Types
  imports Codec_Roundtrip
begin

text \<open>
  What the decoders can produce. Go's types are wider than the data that comes over the wire: a string
  need not be UTF-8. Here the decoders are shown to produce only UTF-8 and 64-bit numbers, whatever
  bytes they are given, so that everything decoded can be encoded again without loss.
\<close>

subsection \<open>Decoded strings are UTF-8\<close>

lemma utf8_len_encode:
  assumes "r < 0x110000" "\<not> (0xD800 \<le> r \<and> r < 0xE000)"
  shows "utf8_len (utf8_encode r @ t) = length (utf8_encode r)"
proof -
  define a b c where "a = r div 0x1000" and "b = r div 0x40 mod 0x40" and "c = r mod 0x40"
  have r40: "r div 0x40 = 0x40 * a + b"
    using div_mult_mod_eq[of "r div 0x40" "0x40"] by (simp add: a_def b_def div_mult2_eq[symmetric])
  have r: "r = 0x1000 * a + 0x40 * b + c"
    using div_mult_mod_eq[of r "0x40"] unfolding c_def[symmetric] r40 by simp
  have b: "b < 0x40" "c < 0x40" by (simp_all add: b_def c_def)
  consider "r < 0x80" | "0x80 \<le> r" "r < 0x800" | "0x800 \<le> r" "r < 0x10000" | "0x10000 \<le> r" by linarith
  then show ?thesis
  proof cases
    case 1
    then show ?thesis by (simp add: utf8_encode_def utf8_len_def chr_code_char_of)
  next
    case 2
    then have a: "a = 0" using r by linarith
    then have "2 \<le> b" "b < 0x20" using 2 r b by linarith+
    with a show ?thesis using 2 b r40
      by (simp add: utf8_encode_def utf8_len_def in_range_def chr_code_char_of c_def[symmetric])
  next
    case 3
    then have a: "a < 0x10" "a = 0 \<Longrightarrow> 0x20 \<le> b" "a = 13 \<Longrightarrow> b \<le> 0x1F" using r b assms by linarith+
    then show ?thesis using 3 b
      by (simp add: utf8_encode_def utf8_len_def in_range_def chr_code_char_of a_def[symmetric] b_def[symmetric] c_def[symmetric])
  next
    case 4
    define d e where "d = r div 0x40000" and "e = a mod 0x40"
    have a: "a = 0x40 * d + e" using div_mult_mod_eq[of a "0x40"] by (simp add: d_def e_def a_def div_mult2_eq[symmetric])
    have e: "e < 0x40" by (simp add: e_def)
    have "d \<le> 4" "d = 0 \<Longrightarrow> 0x10 \<le> e" "d = 4 \<Longrightarrow> e \<le> 0xF" using r a b e 4 assms by linarith+
    then show ?thesis using 4 b e
      by (simp add: utf8_encode_def utf8_len_def in_range_def chr_code_char_of a_def[symmetric] b_def[symmetric] c_def[symmetric]
          d_def[symmetric] e_def[symmetric])
  qed
qed

lemma valid_utf8_step: "utf8_len s = n \<Longrightarrow> 0 < n \<Longrightarrow> valid_utf8 (drop n s) \<Longrightarrow> valid_utf8 s"
  by (cases s) (simp_all add: utf8_len_def)

declare valid_utf8.simps(2) [simp del]

lemma valid_utf8_encode:
  "r < 0x110000 \<Longrightarrow> \<not> (0xD800 \<le> r \<and> r < 0xE000) \<Longrightarrow> valid_utf8 t \<Longrightarrow> valid_utf8 (utf8_encode r @ t)"
  by (rule valid_utf8_step[OF utf8_len_encode]) (simp_all add: utf8_encode_def)

lemma valid_utf8_ascii: "chr_code c < 0x80 \<Longrightarrow> valid_utf8 t \<Longrightarrow> valid_utf8 (c # t)"
  by (rule valid_utf8_step[of _ 1]) (simp_all add: utf8_len_def)

lemma valid_utf8_rune:
  assumes "utf8_len s = n" "0 < n" "valid_utf8 t"
  shows "valid_utf8 (take n s @ t)"
proof (rule valid_utf8_step)
  show "utf8_len (take n s @ t) = n" by (rule utf8_len_take(2)[OF assms(1,2)])
  have "drop n (take n s @ t) = t" using utf8_len_take(1)[OF assms(1,2)] by simp
  then show "valid_utf8 (drop n (take n s @ t))" using assms(3) by simp
qed (rule assms(2))

lemma valid_utf8_error: "valid_utf8 t \<Longrightarrow> valid_utf8 (rune_error @ t)"
  unfolding rune_error_def by (rule valid_utf8_encode) simp_all

lemma hex_digit_bound: "hex_digit c = Some n \<Longrightarrow> n < 16"
  by (auto simp: hex_digit_def chr_code_def less_eq_char_def split: if_splits)

lemma getu4_bound: "getu4 s = Some n \<Longrightarrow> n < 0x10000"
  by (induction s rule: getu4.induct) (auto split: option.splits dest!: hex_digit_bound)

lemma surrogate_pair_bound: "surrogate_pair r s = Some r2 \<Longrightarrow> r2 < 0x110000 \<and> 0x10000 \<le> r2"
  by (auto simp: surrogate_pair_def split: if_splits option.splits)

lemma simple_escape_ascii: "simple_escape e = Some x \<Longrightarrow> chr_code x < 0x80"
  by (auto simp: simple_escape_def chr_code_def dquote_def backslash_def split: if_splits)

text \<open>What a \<^verbatim>\<open>\u\<close> escape stands for, given that the text behind it is UTF-8.\<close>

lemma unquote_valid_u:
  assumes "getu4 ds = Some r" "valid_utf8 (json_unquote (drop 4 ds))"
    and pair: "\<And>r2. surrogate_pair r (drop 4 ds) = Some r2 \<Longrightarrow> valid_utf8 (json_unquote (drop 10 ds))"
  shows "valid_utf8 (json_unquote (backslash # CHR ''u'' # ds))"
proof (cases "0xD800 \<le> r \<and> r < 0xE000")
  case sur: True
  show ?thesis
  proof (cases "surrogate_pair r (drop 4 ds)")
    case None
    with valid_utf8_error[OF assms(2)] assms(1) sur show ?thesis by (simp add: json_unquote.simps)
  next
    case (Some r2)
    from surrogate_pair_bound[OF Some] have "r2 < 0x110000" "\<not> (0xD800 \<le> r2 \<and> r2 < 0xE000)" by simp_all
    from valid_utf8_encode[OF this pair[OF Some]] Some assms(1) sur show ?thesis by (simp add: json_unquote.simps)
  qed
next
  case False
  have "r < 0x110000" using getu4_bound[OF assms(1)] by simp
  from valid_utf8_encode[OF this False assms(2)] show ?thesis using assms(1) False by (auto simp: json_unquote.simps)
qed

lemma unquote_valid: "valid_utf8 (json_unquote s)"
proof (induction s rule: length_induct)
  case (1 s)
  then have IH: "length t < length s \<Longrightarrow> valid_utf8 (json_unquote t)" for t by blast
  consider "s = []" | "s = [backslash]" | (u) ds where "s = backslash # CHR ''u'' # ds"
    | (esc) e ds where "s = backslash # e # ds" "e \<noteq> CHR ''u''"
    | (ascii) c cs where "s = c # cs" "c \<noteq> backslash" "chr_code c < 0x80"
    | (high) c cs where "s = c # cs" "c \<noteq> backslash" "\<not> chr_code c < 0x80"
    by (metis list.exhaust)
  then show ?case
  proof cases
    case u
    show ?thesis
    proof (cases "getu4 ds")
      case (Some r)
      show ?thesis unfolding u by (rule unquote_valid_u[OF Some]) (simp_all add: IH u)
    qed (simp add: u json_unquote.simps)
  next
    case esc
    with IH[of ds] show ?thesis
      by (cases "simple_escape e") (simp_all add: json_unquote.simps valid_utf8_ascii simple_escape_ascii)
  next
    case ascii
    with IH[of cs] show ?thesis by (simp add: json_unquote.simps valid_utf8_ascii)
  next
    case high
    show ?thesis
    proof (cases "utf8_len s = 0")
      case True
      with high IH[of cs] show ?thesis by (simp add: json_unquote.simps valid_utf8_error)
    next
      case False
      from valid_utf8_rune[OF refl _ IH[of "drop (utf8_len s) s"]] False high show ?thesis
        by (simp add: json_unquote.simps(2)[of c cs] Let_def)
    qed
  qed (simp_all add: json_unquote.simps)
qed

subsection \<open>Decoded values are of their types\<close>

text \<open>A decoder keeps a predicate if it stores only values for which it holds over values for which it holds.\<close>

definition keeps :: "('a \<Rightarrow> bool) \<Rightarrow> 'a decoder \<Rightarrow> bool" where
  "keeps P f \<longleftrightarrow> (\<forall>j x y. P x \<longrightarrow> f j x = Some y \<longrightarrow> P y)"

lemma keepsD: "keeps P f \<Longrightarrow> P x \<Longrightarrow> f j x = Some y \<Longrightarrow> P y"
  unfolding keeps_def by blast

lemma keepsI: "(\<And>j x y. P x \<Longrightarrow> f j x = Some y \<Longrightarrow> P y) \<Longrightarrow> keeps P f"
  unfolding keeps_def by blast

lemma keeps_string: "keeps valid_utf8 dec_string"
proof (rule keepsI)
  show "valid_utf8 x \<Longrightarrow> dec_string j x = Some y \<Longrightarrow> valid_utf8 y" for j x y
    by (cases j) (auto simp: unquote_valid)
qed

lemma keeps_int: "keeps int64_range dec_int"
proof (rule keepsI)
  have "int64_range n" if "Atoi s = (n, e)" for s n e using Atoi_range[of s] that by simp
  then show "int64_range x \<Longrightarrow> dec_int j x = Some y \<Longrightarrow> int64_range y" for j x y
    by (cases j) (auto split: prod.splits option.splits)
qed

lemma dec_entries_utf8:
  "fmpred (\<lambda>k v. valid_utf8 k \<and> valid_utf8 v) m \<Longrightarrow> dec_entries kvs m = Some m' \<Longrightarrow>
    fmpred (\<lambda>k v. valid_utf8 k \<and> valid_utf8 v) m'"
proof (induction kvs m rule: dec_entries.induct)
  case (2 k v kvs m)
  from 2(3) obtain s where s: "dec_string v '''' = Some s" "dec_entries kvs (fmupd (json_unquote k) s m) = Some m'"
    by (auto split: option.splits)
  have "valid_utf8 s" using keepsD[OF keeps_string _ s(1)] by simp
  with 2(2) have "fmpred (\<lambda>k v. valid_utf8 k \<and> valid_utf8 v) (fmupd (json_unquote k) s m)"
    by (intro fmpred_upd) (simp_all add: unquote_valid)
  from 2(1)[OF s(1) this s(2)] show ?case .
qed simp

lemma keeps_map: "keeps utf8_map dec_map"
proof (rule keepsI)
  show "utf8_map x \<Longrightarrow> dec_map j x = Some y \<Longrightarrow> utf8_map y" for j x y
    by (cases j) (auto simp: utf8_map_def split: option.splits intro: dec_entries_utf8)
qed

definition all_elems :: "('a \<Rightarrow> bool) \<Rightarrow> 'a list option \<Rightarrow> bool" where
  "all_elems P xs \<longleftrightarrow> (case xs of None \<Rightarrow> True | Some xs \<Rightarrow> list_all P xs)"

lemma keeps_slice:
  assumes f: "keeps P f" and zero: "P zero"
  shows "keeps (all_elems P) (dec_slice f zero)"
proof (rule keepsI)
  have elems: "dec_elems f zero js old = Some ys \<Longrightarrow> list_all P old \<Longrightarrow> list_all P ys" for js old ys
  proof (induction js arbitrary: old ys)
    case (Cons j js)
    from Cons.prems(1) obtain y zs where y: "f j (case old of [] \<Rightarrow> zero | x # _ \<Rightarrow> x) = Some y"
      "dec_elems f zero js (drop 1 old) = Some zs" "ys = y # zs" by (auto split: option.splits)
    have "P (case old of [] \<Rightarrow> zero | x # _ \<Rightarrow> x)" "list_all P (drop 1 old)" using Cons.prems(2) zero by (cases old, simp_all)+
    with keepsD[OF f _ y(1)] Cons.IH[OF y(2)] y(3) show ?case by simp
  qed simp
  show "all_elems P x \<Longrightarrow> dec_slice f zero j x = Some y \<Longrightarrow> all_elems P y" for j x y
    by (cases j) (auto simp: all_elems_def split: option.splits intro: elems)
qed

lemma keeps_field:
  assumes "keeps Q f" "\<And>r. P r \<Longrightarrow> Q (get r)" "\<And>r x. P r \<Longrightarrow> Q x \<Longrightarrow> P (upd (\<lambda>_. x) r)"
  shows "keeps P (field f get upd)"
proof (rule keepsI)
  show "P r \<Longrightarrow> field f get upd j r = Some r' \<Longrightarrow> P r'" for j r r'
    using keepsD[OF assms(1,2)] assms(3) by (auto simp: field_def)
qed

lemma keeps_struct:
  assumes "list_all (\<lambda>(k, f). keeps P f) tab"
  shows "keeps P (dec_struct tab)"
proof (rule keepsI)
  have field: "keeps P f" if "field_for tab k = Some f" for k f
  proof -
    from that obtain k' where "(k', f) \<in> set tab"
      by (auto simp: field_for_def find_Some_iff dest: map_of_SomeD nth_mem split: option.splits)
    with assms show ?thesis by (auto simp: list_all_iff)
  qed
  have members: "P r \<Longrightarrow> dec_members tab kvs r = Some r' \<Longrightarrow> P r'" for kvs r r'
  proof (induction kvs arbitrary: r)
    case (Cons kv kvs)
    then show ?case
      by (cases kv) (auto simp: dec_members.simps(2) dest: keepsD[OF field] split: option.splits)
  qed simp
  show "P r \<Longrightarrow> dec_struct tab j r = Some r' \<Longrightarrow> P r'" for j r r'
    by (cases j) (auto intro: members)
qed

lemma keeps_any: "keeps (\<lambda>_. True) f"
  by (simp add: keeps_def)

lemma keeps_list: "keeps utf8_list (dec_slice dec_string '''')"
proof -
  have "utf8_list = all_elems valid_utf8" by (simp add: fun_eq_iff utf8_list_def all_elems_def)
  with keeps_slice[OF keeps_string] show ?thesis by simp
qed

lemmas keeps_basic = keeps_field[OF keeps_string] keeps_field[OF keeps_int] keeps_field[OF keeps_map]
  keeps_field[OF keeps_any] keeps_field[OF keeps_list]

lemma keeps_ResourceSpec:
  "keeps (\<lambda>r. int64_range (rs_VCPUs r) \<and> int64_range (rs_MemoryMB r)) dec_ResourceSpec"
  unfolding dec_ResourceSpec_def by (rule keeps_struct) (auto intro!: keeps_basic(2))

lemma keeps_LifecycleSpec:
  "keeps (\<lambda>l. int64_range (ls_TimeoutSeconds l) \<and> valid_utf8 (ls_RestartPolicy l)) dec_LifecycleSpec"
  unfolding dec_LifecycleSpec_def
  by (rule keeps_struct) (auto intro: keeps_basic(1)[where get = ls_RestartPolicy] keeps_basic(2) keeps_basic(4)[where get = ls_AutoDelete])

lemma keeps_RuntimeSpec:
  "keeps (\<lambda>r. valid_utf8 (rt_Command r) \<and> utf8_list (rt_Args r) \<and> utf8_map (rt_Env r)) dec_RuntimeSpec"
  unfolding dec_RuntimeSpec_def
  by (rule keeps_struct) (auto intro!: keeps_basic(1)[where get = rt_Command] keeps_basic(3,5))

lemma keeps_PortMapping: "keeps port_ok dec_PortMapping"
  unfolding dec_PortMapping_def
  by (rule keeps_struct) (auto simp: port_ok_def intro!: keeps_basic(1)[where get = pm_Protocol] keeps_basic(2))

lemma keeps_NetworkSpec: "keeps (\<lambda>n. all_elems port_ok (ns_Ports n)) dec_NetworkSpec"
proof -
  have "port_ok \<lparr>pm_Guest = 0, pm_Host = 0, pm_Protocol = ''''\<rparr>"
    by (simp add: port_ok_def int64_range_def min_int64_def max_int64_def)
  note ports = keeps_field[OF keeps_slice[OF keeps_PortMapping this]]
  show ?thesis unfolding dec_NetworkSpec_def by (rule keeps_struct) (auto intro!: ports)
qed

lemma keeps_StorageSpec: "keeps (\<lambda>s. int64_range (st_RootDiskSizeMB s)) dec_StorageSpec"
  unfolding dec_StorageSpec_def by (rule keeps_struct) (auto intro!: keeps_basic(2))

lemma keeps_PlacementSpec: "keeps (\<lambda>p. utf8_map (pl_Labels p)) dec_PlacementSpec"
  unfolding dec_PlacementSpec_def by (rule keeps_struct) (auto intro!: keeps_basic(3))

lemma keeps_VMSpec: "keeps spec_ok dec_VMSpec"
  unfolding dec_VMSpec_def
  by (rule keeps_struct) (auto simp: spec_ok_def all_elems_def[symmetric] intro!: keeps_basic(3)
      keeps_field[OF keeps_ResourceSpec] keeps_field[OF keeps_LifecycleSpec] keeps_field[OF keeps_RuntimeSpec]
      keeps_field[OF keeps_NetworkSpec] keeps_field[OF keeps_StorageSpec] keeps_field[OF keeps_PlacementSpec])

lemma keeps_CapacityInfo: "keeps capacity_ok dec_CapacityInfo"
  unfolding dec_CapacityInfo_def by (rule keeps_struct) (auto simp: capacity_ok_def intro!: keeps_basic(2))

definition controller_typed :: "Controller \<Rightarrow> bool" where
  "controller_typed c \<longleftrightarrow> valid_utf8 (ct_ID c) \<and> valid_utf8 (ct_Status c) \<and> utf8_map (ct_Labels c) \<and> capacity_ok (ct_Capacity c)"

lemma keeps_Controller: "keeps controller_typed dec_Controller"
  unfolding dec_Controller_def
  by (rule keeps_struct) (auto simp: controller_typed_def intro!: keeps_basic(1)[where get = ct_ID] keeps_basic(1)[where get = ct_Status]
      keeps_basic(3) keeps_field[OF keeps_CapacityInfo] keeps_basic(4)[where get = ct_LastHeartbeatAt])

lemma keeps_Heartbeat: "keeps (\<lambda>hb. valid_utf8 (hb_Status hb) \<and> capacity_ok (hb_Capacity hb)) dec_Heartbeat"
  unfolding dec_Heartbeat_def
  by (rule keeps_struct) (auto intro!: keeps_basic(1)[where get = hb_Status] keeps_field[OF keeps_CapacityInfo])

lemma keeps_Decode: "keeps P f \<Longrightarrow> P zero \<Longrightarrow> json_Decode f zero s = Some x \<Longrightarrow> P x"
  by (auto simp: json_Decode_def bind_eq_Some_conv dest: keepsD)

lemma zero_values:
  "spec_ok zero_VMSpec" "controller_typed zero_Controller" "valid_utf8 (hb_Status zero_Heartbeat)" "capacity_ok (hb_Capacity zero_Heartbeat)"
  by code_simp+

lemmas decoded_types = keeps_Decode[OF keeps_VMSpec zero_values(1)] keeps_Decode[OF keeps_Controller zero_values(2)]
  keeps_Decode[OF keeps_Heartbeat conjI[OF zero_values(3,4)]]

end
