(* ===== verification/Http_Types.thy ===== *)
theory Http_Types
  imports Http_Wire Decode_Types
begin

text \<open>
  The types of what the server stores: whatever the clients send, the records in the store stay within
  the values the wire format can carry and the code has names for. The invariants of this kind share
  a contract: it is enough that each handler keeps them.
\<close>

subsection \<open>Invariants kept by the handlers\<close>

locale kept_by_handlers =
  fixes I :: "memstate \<times> memqueue \<Rightarrow> bool"
  assumes keep_createVM: "I p \<Longrightarrow> I (fst (snd (h_createVM flames_service r p w)))"
    and keep_stopVM: "I p \<Longrightarrow> I (fst (snd (h_stopVM flames_service r p w)))"
    and keep_deleteVM: "I p \<Longrightarrow> I (fst (snd (h_deleteVM flames_service r p w)))"
    and keep_registerController: "I p \<Longrightarrow> I (fst (snd (h_registerController flames_service r p w)))"
    and keep_heartbeat: "I p \<Longrightarrow> I (fst (snd (h_heartbeat flames_service r p w)))"
begin

lemma wrap_keeps:
  assumes h: "\<And>r p w. I p \<Longrightarrow> I (fst (snd (h r p w)))" and I: "I p"
  shows "I (snd (fst (snd (idem_wrap h r (i, p) w))))"
proof -
  let ?k = "Header_Get ''Idempotency-Key'' r"
  consider (none) "?k = ''''" | (unread) err where "?k \<noteq> ''''" "rq_Body r = Inl err"
    | (keyed) body where "?k \<noteq> ''''" "rq_Body r = Inr body" by (cases "rq_Body r") auto
  then show ?thesis
  proof cases
    case none
    with h[OF I, of r w] show ?thesis by (simp add: idem_wrap_no_key split_beta)
  next
    case unread
    with I show ?thesis by (simp add: idem_wrap_def)
  next
    case keyed
    show ?thesis
    proof (cases "idem_live i (shd (clock w)) ?k")
      case (Some e)
      from idem_wrap_found[OF refl keyed Some, of h p] I show ?thesis by auto
    next
      case None
      obtain w1 calls p' w2 rec out where run: "h r p w1 = (calls, p', w2)"
        "record_calls responseRecorder_call calls new_responseRecorder = (rec, out)" and wrap: "idem_wrap h r (i, p) w =
          (out, (i\<lparr>is_entries := (is_entries i)(?k \<mapsto> \<lparr>ie_requestHash = sha256_Sum256 body,
             ie_statusCode = rr_statusCode rec, ie_body = rr_body rec, ie_createdAt = shd (clock w2)\<rparr>)\<rparr>, p'),
           w2\<lparr>clock := stl (clock w2)\<rparr>)"
        by (rule idem_wrap_executes[OF refl keyed None, of h p])
      from h[OF I, of r w1] run wrap show ?thesis by simp
    qed
  qed
qed

lemma registered_keeps: "I p \<Longrightarrow> I (snd (fst (snd (registered flames_service ep r (i, p) w))))"
proof (cases ep)
  case Create_VM_ep
  assume "I p" with Create_VM_ep keep_createVM show ?thesis by (simp add: wrap_keeps)
next
  case Stop_VM_ep
  assume "I p" with Stop_VM_ep keep_stopVM show ?thesis by (simp add: wrap_keeps)
next
  case Delete_VM_ep
  assume "I p" with Delete_VM_ep keep_deleteVM show ?thesis by (simp add: wrap_keeps)
next
  case Register_controller_ep
  assume "I p" with Register_controller_ep keep_registerController show ?thesis by (simp add: wrap_keeps)
next
  case Heartbeat_ep
  assume "I p" with Heartbeat_ep keep_heartbeat[of p r w] show ?thesis by (simp add: unwrapped_simps split_beta)
qed (simp_all add: unwrapped_simps split_beta read_handlers)

lemma serve_keeps:
  assumes "I (hd_prov h)" "ServeHTTP flames_service r h w = (out, h', w')"
  shows "I (hd_prov h')"
proof -
  let ?m = "mux_ServeHTTP flames_service r (hd_idem h, hd_prov h) (w\<lparr>clock := stl (clock w)\<rparr>)"
  obtain w1 where m: "snd ?m = ((hd_idem h', hd_prov h'), w1)" by (rule ServeHTTP_eq[OF assms(2)])
  have "I (snd (fst (snd ?m)))"
  proof (cases "findHandler r")
    case (Route ep vs)
    with registered_keeps[OF assms(1)] show ?thesis by (simp add: mux_ServeHTTP_def)
  qed (simp_all add: mux_ServeHTTP_def assms(1))
  with m show ?thesis by simp
qed

lemma serve_all_keeps: "I (hd_prov h) \<Longrightarrow> serve_all flames_service rs h w = (h', w') \<Longrightarrow> I (hd_prov h')"
proof (induction rs arbitrary: h w)
  case (Cons r rs)
  obtain out h1 w1 where step: "ServeHTTP flames_service r h w = (out, h1, w1)" by (metis prod.exhaust)
  from Cons.IH[OF serve_keeps[OF Cons.prems(1) step]] Cons.prems(2) step show ?case by simp
qed simp

end

subsection \<open>The types of the records\<close>

definition id_typed :: "string \<Rightarrow> bool" where
  "id_typed s \<longleftrightarrow> length s = 32 \<and> set s \<subseteq> set hextable"

definition vm_typed :: "VM \<Rightarrow> bool" where
  "vm_typed vm \<longleftrightarrow> id_typed (vm_ID vm) \<and> vm_DesiredState vm \<in> {DesiredRunning, DesiredStopped, DesiredDeleted} \<and>
     vm_ObservedState vm = ObservedPending \<and> vm_ImageID vm = '''' \<and> vm_ControllerID vm = '''' \<and> spec_ok (vm_Spec vm)"

definition event_typed :: "Event \<Rightarrow> bool" where
  "event_typed e \<longleftrightarrow> id_typed (ev_ID e) \<and> id_typed (ev_VMID e) \<and> ev_ControllerID e = '''' \<and> ev_Payload e = None \<and>
     ev_Type e \<in> {''vm.created'', ''vm.stop_requested'', ''vm.delete_requested''}"

definition store_typed :: "memstate \<Rightarrow> bool" where
  "store_typed s \<longleftrightarrow>
     (\<forall>vid vm. ms_vms s vid = Some vm \<longrightarrow> vm_ID vm = vid \<and> vm_typed vm) \<and>
     (\<forall>cid c. ms_controllers s cid = Some c \<longrightarrow> ct_ID c = cid \<and> controller_typed c) \<and>
     (\<forall>e\<in>set (ms_events s). event_typed e)"

lemma newID_typed: "id_typed (fst (memstate_newID w))"
  by (simp add: id_typed_def memstate_newID_def rand_Read_def hex_chars)

lemma typed_append:
  assumes "store_typed s" "id_typed vid" "ty \<in> {''vm.created'', ''vm.stop_requested'', ''vm.delete_requested''}"
  shows "store_typed (fst (snd (memstate_AppendEvent (zero_Event\<lparr>ev_VMID := vid, ev_Type := ty\<rparr>) s w)))"
  using assms newID_typed[of w]
  by (auto simp: memstate_AppendEvent_def zero_Event_def store_typed_def event_typed_def time_defs split_beta Let_def)

lemma typed_create:
  assumes "store_typed (fst p)" "spec_ok spec"
  shows "store_typed (fst (fst (snd (Service_CreateVM flames_service spec p w))))"
proof -
  let ?vid = "fst (memstate_newID w)" and ?s = "fst (snd (memstate_CreateVM spec (fst p) w))"
  have "vm_typed (created_vm spec w)" "vm_ID (created_vm spec w) = ?vid"
    using assms(2) newID_typed[of w] by (simp_all add: created_vm_def vm_typed_def)
  with assms(1) have "store_typed ?s" by (auto simp: memstate_CreateVM_eq store_typed_def)
  from typed_append[OF this newID_typed[of w]] show ?thesis
    by (simp add: Service_CreateVM_def flames_service_def on_state_def memstate_ops_def memstate_CreateVM_eq split_beta Let_def)
qed

lemma typed_desire:
  assumes "store_typed (fst p)" "d \<in> {DesiredRunning, DesiredStopped, DesiredDeleted}"
    and "ty \<in> {''vm.created'', ''vm.stop_requested'', ''vm.delete_requested''}"
  shows "store_typed (fst (fst (snd (desire memstate_ops d ty vid p w))))"
proof (cases "ms_vms (fst p) vid")
  case None
  with assms(1) show ?thesis
    by (simp add: desire_def on_state_def memstate_ops_def memstate_UpdateVMDesiredState_def)
next
  case (Some vm)
  with assms(1) have vm: "vm_typed vm" "vm_ID vm = vid" by (auto simp: store_typed_def)
  let ?vm = "vm\<lparr>vm_DesiredState := d, vm_UpdatedAt := fst (time_Now w)\<rparr>"
  from vm assms(2) have "vm_typed ?vm" "vm_ID ?vm = vid" "id_typed vid" by (auto simp: vm_typed_def)
  with assms(1) have "store_typed ((fst p)\<lparr>ms_vms := (ms_vms (fst p))(vid \<mapsto> ?vm)\<rparr>)" "id_typed vid"
    by (auto simp: store_typed_def)
  from typed_append[OF this assms(3)] Some show ?thesis
    by (simp add: desire_def on_state_def memstate_ops_def memstate_UpdateVMDesiredState_def split_beta Let_def)
qed

lemma typed_register:
  "store_typed (fst p) \<Longrightarrow> controller_typed c \<Longrightarrow>
    store_typed (fst (fst (snd (Service_RegisterController flames_service c p w))))"
  by (auto simp: Service_RegisterController_def flames_service_def on_state_def memstate_ops_def
      memstate_RegisterController_def store_typed_def split: option.splits)

lemma typed_heartbeat:
  "store_typed (fst p) \<Longrightarrow> valid_utf8 (hb_Status hb) \<and> capacity_ok (hb_Capacity hb) \<Longrightarrow>
    store_typed (fst (fst (snd (Service_Heartbeat flames_service cid hb p w))))"
  by (auto simp: Service_Heartbeat_def flames_service_def on_state_def memstate_ops_def
      memstate_UpdateControllerHeartbeat_def store_typed_def controller_typed_def split_beta Let_def split: option.splits)

lemmas handler_services = typed_create typed_register typed_heartbeat

lemma decode_body_typed:
  "decode_body dec_VMSpec zero_VMSpec r = Some spec \<Longrightarrow> spec_ok spec"
  "decode_body dec_Controller zero_Controller r = Some c \<Longrightarrow> controller_typed c"
  "decode_body dec_Heartbeat zero_Heartbeat r = Some hb \<Longrightarrow> valid_utf8 (hb_Status hb) \<and> capacity_ok (hb_Capacity hb)"
  using decoded_types by (auto simp: decode_body_def split: sum.splits)

lemma handler_state:
  "fst (snd (h_createVM svc r p w)) =
    (case decode_body dec_VMSpec zero_VMSpec r of None \<Rightarrow> p | Some spec \<Rightarrow> fst (snd (Service_CreateVM svc spec p w)))"
  "fst (snd (h_stopVM svc r p w)) = fst (snd (Service_StopVM svc (PathValue ''vm_id'' r) p w))"
  "fst (snd (h_deleteVM svc r p w)) = fst (snd (Service_DeleteVM svc (PathValue ''vm_id'' r) p w))"
  "fst (snd (h_registerController svc r p w)) =
    (case decode_body dec_Controller zero_Controller r of None \<Rightarrow> p | Some c \<Rightarrow> fst (snd (Service_RegisterController svc c p w)))"
  "fst (snd (h_heartbeat svc r p w)) =
    (case decode_body dec_Heartbeat zero_Heartbeat r of None \<Rightarrow> p
     | Some hb \<Rightarrow> fst (snd (Service_Heartbeat svc (PathValue ''controller_id'' r) hb p w)))"
  by (simp_all add: handler_defs Let_def split_beta split: option.split sum.split)

interpretation typed: kept_by_handlers "\<lambda>p. store_typed (fst p)"
proof
  fix p :: "memstate \<times> memqueue" and r w
  assume p: "store_typed (fst p)"
  show "store_typed (fst (fst (snd (h_createVM flames_service r p w))))"
    using p typed_create[OF p decode_body_typed(1)] by (simp add: handler_state split: option.split)
  show "store_typed (fst (fst (snd (h_stopVM flames_service r p w))))"
    "store_typed (fst (fst (snd (h_deleteVM flames_service r p w))))"
    using typed_desire[OF p] by (simp_all add: handler_state flames_service_def desire_eq)
  show "store_typed (fst (fst (snd (h_registerController flames_service r p w))))"
    using p typed_register[OF p decode_body_typed(2)] by (simp add: handler_state split: option.split)
  show "store_typed (fst (fst (snd (h_heartbeat flames_service r p w))))"
    using p typed_heartbeat[OF p decode_body_typed(3)] by (simp add: handler_state split: option.split)
qed

subsection \<open>Whatever is sent, the store is typed\<close>

text \<open>
  C10: The store stays within its types, whatever bytes the clients send: after any sequence of requests to
  a new server, every VM is filed under its identifier of 32 hexadecimal digits, has one of the three
  desired states, is pending and unassigned, and its specification has only UTF-8 strings and 64-bit
  numbers; every controller is filed under its identifier and has only UTF-8 strings and 64-bit
  numbers; every event has an identifier, names a VM and has one of the three types. So the
  specification of every stored VM can be sent over the wire and read back unchanged.
\<close>

theorem http_store_typed:
  "case serve_all flames_service rs (NewHandler (memstate_New, q)) w of (h, w1) \<Rightarrow>
     store_typed (fst (hd_prov h)) \<and>
     ran (ms_vms (fst (hd_prov h))) \<subseteq>
       {vm. json_Decode dec_VMSpec zero_VMSpec (json_Encode (Some (json_VMSpec (vm_Spec vm)))) = Some (vm_Spec vm)}"
proof -
  obtain h w1 where run: "serve_all flames_service rs (NewHandler (memstate_New, q)) w = (h, w1)" by (metis prod.exhaust)
  have "store_typed (fst (hd_prov (NewHandler (memstate_New, q))))"
    by (simp add: NewHandler_def store_typed_def memstate_New_def)
  from typed.serve_all_keeps[OF this run] have typed: "store_typed (fst (hd_prov h))" .
  then have "spec_ok (vm_Spec vm)" if "vm \<in> ran (ms_vms (fst (hd_prov h)))" for vm
    using that by (auto simp: store_typed_def vm_typed_def ran_def)
  with typed VMSpec_wire show ?thesis by (auto simp: run)
qed

end
