(* ===== verification/Json_Fuel.thy ===== *)
theory Json_Fuel
  imports Json
begin

text \<open>
  The bound on the recursion of the JSON parser is only a device of the model: every call of the parser
  consumes at least a character, so from a recursion depth of twice the length of the text on, the
  result, also that a text is no JSON, does not depend on the bound.
\<close>

subsection \<open>The parser consumes its input\<close>

lemma skip_space_length: "length (skip_space s) \<le> length s"
  by (simp add: skip_space_def length_dropWhile_le)

lemma skip_space_Cons: "skip_space s = c # cs \<Longrightarrow> length cs < length s"
  using skip_space_length[of s] by simp

lemma scan_string_length: "scan_string s = Some (raw, r) \<Longrightarrow> length r < length s"
proof (induction s arbitrary: raw r rule: scan_string.induct)
  case (2 c cs)
  then show ?case by (fastforce split: if_splits list.splits)
qed simp

lemma digits_length: "digits s = (ds, r) \<Longrightarrow> length r + length ds = length s"
proof -
  assume "digits s = (ds, r)"
  then have "s = ds @ r" by (auto simp: digits_def)
  then show ?thesis by simp
qed

lemma scan_fraction_length: "scan_fraction s = Some (f, r) \<Longrightarrow> length r \<le> length s"
  by (auto simp: scan_fraction_def dest: digits_length split: list.splits if_splits prod.splits)

lemma scan_exponent_length: "scan_exponent s = Some (f, r) \<Longrightarrow> length r \<le> length s"
  by (auto simp: scan_exponent_def Let_def dest: digits_length split: list.splits if_splits prod.splits)

lemma scan_number_length: "scan_number s = Some (num, r) \<Longrightarrow> length r < length s"
proof -
  assume num: "scan_number s = Some (num, r)"
  obtain sign s1 where s1: "(case s of c # cs \<Rightarrow> if c = CHR ''-'' then ([c], cs) else ([], s) | [] \<Rightarrow> ([], [])) = (sign, s1)"
    by (rule prod.exhaust)
  obtain ip s2 where s2: "(case s1 of c # cs \<Rightarrow> if c = CHR ''0'' then ([c], cs) else digits s1 | [] \<Rightarrow> ([], [])) = (ip, s2)"
    by (rule prod.exhaust)
  from num s1 s2 have ip: "ip \<noteq> []" and "\<exists>fr s3 ex. scan_fraction s2 = Some (fr, s3) \<and> scan_exponent s3 = Some (ex, r)"
    by (auto simp: scan_number_def split: if_splits option.splits)
  then have "length r \<le> length s2" using scan_fraction_length scan_exponent_length by fastforce
  moreover have "length s2 < length s1"
    using s2 ip by (cases ip) (auto dest!: digits_length split: list.splits if_splits)
  moreover have "length s1 \<le> length s" using s1 by (auto split: list.splits if_splits)
  ultimately show ?thesis by simp
qed

lemma strip_length: "strip word s = Some r \<Longrightarrow> word \<noteq> [] \<Longrightarrow> length r < length s"
  by (auto simp: strip_def prefix_def split: if_splits)

lemma parse_length:
  "(\<forall>j r. parse_value n d s = Some (j, r) \<longrightarrow> length r < length s) \<and>
   (\<forall>js r. parse_elems n d s = Some (js, r) \<longrightarrow> length r < length s) \<and>
   (\<forall>kvs r. parse_members n d s = Some (kvs, r) \<longrightarrow> length r < length s)"
proof (induction n arbitrary: d s)
  case (Suc n)
  have v: "parse_value n d s = Some (j, r) \<Longrightarrow> length r < length s" for d s j r using Suc by blast
  have e: "parse_elems n d s = Some (js, r) \<Longrightarrow> length r < length s" for d s js r using Suc by blast
  have m: "parse_members n d s = Some (kvs, r) \<Longrightarrow> length r < length s" for d s kvs r using Suc by blast
  have "length r < length s" if "parse_value (Suc n) d s = Some (j, r)" for j r
    using that by (auto dest!: skip_space_Cons e m scan_string_length strip_length scan_number_length split: list.splits if_splits)
  moreover have "length r < length s" if "parse_elems (Suc n) d s = Some (js, r)" for js r
    using that by (auto dest!: skip_space_Cons e v split: list.splits if_splits option.splits)
  moreover have "length r < length s" if "parse_members (Suc n) d s = Some (kvs, r)" for kvs r
    using that by (auto dest!: skip_space_Cons v m scan_string_length split: list.splits if_splits option.splits)
  ultimately show ?case by blast
qed simp

subsection \<open>The bound does not matter\<close>

text \<open>One call: if deeper calls do not depend on the bound, neither does it.\<close>

definition same_results :: "(nat \<Rightarrow> nat \<Rightarrow> string \<Rightarrow> 'a) \<Rightarrow> nat \<Rightarrow> nat \<Rightarrow> nat \<Rightarrow> bool" where
  "same_results f extra n k \<longleftrightarrow>
    (\<forall>d s. 2 * length s + extra \<le> n \<longrightarrow> 2 * length s + extra \<le> k \<longrightarrow> f n d s = f k d s)"

lemma same_resultsD: "same_results f extra n k \<Longrightarrow> 2 * length s + extra \<le> n \<Longrightarrow> 2 * length s + extra \<le> k \<Longrightarrow> f n d s = f k d s"
  unfolding same_results_def by blast

lemma same_value:
  assumes "same_results parse_elems 2 n k" "same_results parse_members 2 n k"
  shows "same_results parse_value 1 (Suc n) (Suc k)"
  unfolding same_results_def
proof (intro allI impI)
  fix d and s :: string assume n: "2 * length s + 1 \<le> Suc n" "2 * length s + 1 \<le> Suc k"
  show "parse_value (Suc n) d s = parse_value (Suc k) d s"
  proof (cases "skip_space s")
    case (Cons c cs)
    show ?thesis
    proof (cases "skip_space cs")
      case inner: (Cons x xs)
      have "2 * length (x # xs) + 2 \<le> n" "2 * length (x # xs) + 2 \<le> k"
        using skip_space_Cons[OF Cons] skip_space_Cons[OF inner] n by auto
      note same = assms[THEN same_resultsD, OF this, of "d - 1"]
      show ?thesis using same Cons inner by auto
    qed (simp add: Cons)
  qed simp
qed

lemma same_elems:
  assumes "same_results parse_value 1 n k" "same_results parse_elems 2 n k"
  shows "same_results parse_elems 2 (Suc n) (Suc k)"
  unfolding same_results_def
proof (intro allI impI)
  fix d and s :: string assume n: "2 * length s + 2 \<le> Suc n" "2 * length s + 2 \<le> Suc k"
  have "parse_elems n d xs = parse_elems k d xs" if r: "parse_value n d s = Some (j, r)" "skip_space r = x # xs" for j r x xs
    using parse_length[of n d s] r skip_space_Cons[OF r(2)] n by (intro same_resultsD[OF assms(2)]) fastforce+
  moreover have "parse_value n d s = parse_value k d s" using n by (intro same_resultsD[OF assms(1)]) simp_all
  ultimately show "parse_elems (Suc n) d s = parse_elems (Suc k) d s" by (auto split: option.split list.split)
qed

lemma same_members:
  assumes "same_results parse_value 1 n k" "same_results parse_members 2 n k"
  shows "same_results parse_members 2 (Suc n) (Suc k)"
  unfolding same_results_def
proof (intro allI impI)
  fix d and s :: string assume n: "2 * length s + 2 \<le> Suc n" "2 * length s + 2 \<le> Suc k"
  have "parse_value n d s3 = parse_value k d s3 \<and> (\<forall>j r x xs. parse_value n d s3 = Some (j, r) \<longrightarrow> skip_space r = x # xs \<longrightarrow>
      parse_members n d xs = parse_members k d xs)"
    if "skip_space s = q # s1" "scan_string s1 = Some (key, s2)" "skip_space s2 = cl # s3" for q s1 key s2 cl s3
  proof -
    have len: "length s3 < length s"
      using skip_space_Cons[OF that(1)] scan_string_length[OF that(2)] skip_space_Cons[OF that(3)] by simp
    have "parse_members n d xs = parse_members k d xs" if "parse_value n d s3 = Some (j, r)" "skip_space r = x # xs" for j r x xs
      using parse_length[of n d s3] that skip_space_Cons[OF that(2)] n len by (intro same_resultsD[OF assms(2)]) fastforce+
    moreover have "parse_value n d s3 = parse_value k d s3" using n len by (intro same_resultsD[OF assms(1)]) simp_all
    ultimately show ?thesis by blast
  qed
  then show "parse_members (Suc n) d s = parse_members (Suc k) d s" by (fastforce split: option.split list.split)
qed

lemma parse_fuel: "same_results parse_value 1 n k \<and> same_results parse_elems 2 n k \<and> same_results parse_members 2 n k"
proof (induction n arbitrary: k)
  case (Suc n)
  show ?case
  proof (cases k)
    case k: (Suc m)
    show ?thesis unfolding k using Suc[of m] by (intro conjI same_value same_elems same_members) simp_all
  qed (simp add: same_results_def)
qed (simp add: same_results_def)

lemma json_parse_fuel: "2 * length s + 1 \<le> n \<Longrightarrow> json_parse s = map_option fst (parse_value n max_nesting s)"
  using same_resultsD[OF parse_fuel[of "2 * length s + 2" n, THEN conjunct1], of s max_nesting]
  by (simp add: json_parse_def del: parse_value.simps)

end
