(* ===== verification/Idem_Concurrent.thy ===== *)
theory Idem_Concurrent
  imports Idempotency
begin

text \<open>
  Concurrent requests through the idempotency middleware of \<^verbatim>\<open>src/transport/httpapi/idempotency.go\<close>. The
  mutex is held only while the map is read, while an expired entry is removed and while a response
  is stored, so requests interleave between these sections. The theory has one step per section and
  one for the handler, shows that a request that is not interrupted behaves as \<open>idem_wrap\<close>, and what
  holds however the steps of many requests are interleaved, and what does not.
\<close>

subsection \<open>Requests in flight\<close>

text \<open>Where a request with a key is: its body is read, the map has shown an expired entry or none, the handler has run.\<close>

datatype phase =
  Arrived
| Found_expired
| Missing
| Ran responseRecorder "writer_call list"
| Answered "writer_call list"

record 'p flight =
  fl_handler :: "'p handler"
  fl_request :: Request
  fl_body :: bytes
  fl_phase :: phase

definition fl_key :: "'p flight \<Rightarrow> string" where
  "fl_key f = Header_Get ''Idempotency-Key'' (fl_request f)"

text \<open>
  The shared state and, to state properties, the executions so far: the number of the request and what
  its recorder has seen.
\<close>

record 'p server =
  sv_idem :: idempotencyStore
  sv_prov :: 'p
  sv_flights :: "'p flight list"
  sv_ran :: "(nat \<times> responseRecorder) list"

definition set_phase :: "nat \<Rightarrow> phase \<Rightarrow> 'p server \<Rightarrow> 'p server" where
  "set_phase n ph s = s\<lparr>sv_flights := (sv_flights s)[n := (sv_flights s ! n)\<lparr>fl_phase := ph\<rparr>]\<rparr>"

definition in_phase :: "nat \<Rightarrow> phase \<Rightarrow> 'p server \<Rightarrow> bool" where
  "in_phase n ph s \<longleftrightarrow> n < length (sv_flights s) \<and> fl_phase (sv_flights s ! n) = ph"

definition conflict_response :: "writer_call list" where
  "conflict_response = writeErrorMessage 409 ''conflict'' ''idempotency key reused with different request body''"

text \<open>The steps, each in whatever world it happens.\<close>

inductive idem_step :: "'p server \<Rightarrow> 'p server \<Rightarrow> bool" where
  lookup_none: "in_phase n Arrived s \<Longrightarrow> idem_lookup (fl_key (sv_flights s ! n)) (sv_idem s) = None \<Longrightarrow>
    idem_step s (set_phase n Missing s)"
| lookup_expired: "in_phase n Arrived s \<Longrightarrow> idem_lookup (fl_key (sv_flights s ! n)) (sv_idem s) = Some e \<Longrightarrow>
    fst (idem_expired e w) \<Longrightarrow> idem_step s (set_phase n Found_expired s)"
| lookup_conflict: "in_phase n Arrived s \<Longrightarrow> idem_lookup (fl_key (sv_flights s ! n)) (sv_idem s) = Some e \<Longrightarrow>
    \<not> fst (idem_expired e w) \<Longrightarrow> ie_requestHash e \<noteq> sha256_Sum256 (fl_body (sv_flights s ! n)) \<Longrightarrow>
    idem_step s (set_phase n (Answered conflict_response) s)"
| lookup_replay: "in_phase n Arrived s \<Longrightarrow> idem_lookup (fl_key (sv_flights s ! n)) (sv_idem s) = Some e \<Longrightarrow>
    \<not> fst (idem_expired e w) \<Longrightarrow> ie_requestHash e = sha256_Sum256 (fl_body (sv_flights s ! n)) \<Longrightarrow>
    idem_step s (set_phase n (Answered (idem_replay e)) s)"
| evict: "in_phase n Found_expired s \<Longrightarrow>
    idem_step s (set_phase n Missing (s\<lparr>sv_idem := idem_evict (fl_key (sv_flights s ! n)) (sv_idem s)\<rparr>))"
| run: "in_phase n Missing s \<Longrightarrow>
    fl_handler (sv_flights s ! n) ((fl_request (sv_flights s ! n))\<lparr>rq_Body := Inr (fl_body (sv_flights s ! n))\<rparr>)
      (sv_prov s) w = (calls, p', w') \<Longrightarrow>
    record_calls responseRecorder_call calls new_responseRecorder = (rec, out) \<Longrightarrow>
    idem_step s (set_phase n (Ran rec out) (s\<lparr>sv_prov := p', sv_ran := sv_ran s @ [(n, rec)]\<rparr>))"
| store: "in_phase n (Ran rec out) s \<Longrightarrow>
    idem_store (fl_key (sv_flights s ! n)) (sha256_Sum256 (fl_body (sv_flights s ! n))) rec (sv_idem s) w = (i', w') \<Longrightarrow>
    idem_step s (set_phase n (Answered out) (s\<lparr>sv_idem := i'\<rparr>))"

inductive_cases idem_stepE: "idem_step s s'"

abbreviation idem_steps :: "'p server \<Rightarrow> 'p server \<Rightarrow> bool" where
  "idem_steps \<equiv> idem_step\<^sup>*\<^sup>*"

text \<open>A server with a set of requests that have just arrived.\<close>

definition server_start :: "idempotencyStore \<Rightarrow> 'p \<Rightarrow> ('p handler \<times> Request \<times> bytes) list \<Rightarrow> 'p server" where
  "server_start i p reqs = \<lparr>sv_idem = i, sv_prov = p,
     sv_flights = map (\<lambda>(h, r, body). \<lparr>fl_handler = h, fl_request = r, fl_body = body, fl_phase = Arrived\<rparr>) reqs,
     sv_ran = []\<rparr>"

lemma set_phase_simps [simp]:
  "sv_idem (set_phase n ph s) = sv_idem s" "sv_prov (set_phase n ph s) = sv_prov s"
  "sv_ran (set_phase n ph s) = sv_ran s" "length (sv_flights (set_phase n ph s)) = length (sv_flights s)"
  by (simp_all add: set_phase_def)

lemma flight_set_phase:
  "n < length (sv_flights s) \<Longrightarrow> sv_flights (set_phase n ph s) ! m =
     (if m = n then (sv_flights s ! n)\<lparr>fl_phase := ph\<rparr> else sv_flights s ! m)"
  by (simp add: set_phase_def nth_list_update)


text \<open>Key and digest of a request; no step changes them.\<close>

definition req_key :: "'p server \<Rightarrow> nat \<Rightarrow> string" where
  "req_key s n = fl_key (sv_flights s ! n)"

definition req_hash :: "'p server \<Rightarrow> nat \<Rightarrow> bytes" where
  "req_hash s n = sha256_Sum256 (fl_body (sv_flights s ! n))"

lemma req_set_phase [simp]:
  "req_key (set_phase n ph s) = req_key s" "req_hash (set_phase n ph s) = req_hash s"
  by (cases "n < length (sv_flights s)";
      auto simp: req_key_def req_hash_def set_phase_def fl_key_def nth_list_update list_update_beyond fun_eq_iff)+

lemma req_upd [simp]:
  "req_key (s\<lparr>sv_idem := i\<rparr>) = req_key s" "req_hash (s\<lparr>sv_idem := i\<rparr>) = req_hash s"
  "req_key (s\<lparr>sv_prov := p, sv_ran := rs\<rparr>) = req_key s" "req_hash (s\<lparr>sv_prov := p, sv_ran := rs\<rparr>) = req_hash s"
  by (simp_all add: req_key_def req_hash_def fun_eq_iff)

lemma in_phase_upd [simp]:
  "in_phase m ph (s\<lparr>sv_idem := i\<rparr>) = in_phase m ph s"
  "in_phase m ph (s\<lparr>sv_prov := p, sv_ran := rs\<rparr>) = in_phase m ph s"
  by (simp_all add: in_phase_def)

lemma in_phase_set:
  "in_phase n old s \<Longrightarrow> in_phase m ph' (set_phase n ph s) \<longleftrightarrow> (if m = n then ph' = ph else in_phase m ph' s)"
  by (auto simp: in_phase_def set_phase_def nth_list_update)

lemma in_phase_unique: "in_phase n ph s \<Longrightarrow> in_phase n ph' s \<Longrightarrow> ph = ph'"
  by (simp add: in_phase_def)

subsection \<open>What holds in every interleaving\<close>

text \<open>An entry for a key that an execution with this key has left.\<close>

definition from_run :: "'p server \<Rightarrow> string \<Rightarrow> idempotencyEntry \<Rightarrow> bool" where
  "from_run s key e \<longleftrightarrow> (\<exists>m rec. (m, rec) \<in> set (sv_ran s) \<and> req_key s m = key \<and> req_hash s m = ie_requestHash e \<and>
     ie_statusCode e = rr_statusCode rec \<and> ie_body e = rr_body rec)"

text \<open>
  The answers a request can get: what its own execution wrote; or, without being executed, the recorded
  response of an execution with the same key and digest, or the conflict response when an execution with the
  same key had another digest.
\<close>

definition justified :: "'p server \<Rightarrow> nat \<Rightarrow> writer_call list \<Rightarrow> bool" where
  "justified s n out \<longleftrightarrow>
     (\<exists>rec calls. (n, rec) \<in> set (sv_ran s) \<and> record_calls responseRecorder_call calls new_responseRecorder = (rec, out)) \<or>
     n \<notin> fst ` set (sv_ran s) \<and> (\<exists>e. from_run s (req_key s n) e \<and>
       (if ie_requestHash e = req_hash s n then out = idem_replay e else out = conflict_response))"

definition conc_inv :: "'p server \<Rightarrow> bool" where
  "conc_inv s \<longleftrightarrow>
     distinct (map fst (sv_ran s)) \<and>
     (\<forall>n. in_phase n Arrived s \<or> in_phase n Found_expired s \<or> in_phase n Missing s \<longrightarrow> n \<notin> fst ` set (sv_ran s)) \<and>
     (\<forall>n rec out. in_phase n (Ran rec out) s \<longrightarrow> (n, rec) \<in> set (sv_ran s) \<and>
        (\<exists>calls. record_calls responseRecorder_call calls new_responseRecorder = (rec, out))) \<and>
     (\<forall>key e. is_entries (sv_idem s) key = Some e \<longrightarrow> from_run s key e) \<and>
     (\<forall>n out. in_phase n (Answered out) s \<longrightarrow> justified s n out)"

lemma from_run_set_phase [simp]: "from_run (set_phase n ph s) = from_run s"
  by (simp add: from_run_def fun_eq_iff)

lemma justified_set_phase [simp]: "justified (set_phase n ph s) = justified s"
  by (simp add: justified_def fun_eq_iff)

lemma from_run_idem [simp]: "from_run (s\<lparr>sv_idem := i\<rparr>) = from_run s"
  by (simp add: from_run_def fun_eq_iff)

lemma justified_idem [simp]: "justified (s\<lparr>sv_idem := i\<rparr>) = justified s"
  by (simp add: justified_def fun_eq_iff)

lemma from_run_more:
  "from_run s key e \<Longrightarrow> from_run (s\<lparr>sv_prov := p, sv_ran := sv_ran s @ [x]\<rparr>) key e"
  by (auto simp: from_run_def)

lemma justified_more:
  "justified s n out \<Longrightarrow> m \<noteq> n \<Longrightarrow> justified (s\<lparr>sv_prov := p, sv_ran := sv_ran s @ [(m, rec)]\<rparr>) n out"
  unfolding justified_def by (auto intro: from_run_more)

lemma conc_inv_start: "conc_inv (server_start newIdempotencyStore p reqs)"
  by (auto simp: conc_inv_def server_start_def in_phase_def newIdempotencyStore_def split: prod.splits)

lemma conc_inv_step: "idem_step s s' \<Longrightarrow> conc_inv s \<Longrightarrow> conc_inv s'"
proof (induction rule: idem_step.induct)
  case (lookup_none n s)
  then show ?case by (auto simp: conc_inv_def in_phase_set split: if_splits)
next
  case (lookup_expired n s e w)
  then show ?case by (auto simp: conc_inv_def in_phase_set split: if_splits)
next
  case (lookup_conflict n s e w)
  then have "from_run s (req_key s n) e" "n \<notin> fst ` set (sv_ran s)"
    by (auto simp: conc_inv_def idem_lookup_def req_key_def)
  with lookup_conflict have "justified s n conflict_response" unfolding justified_def by (auto simp: req_hash_def)
  with lookup_conflict show ?case by (auto simp: conc_inv_def in_phase_set split: if_splits)
next
  case (lookup_replay n s e w)
  then have "from_run s (req_key s n) e" "n \<notin> fst ` set (sv_ran s)"
    by (auto simp: conc_inv_def idem_lookup_def req_key_def)
  with lookup_replay have "justified s n (idem_replay e)" unfolding justified_def by (auto simp: req_hash_def)
  with lookup_replay show ?case by (auto simp: conc_inv_def in_phase_set split: if_splits)
next
  case (evict n s)
  then have "in_phase n Found_expired (s\<lparr>sv_idem := idem_evict (fl_key (sv_flights s ! n)) (sv_idem s)\<rparr>)" by simp
  from in_phase_set[OF this] evict show ?case by (auto simp: conc_inv_def idem_evict_def split: if_splits)
next
  case (run n s w calls p' w' rec out)
  let ?s = "s\<lparr>sv_prov := p', sv_ran := sv_ran s @ [(n, rec)]\<rparr>"
  have "in_phase n Missing ?s" using run by simp
  note set = in_phase_set[OF this]
  from run have new: "n \<notin> fst ` set (sv_ran s)" by (auto simp: conc_inv_def)
  show ?case
    unfolding conc_inv_def set from_run_set_phase justified_set_phase
  proof (intro conjI allI impI)
    show "distinct (map fst (sv_ran (set_phase n (Ran rec out) ?s)))" using run new by (simp add: conc_inv_def)
  next
    fix m assume "(if m = n then Arrived = Ran rec out else in_phase m Arrived ?s) \<or>
      (if m = n then Found_expired = Ran rec out else in_phase m Found_expired ?s) \<or>
      (if m = n then Missing = Ran rec out else in_phase m Missing ?s)"
    then have "m \<noteq> n" "in_phase m Arrived s \<or> in_phase m Found_expired s \<or> in_phase m Missing s" by (auto split: if_splits)
    with run show "m \<notin> fst ` set (sv_ran (set_phase n (Ran rec out) ?s))" by (auto simp: conc_inv_def)
  next
    fix m rec' out' assume "if m = n then Ran rec' out' = Ran rec out else in_phase m (Ran rec' out') ?s"
    with run show "(m, rec') \<in> set (sv_ran (set_phase n (Ran rec out) ?s))"
      "\<exists>calls. record_calls responseRecorder_call calls new_responseRecorder = (rec', out')"
      by (auto simp: conc_inv_def split: if_splits)
  next
    fix key e assume "is_entries (sv_idem (set_phase n (Ran rec out) ?s)) key = Some e"
    with run show "from_run ?s key e" by (auto simp: conc_inv_def intro: from_run_more)
  next
    fix m out' assume "if m = n then Answered out' = Ran rec out else in_phase m (Answered out') ?s"
    then have "m \<noteq> n" "in_phase m (Answered out') s" by (auto split: if_splits)
    with run show "justified ?s m out'" by (auto simp: conc_inv_def intro: justified_more)
  qed
next
  case (store n rec out s w i' w')
  let ?s = "s\<lparr>sv_idem := i'\<rparr>"
  have "in_phase n (Ran rec out) ?s" using store by simp
  note set = in_phase_set[OF this]
  from store have ran: "(n, rec) \<in> set (sv_ran s)" "\<exists>calls. record_calls responseRecorder_call calls new_responseRecorder = (rec, out)"
    by (auto simp: conc_inv_def)
  then have just: "justified s n out" by (auto simp: justified_def)
  have entry: "from_run s (req_key s n) \<lparr>ie_requestHash = req_hash s n, ie_statusCode = rr_statusCode rec, ie_body = rr_body rec,
      ie_createdAt = shd (clock w)\<rparr>" using ran(1) by (auto simp: from_run_def)
  have "is_entries i' = (is_entries (sv_idem s))(req_key s n \<mapsto> \<lparr>ie_requestHash = req_hash s n,
      ie_statusCode = rr_statusCode rec, ie_body = rr_body rec, ie_createdAt = shd (clock w)\<rparr>)"
    using store(2) by (auto simp: idem_store_def time_Now_def req_key_def req_hash_def)
  with store entry just show ?case by (auto simp: conc_inv_def set split: if_splits)
qed

lemma conc_inv_steps: "idem_steps s s' \<Longrightarrow> conc_inv s \<Longrightarrow> conc_inv s'"
  by (induction rule: rtranclp_induct) (auto intro: conc_inv_step)

subsection \<open>A request that is not interrupted\<close>

lemma steps_trans: "idem_step s s1 \<Longrightarrow> idem_steps s1 s2 \<Longrightarrow> idem_steps s s2"
  by (rule converse_rtranclp_into_rtranclp)

lemma run_and_store:
  assumes "in_phase n Missing s"
    and "fl_handler (sv_flights s ! n) ((fl_request (sv_flights s ! n))\<lparr>rq_Body := Inr (fl_body (sv_flights s ! n))\<rparr>)
      (sv_prov s) w = (calls, p', w1)"
    and "record_calls responseRecorder_call calls new_responseRecorder = (rec, out)"
    and "idem_store (req_key s n) (req_hash s n) rec (sv_idem s) w2 = (i', w3)"
  shows "\<exists>s'. idem_steps s s' \<and> in_phase n (Answered out) s' \<and> sv_idem s' = i' \<and> sv_prov s' = p' \<and>
    sv_ran s' = sv_ran s @ [(n, rec)] \<and> (\<forall>m. m \<noteq> n \<longrightarrow> sv_flights s' ! m = sv_flights s ! m) \<and>
    length (sv_flights s') = length (sv_flights s)"
proof -
  let ?s1 = "set_phase n (Ran rec out) (s\<lparr>sv_prov := p', sv_ran := sv_ran s @ [(n, rec)]\<rparr>)"
  let ?s2 = "set_phase n (Answered out) (?s1\<lparr>sv_idem := i'\<rparr>)"
  have n: "n < length (sv_flights s)" using assms(1) by (simp add: in_phase_def)
  have 1: "idem_step s ?s1" using assms(1-3) by (rule idem_step.run)
  have "in_phase n (Ran rec out) ?s1" using n by (simp add: in_phase_def set_phase_def)
  moreover have "idem_store (fl_key (sv_flights ?s1 ! n)) (sha256_Sum256 (fl_body (sv_flights ?s1 ! n))) rec (sv_idem ?s1) w2 = (i', w3)"
    using assms(4) n by (simp add: req_key_def req_hash_def set_phase_def fl_key_def)
  ultimately have 2: "idem_step ?s1 ?s2" by (rule idem_step.store)
  have "idem_steps s ?s2" using 1 2 by (meson r_into_rtranclp rtranclp.rtrancl_into_rtrancl)
  moreover have "in_phase n (Answered out) ?s2" using n by (simp add: in_phase_def set_phase_def)
  moreover have "\<forall>m. m \<noteq> n \<longrightarrow> sv_flights ?s2 ! m = sv_flights s ! m" by (simp add: set_phase_def)
  ultimately show ?thesis by (intro exI[of _ ?s2]) simp
qed

text \<open>The steps of a request with nothing in between are \<open>idem_wrap\<close>.\<close>

lemma uninterrupted:
  assumes "Header_Get ''Idempotency-Key'' r \<noteq> []" and "rq_Body r = Inr body"
    and "idem_wrap h r (i, p) w = (out, (i', p'), w')"
  shows "\<exists>s'. idem_steps (server_start i p [(h, r, body)]) s' \<and> in_phase 0 (Answered out) s' \<and>
    sv_idem s' = i' \<and> sv_prov s' = p'"
proof -
  let ?s = "server_start i p [(h, r, body)]" and ?k = "Header_Get ''Idempotency-Key'' r"
  have start: "in_phase 0 Arrived ?s" "fl_key (sv_flights ?s ! 0) = ?k" "sv_idem ?s = i" "sv_prov ?s = p" "sv_ran ?s = []"
    "fl_body (sv_flights ?s ! 0) = body"
    by (simp_all add: server_start_def in_phase_def fl_key_def)
  have exec: "\<exists>s'. idem_steps (set_phase 0 Missing (?s\<lparr>sv_idem := i1\<rparr>)) s' \<and> in_phase 0 (Answered out) s' \<and> sv_idem s' = i' \<and> sv_prov s' = p'"
    if "idem_find ?k i w = (None, i1, w1)" for i1 w1
  proof -
    let ?s1 = "set_phase 0 Missing (?s\<lparr>sv_idem := i1\<rparr>)"
    obtain calls p1 w2 where h: "h (r\<lparr>rq_Body := Inr body\<rparr>) p w1 = (calls, p1, w2)" by (metis prod.exhaust)
    obtain rec out1 where rec: "record_calls responseRecorder_call calls new_responseRecorder = (rec, out1)" by (metis prod.exhaust)
    obtain i2 w3 where st: "idem_store ?k (sha256_Sum256 body) rec i1 w2 = (i2, w3)" by (metis prod.exhaust)
    have eq: "out1 = out" "i2 = i'" "p1 = p'" using assms that h rec st by (auto simp: idem_wrap_def)
    have a: "in_phase 0 Missing ?s1" by (simp add: in_phase_def set_phase_def server_start_def)
    have b: "fl_handler (sv_flights ?s1 ! 0) ((fl_request (sv_flights ?s1 ! 0))\<lparr>rq_Body := Inr (fl_body (sv_flights ?s1 ! 0))\<rparr>)
      (sv_prov ?s1) w1 = (calls, p1, w2)" using h by (simp add: set_phase_def server_start_def)
    have c: "idem_store (req_key ?s1 0) (req_hash ?s1 0) rec (sv_idem ?s1) w2 = (i2, w3)"
      using st by (simp add: req_key_def req_hash_def server_start_def fl_key_def)
    from run_and_store[OF a b rec c] show ?thesis unfolding eq by blast
  qed
  show ?thesis
  proof (cases "idem_lookup ?k i")
    case None
    then have 1: "idem_step ?s (set_phase 0 Missing ?s)" using start by (intro lookup_none) simp_all
    have same: "?s\<lparr>sv_idem := i\<rparr> = ?s" by (simp add: server_start_def)
    have "idem_find ?k i w = (None, i, w)" using None by (simp add: idem_find_def)
    from exec[OF this, unfolded same] 1 show ?thesis by (blast intro: steps_trans)
  next
    case (Some e)
    show ?thesis
    proof (cases "fst (idem_expired e w)")
      case True
      let ?s1 = "set_phase 0 Found_expired ?s"
      have 1: "idem_step ?s ?s1" using start Some True by (intro lookup_expired) simp_all
      have 2: "idem_step ?s1 (set_phase 0 Missing (?s1\<lparr>sv_idem := idem_evict (fl_key (sv_flights ?s1 ! 0)) (sv_idem ?s1)\<rparr>))"
        by (rule evict) (simp add: in_phase_def set_phase_def server_start_def)
      have 3: "set_phase 0 Missing (?s1\<lparr>sv_idem := idem_evict (fl_key (sv_flights ?s1 ! 0)) (sv_idem ?s1)\<rparr>) =
          set_phase 0 Missing (?s\<lparr>sv_idem := idem_evict ?k i\<rparr>)"
        by (simp add: set_phase_def server_start_def fl_key_def)
      have "idem_find ?k i w = (None, idem_evict ?k i, snd (idem_expired e w))"
        using Some True by (simp add: idem_find_def case_prod_beta)
      from exec[OF this] 1 2[unfolded 3] show ?thesis by (blast intro: steps_trans)
    next
      case False
      let ?out = "if ie_requestHash e = sha256_Sum256 body then idem_replay e else conflict_response"
      have "idem_step ?s (set_phase 0 (Answered ?out) ?s)"
        using start Some False idem_step.lookup_replay[of 0 ?s e w] idem_step.lookup_conflict[of 0 ?s e w] by auto
      moreover have "idem_find ?k i w = (Some e, i, snd (idem_expired e w))"
        using Some False by (simp add: idem_find_def case_prod_beta)
      with assms have "out = ?out" "i' = i" "p' = p"
        by (auto simp: idem_wrap_def conflict_response_def split: if_splits)
      ultimately show ?thesis
        using start by (intro exI[of _ "set_phase 0 (Answered ?out) ?s"]) (auto simp: in_phase_set)
    qed
  qed
qed

text \<open>Two requests that overlap: both look the key up before either has stored its response.\<close>

lemma overlapping_run:
  "\<exists>s out1 out2. idem_steps (server_start newIdempotencyStore p [(h, r, body), (h, r, body)]) s \<and>
     in_phase 0 (Answered out1) s \<and> in_phase 1 (Answered out2) s \<and> map fst (sv_ran s) = [0, 1] \<and>
     sv_prov s = (let (_, p1, w1) = h (r\<lparr>rq_Body := Inr body\<rparr>) p w; (_, p2, _) = h (r\<lparr>rq_Body := Inr body\<rparr>) p1 w1 in p2)"
proof -
  let ?s = "server_start newIdempotencyStore p [(h, r, body), (h, r, body)]"
  let ?s1 = "set_phase 0 Missing ?s" let ?s2 = "set_phase 1 Missing ?s1"
  have 1: "idem_step ?s ?s1"
    by (rule lookup_none) (simp_all add: in_phase_def server_start_def idem_lookup_def newIdempotencyStore_def)
  have 2: "idem_step ?s1 ?s2"
    by (rule lookup_none) (simp_all add: in_phase_def server_start_def idem_lookup_def newIdempotencyStore_def set_phase_def)
  obtain c1 p1 w1 where h1: "h (r\<lparr>rq_Body := Inr body\<rparr>) p w = (c1, p1, w1)" by (metis prod.exhaust)
  obtain c2 p2 w2 where h2: "h (r\<lparr>rq_Body := Inr body\<rparr>) p1 w1 = (c2, p2, w2)" by (metis prod.exhaust)
  obtain rec1 out1 where r1: "record_calls responseRecorder_call c1 new_responseRecorder = (rec1, out1)" by (metis prod.exhaust)
  obtain rec2 out2 where r2: "record_calls responseRecorder_call c2 new_responseRecorder = (rec2, out2)" by (metis prod.exhaust)
  have s2: "in_phase 0 Missing ?s2" "in_phase 1 Missing ?s2" "sv_prov ?s2 = p" "sv_ran ?s2 = []"
    "fl_handler (sv_flights ?s2 ! 0) ((fl_request (sv_flights ?s2 ! 0))\<lparr>rq_Body := Inr (fl_body (sv_flights ?s2 ! 0))\<rparr>)
      (sv_prov ?s2) w = (c1, p1, w1)"
    using h1 by (simp_all add: in_phase_def set_phase_def server_start_def)
  obtain i1 w3 where "idem_store (req_key ?s2 0) (req_hash ?s2 0) rec1 (sv_idem ?s2) w1 = (i1, w3)" by (metis prod.exhaust)
  from run_and_store[OF s2(1,5) r1 this] obtain s3 where
    s3: "idem_steps ?s2 s3" "in_phase 0 (Answered out1) s3" "sv_prov s3 = p1" "sv_ran s3 = [(0, rec1)]"
    "sv_flights s3 ! 1 = sv_flights ?s2 ! 1" "length (sv_flights s3) = length (sv_flights ?s2)"
    using s2(4) by auto
  have m: "in_phase 1 Missing s3" using s2(2) s3(5,6) by (simp add: in_phase_def)
  have h: "fl_handler (sv_flights s3 ! 1) ((fl_request (sv_flights s3 ! 1))\<lparr>rq_Body := Inr (fl_body (sv_flights s3 ! 1))\<rparr>)
      (sv_prov s3) w1 = (c2, p2, w2)"
    unfolding s3(5,3) using h2 by (simp add: set_phase_def server_start_def)
  obtain i2 w4 where "idem_store (req_key s3 1) (req_hash s3 1) rec2 (sv_idem s3) w2 = (i2, w4)" by (metis prod.exhaust)
  from run_and_store[OF m h r2 this] obtain s4 where
    s4: "idem_steps s3 s4" "in_phase 1 (Answered out2) s4" "sv_prov s4 = p2" "sv_ran s4 = [(0, rec1), (1, rec2)]"
    "sv_flights s4 ! 0 = sv_flights s3 ! 0" "length (sv_flights s4) = length (sv_flights s3)"
    using s3(4) by auto
  have "in_phase 0 (Answered out1) s4" using s3(2) s4(5,6) by (simp add: in_phase_def)
  moreover have "idem_steps ?s s4" using 1 2 s3(1) s4(1) by (meson rtranclp_trans steps_trans)
  ultimately show ?thesis using s4 h1 h2 by (intro exI[of _ s4] exI[of _ out1] exI[of _ out2]) (simp add: Let_def)
qed

subsection \<open>Properties\<close>

text \<open>
  C16: However the sections of concurrent requests with idempotency keys are interleaved, from an empty store:
  no request is executed more than once; every answered request got what its own execution wrote, or, without
  having been executed, the recorded response of an execution with the same key and the same digest of the
  body, or 409 when an execution with its key had another digest; and every stored entry is the record of an
  execution with its key.
\<close>

theorem idem_interleaved:
  assumes "idem_steps (server_start newIdempotencyStore p reqs) s"
  shows "distinct (map fst (sv_ran s)) \<and>
    (\<forall>n out. in_phase n (Answered out) s \<longrightarrow> justified s n out) \<and>
    (\<forall>key e. is_entries (sv_idem s) key = Some e \<longrightarrow> from_run s key e)"
  using conc_inv_steps[OF assms conc_inv_start] by (auto simp: conc_inv_def)

theorem idem_interleaved_witness:
  "\<exists>s out. idem_steps (server_start newIdempotencyStore 0
       [(counting, keyed_request ''k'' [7], [7]), (counting, keyed_request ''k'' [7], [7])]) s \<and>
     in_phase 1 (Answered out) s \<and> justified s 1 out \<and> sv_prov s = 2"
proof -
  let ?r = "keyed_request ''k'' [7]"
  obtain s out1 out2 where "idem_steps (server_start newIdempotencyStore 0 [(counting, ?r, [7]), (counting, ?r, [7])]) s"
    "in_phase 1 (Answered out2) s" "sv_prov s = 2"
    using overlapping_run[of 0 counting ?r "[7]" "clock_world (sconst 5)"] by (auto simp: counting_def)
  with idem_interleaved[OF this(1)] show ?thesis by blast
qed

text \<open>
  C40: The middleware does not make concurrent requests idempotent: two requests with the same key and body that
  overlap, both looking the key up before either has stored its response, are both executed, whatever the
  handler, the request and the state of the providers; the response of the second replaces that of the first.
\<close>

theorem idem_race:
  "\<exists>s out1 out2. idem_steps (server_start newIdempotencyStore p [(h, r, body), (h, r, body)]) s \<and>
     in_phase 0 (Answered out1) s \<and> in_phase 1 (Answered out2) s \<and> map fst (sv_ran s) = [0, 1] \<and>
     sv_prov s = (let (_, p1, w1) = h (r\<lparr>rq_Body := Inr body\<rparr>) p w; (_, p2, _) = h (r\<lparr>rq_Body := Inr body\<rparr>) p1 w1 in p2)"
  by (rule overlapping_run)

end
