(* ===== verification/Service_Concurrent.thy ===== *)
theory Service_Concurrent
  imports Api_Service "HOL-Library.Multiset"
begin

text \<open>
  Concurrent calls of the service of \<^verbatim>\<open>src/api/service.go\<close>. The store's methods are atomic, the service's are
  not: \<^verbatim>\<open>CreateVM\<close>, \<^verbatim>\<open>StopVM\<close> and \<^verbatim>\<open>DeleteVM\<close> change a VM record in one call of the store and append the event in
  another, and nothing keeps other requests from coming in between. The theory has one step per call
  of the store, shows that a call whose steps are not interrupted is the method of \<open>Api_Service\<close>, what
  the event log is worth in every interleaving, and what is lost against calls one after the other.
\<close>

subsection \<open>Calls in progress\<close>

text \<open>A call that has not begun, one that still has to append its event, one that has returned.\<close>

datatype task =
  Start service_call
| Append Event
| Returned

text \<open>The next call of the store.\<close>

fun task_step :: "('s, 'q) Service \<Rightarrow> task \<Rightarrow> 's \<times> 'q \<Rightarrow> world \<Rightarrow> task \<times> ('s \<times> 'q) \<times> world" where
  "task_step svc (Start (Create_VM spec)) p w =
    (let (r, p, w) = on_state (ss_CreateVM (sv_state svc) spec) p w
     in (case r of
           Inl err \<Rightarrow> Returned
         | Inr vid \<Rightarrow> Append (zero_Event\<lparr>ev_VMID := vid, ev_Type := ''vm.created''\<rparr>), p, w))"
| "task_step svc (Start (Stop_VM vid)) p w =
    (let (r, p, w) = on_state (ss_UpdateVMDesiredState (sv_state svc) vid DesiredStopped) p w
     in (case r of
           Inl err \<Rightarrow> Returned
         | Inr _ \<Rightarrow> Append (zero_Event\<lparr>ev_VMID := vid, ev_Type := ''vm.stop_requested''\<rparr>), p, w))"
| "task_step svc (Start (Delete_VM vid)) p w =
    (let (r, p, w) = on_state (ss_UpdateVMDesiredState (sv_state svc) vid DesiredDeleted) p w
     in (case r of
           Inl err \<Rightarrow> Returned
         | Inr _ \<Rightarrow> Append (zero_Event\<lparr>ev_VMID := vid, ev_Type := ''vm.delete_requested''\<rparr>), p, w))"
| "task_step svc (Start call) p w = (Returned, service_do svc call p w)"
| "task_step svc (Append ev) p w =
    (let (r, p, w) = on_state (ss_AppendEvent (sv_state svc) ev) p w in (Returned, p, w))"
| "task_step svc Returned p w = (Returned, p, w)"

text \<open>A service with calls in progress: the providers, the world and the calls.\<close>

type_synonym ('s, 'q) busy = "('s \<times> 'q) \<times> world \<times> task list"

inductive svc_step :: "('s, 'q) Service \<Rightarrow> ('s, 'q) busy \<Rightarrow> ('s, 'q) busy \<Rightarrow> bool" for svc where
  advance: "n < length ts \<Longrightarrow> task_step svc (ts ! n) p w = (t', p', w') \<Longrightarrow>
    svc_step svc (p, w, ts) (p', w', ts[n := t'])"

abbreviation svc_steps :: "('s, 'q) Service \<Rightarrow> ('s, 'q) busy \<Rightarrow> ('s, 'q) busy \<Rightarrow> bool" where
  "svc_steps svc \<equiv> (svc_step svc)\<^sup>*\<^sup>*"

inductive_cases svc_stepE: "svc_step svc (p, w, ts) b"

text \<open>Without interruption a call is the service's method.\<close>

lemma uninterrupted_call:
  "(case task_step svc (Start call) p w of (t, p1, w1) \<Rightarrow>
      case task_step svc t p1 w1 of (t', p2, w2) \<Rightarrow> t' = Returned \<and> (p2, w2) = service_do svc call p w)"
  by (cases call)
    (auto simp: Service_CreateVM_def Service_StopVM_def Service_DeleteVM_def Let_def split: prod.splits sum.splits)

subsection \<open>What the log is worth\<close>

text \<open>What an event says about a VM, and the events that calls in progress have still to append.\<close>

definition decision :: "Event \<Rightarrow> string \<times> string" where
  "decision e = (ev_VMID e, ev_Type e)"

fun pending :: "task list \<Rightarrow> Event list" where
  "pending [] = []"
| "pending (Append e # ts) = e # pending ts"
| "pending (_ # ts) = pending ts"

text \<open>
  \<open>changes\<close> are the decisions in the order in which the store has carried them out: replayed in
  that order they give the desired states, and they are the events that are logged or to be logged.
\<close>

definition explains :: "Event list \<Rightarrow> cp_view \<Rightarrow> task list \<Rightarrow> bool" where
  "explains changes v ts \<longleftrightarrow>
     (\<forall>vid. replay vid changes = map_option vm_DesiredState (cp_vms v vid)) \<and>
     image_mset decision (mset changes) = image_mset decision (mset (cp_log v)) + image_mset decision (mset (pending ts))"

lemma pending_update:
  assumes "n < length ts"
  shows "mset (pending (ts[n := t])) + mset (pending [ts ! n]) = mset (pending ts) + mset (pending [t])"
  using assms
proof (induction ts arbitrary: n)
  case (Cons u us)
  have cons: "mset (pending (u # us)) = mset (pending [u]) + mset (pending us)" for u us by (cases u) auto
  show ?case
  proof (cases n)
    case 0
    then show ?thesis using cons[of u us] cons[of t us] by simp
  next
    case (Suc m)
    with Cons have "mset (pending (us[m := t])) + mset (pending [us ! m]) = mset (pending us) + mset (pending [t])" by simp
    with Suc show ?thesis using cons[of u "us[m := t]"] cons[of u us] by simp
  qed
qed simp

lemma replay_change:
  "(\<And>d. replay_event vid e d = Some d') \<Longrightarrow> ev_VMID e = vid \<Longrightarrow>
    replay k (changes @ [e]) = (if k = vid then Some d' else replay k changes)"
  by (auto simp: replay_snoc replay_event_def)


lemma explains_start:
  assumes ex: "explains changes v ts" and n: "n < length ts" "pending [ts ! n] = []"
    and log: "cp_log v' = cp_log v" and vms: "cp_vms v' = (cp_vms v)(ev_VMID e \<mapsto> vm)"
    and replay: "\<And>d. replay_event (ev_VMID e) e d = Some (vm_DesiredState vm)"
  shows "explains (changes @ [e]) v' (ts[n := Append e])"
proof -
  have "mset (pending (ts[n := Append e])) = mset (pending ts) + {#e#}"
    using pending_update[OF n(1), of "Append e"] n(2) by simp
  then show ?thesis using ex log vms by (simp add: explains_def replay_change[OF replay refl])
qed

lemma explains_same:
  assumes "explains changes v ts" and "n < length ts" "pending [ts ! n] = []" and "same_decisions v v'"
  shows "explains changes v' (ts[n := Returned])"
  using assms pending_update[OF assms(2), of Returned] by (simp add: explains_def same_decisions_def)

lemma explains_append:
  assumes "explains changes v ts" and "n < length ts" "ts ! n = Append e" and "completes e e'"
    and "cp_vms v' = cp_vms v" "cp_log v' = cp_log v @ [e']"
  shows "explains changes v' (ts[n := Returned])"
proof -
  have "mset (pending (ts[n := Returned])) + {#e#} = mset (pending ts)"
    using pending_update[OF assms(2), of Returned] assms(3) by simp
  then have "image_mset decision (mset (pending ts)) = image_mset decision (mset (pending (ts[n := Returned]))) + {#decision e#}"
    by (metis image_mset_add_mset image_mset_empty image_mset_union)
  moreover have "decision e' = decision e" using completesD[OF assms(4)] by (simp add: decision_def)
  ultimately show ?thesis using assms by (simp add: explains_def)
qed

context reliable_state_store
begin

text \<open>The first step of a stop or a delete request.\<close>

lemma desire_start:
  assumes inv: "inv (fst p)" and ex: "explains changes (view (fst p)) ts" and n: "n < length ts" "pending [ts ! n] = []"
    and call: "on_state (ss_UpdateVMDesiredState ops vid d) p w = (r, p', w')"
    and ty: "\<And>x. replay_event vid (zero_Event\<lparr>ev_VMID := vid, ev_Type := ty\<rparr>) x = Some d"
  shows "inv (fst p') \<and> snd p' = snd p \<and> (\<exists>changes. explains changes (view (fst p'))
    (ts[n := (case r of Inl _ \<Rightarrow> Returned | Inr _ \<Rightarrow> Append (zero_Event\<lparr>ev_VMID := vid, ev_Type := ty\<rparr>))]))"
proof -
  let ?e = "zero_Event\<lparr>ev_VMID := vid, ev_Type := ty\<rparr>"
  from call obtain s' where c: "ss_UpdateVMDesiredState ops vid d (fst p) w = (r, s', w')" and p': "p' = (s', snd p)"
    by (rule on_stateE)
  show ?thesis
  proof (cases r)
    case (Inl err)
    with desired_err[OF inv] c explains_same[OF ex n] p' show ?thesis by force
  next
    case (Inr u)
    with desired_ok[OF inv] c obtain vm t where "inv s'" "view s' = (view (fst p))\<lparr>cp_vms :=
        (cp_vms (view (fst p)))(vid \<mapsto> vm\<lparr>vm_DesiredState := d, vm_UpdatedAt := t\<rparr>)\<rparr>" by blast
    with explains_start[OF ex n, of "view s'" ?e "vm\<lparr>vm_DesiredState := d, vm_UpdatedAt := t\<rparr>"] ty Inr p'
    show ?thesis by auto
  qed
qed

lemma create_start:
  assumes inv: "inv (fst p)" and ex: "explains changes (view (fst p)) ts" and n: "n < length ts" "pending [ts ! n] = []"
    and call: "on_state (ss_CreateVM ops spec) p w = (r, p', w')"
  shows "inv (fst p') \<and> snd p' = snd p \<and> (\<exists>changes. explains changes (view (fst p'))
    (ts[n := (case r of Inl _ \<Rightarrow> Returned | Inr vid \<Rightarrow> Append (zero_Event\<lparr>ev_VMID := vid, ev_Type := ''vm.created''\<rparr>))]))"
proof -
  from call obtain s' where c: "ss_CreateVM ops spec (fst p) w = (r, s', w')" and p': "p' = (s', snd p)"
    by (rule on_stateE)
  show ?thesis
  proof (cases r)
    case (Inl err)
    with create_err[OF inv] c explains_same[OF ex n] p' show ?thesis by force
  next
    case (Inr vid)
    let ?e = "zero_Event\<lparr>ev_VMID := vid, ev_Type := ''vm.created''\<rparr>"
    from Inr create_ok[OF inv] c obtain vm where "inv s'" "fresh_vm vid spec vm"
      "view s' = (view (fst p))\<lparr>cp_vms := (cp_vms (view (fst p)))(vid \<mapsto> vm)\<rparr>" by blast
    with explains_start[OF ex n, of "view s'" ?e vm] Inr p' show ?thesis
      by (auto simp: replay_event_def fresh_vm_def)
  qed
qed

lemma svc_step_explains:
  assumes "svc_step (Service_New ops qops) (p, w, ts) (p', w', ts')" and inv: "inv (fst p)"
    and ex: "explains changes (view (fst p)) ts"
  shows "inv (fst p') \<and> snd p' = snd p \<and> (\<exists>changes. explains changes (view (fst p')) ts')"
proof -
  let ?svc = "Service_New ops qops"
  from assms(1) obtain n t' where n: "n < length ts" and st: "task_step ?svc (ts ! n) p w = (t', p', w')"
    and ts': "ts' = ts[n := t']" by (rule svc_stepE) auto
  show ?thesis
  proof (cases "ts ! n")
    case (Start call)
    then have pend: "pending [ts ! n] = []" by simp
    show ?thesis
    proof (cases "decides call")
      case True
      then show ?thesis
      proof (cases call)
        case (Create_VM spec)
        obtain r where "on_state (ss_CreateVM ops spec) p w = (r, p', w')"
          using st Start Create_VM by (auto simp: Let_def split: prod.splits)
        from create_start[OF inv ex n pend this] this show ?thesis using st Start Create_VM ts' by (simp add: Let_def)
      next
        case (Stop_VM vid)
        obtain r where "on_state (ss_UpdateVMDesiredState ops vid DesiredStopped) p w = (r, p', w')"
          using st Start Stop_VM by (auto simp: Let_def split: prod.splits)
        from desire_start[OF inv ex n pend this, of "''vm.stop_requested''"] this show ?thesis
          using st Start Stop_VM ts' by (simp add: Let_def replay_event_def)
      next
        case (Delete_VM vid)
        obtain r where "on_state (ss_UpdateVMDesiredState ops vid DesiredDeleted) p w = (r, p', w')"
          using st Start Delete_VM by (auto simp: Let_def split: prod.splits)
        from desire_start[OF inv ex n pend this, of "''vm.delete_requested''"] this show ?thesis
          using st Start Delete_VM ts' by (simp add: Let_def replay_event_def)
      qed simp_all
    next
      case False
      then have "service_do ?svc call p w = (p', w')" "t' = Returned" using st Start by (cases call; simp)+
      from service_frame[OF inv False this(1)] explains_same[OF ex n pend] ts' this(2) show ?thesis by blast
    qed
  next
    case (Append e)
    from append_event[OF inv, of e w] obtain s2 w2 e' where a: "ss_AppendEvent ops e (fst p) w = (Inr (), s2, w2)"
      "inv s2" "completes e e'" "view s2 = (view (fst p))\<lparr>cp_log := cp_log (view (fst p)) @ [e']\<rparr>" by blast
    with st Append have "t' = Returned" "p' = (s2, snd p)" by (auto simp: on_state_def)
    with explains_append[OF ex n Append a(3), of "view s2"] a(2,4) ts' show ?thesis by auto
  next
    case Returned
    with st have "t' = ts ! n" "p' = p" by simp_all
    then have "ts' = ts" "p' = p" by (simp_all add: ts')
    with inv ex show ?thesis by blast
  qed
qed

lemma svc_steps_explain:
  assumes "svc_steps (Service_New ops qops) (p, w, ts) (p', w', ts')" and "inv (fst p)"
    and "explains changes (view (fst p)) ts"
  shows "inv (fst p') \<and> snd p' = snd p \<and> (\<exists>changes. explains changes (view (fst p')) ts')"
  using assms(1)
proof (induction "(p', w', ts')" arbitrary: p' w' ts' rule: rtranclp_induct)
  case base
  with assms(2,3) show ?case by blast
next
  case (step y)
  obtain p1 w1 ts1 where y: "y = (p1, w1, ts1)" by (cases y)
  from step(3)[OF y] obtain changes1 where "inv (fst p1)" "snd p1 = snd p" "explains changes1 (view (fst p1)) ts1" by blast
  with svc_step_explains[OF step(2)[unfolded y]] show ?case by auto
qed

end

subsection \<open>Properties\<close>

text \<open>A desired state that a replay gives is the decision of one of the events.\<close>

lemma replay_decided:
  "replay vid evs = Some d \<Longrightarrow> \<exists>e\<in>set evs. ev_VMID e = vid \<and> replay_event vid e None = Some d"
proof (induction evs rule: rev_induct)
  case (snoc e evs)
  show ?case
  proof (cases "replay_event vid e None = Some d")
    case True
    then show ?thesis by (auto simp: replay_event_def split: if_splits)
  next
    case False
    with snoc.prems have "replay vid evs = Some d" by (auto simp: replay_snoc replay_event_def split: if_splits)
    with snoc.IH show ?thesis by auto
  qed
qed (simp add: replay_def)

lemma replay_event_decision: "decision e' = decision e \<Longrightarrow> replay_event vid e' d = replay_event vid e d"
  by (simp add: decision_def replay_event_def)

lemma explains_logged:
  assumes "explains changes v ts" and "cp_vms v vid = Some vm"
  shows "\<exists>e\<in>set (cp_log v) \<union> set (pending ts). ev_VMID e = vid \<and> replay_event vid e None = Some (vm_DesiredState vm)"
proof -
  from assms replay_decided[of vid changes "vm_DesiredState vm"] obtain e where
    e: "e \<in> set changes" "ev_VMID e = vid" "replay_event vid e None = Some (vm_DesiredState vm)" by (auto simp: explains_def)
  have "decision ` set changes = decision ` (set (cp_log v) \<union> set (pending ts))"
    using arg_cong[OF conjunct2[OF assms(1)[unfolded explains_def]], of set_mset] by (simp add: image_Un)
  with e(1) obtain e' where "e' \<in> set (cp_log v) \<union> set (pending ts)" "decision e' = decision e" by (metis image_iff imageI)
  with e replay_event_decision[of e' e] show ?thesis by (auto simp: decision_def)
qed

text \<open>
  However the store calls of concurrent service requests are interleaved, the log accounts for every change:
  there is an order of the changes whose replay gives the desired state of every VM, and the changes are, as
  often as they occur, the events in the log and those that requests in progress have still to append (none
  once all have returned). So every desired state is the decision of a logged event or of one about to be
  logged. The queue is not touched.
\<close>

lemma service_interleaved:
  assumes "svc_steps flames_service ((memstate_New, q), w, map Start calls) ((s, q'), w', ts)"
  shows "q' = q \<and> (\<exists>changes. explains changes (memstate_view s) ts) \<and>
    (\<forall>vid vm. ms_vms s vid = Some vm \<longrightarrow> (\<exists>e\<in>set (ms_events s) \<union> set (pending ts).
       ev_VMID e = vid \<and> replay_event vid e None = Some (vm_DesiredState vm))) \<and>
    ((\<forall>t\<in>set ts. t = Returned) \<longrightarrow> pending ts = [])"
proof -
  have none: "pending (map Start calls) = []" by (induction calls) auto
  have "explains [] (memstate_view (fst (memstate_New, q))) (map Start calls)"
    by (simp add: explains_def none memstate_New_def replay_def)
  from memstate.svc_steps_explain[OF assms[unfolded flames_service_def] _ this] memstate_inv_New
  obtain changes where q: "q' = q" and ex: "explains changes (memstate_view s) ts" by auto
  have "(\<forall>t\<in>set ts. t = Returned) \<longrightarrow> pending ts = []" by (induction ts) auto
  with q ex explains_logged[OF ex] show ?thesis by auto
qed

text \<open>Two calls of the store, one after the other, on a VM that exists.\<close>

lemma memstate_desired_call:
  assumes "ms_vms s vid = Some vm"
  shows "on_state (ss_UpdateVMDesiredState memstate_ops vid d) (s, q) w =
    (Inr (), (s\<lparr>ms_vms := (ms_vms s)(vid \<mapsto> vm\<lparr>vm_DesiredState := d, vm_UpdatedAt := shd (clock w)\<rparr>)\<rparr>, q),
     w\<lparr>clock := stl (clock w)\<rparr>)"
  using assms by (simp add: on_state_def memstate_ops_def memstate_UpdateVMDesiredState_def time_Now_def)

lemma memstate_append_call:
  "on_state (ss_AppendEvent memstate_ops e) (s, q) w =
    (Inr (), (s\<lparr>ms_events := ms_events s @ [stored_event e w]\<rparr>, q), snd (snd (memstate_AppendEvent e s w)))"
proof -
  obtain r s' w' where c: "memstate_AppendEvent e s w = (r, s', w')" by (metis prod.exhaust)
  with memstate_AppendEvent_eq[of e s w] show ?thesis by (simp add: on_state_def memstate_ops_def)
qed

lemma replay_stored: "replay vid (evs @ [stored_event e w]) = replay_event vid e (replay vid evs)"
  using completesD[OF completes_stored_event[of e w]] by (simp add: replay_snoc replay_event_def)

text \<open>
  C27: The log does not tell the desired state when requests overlap: for every VM there is an interleaving of a
  stop and a delete request in which both succeed, the VM is to be deleted, and the log, replayed, says that
  it is to be stopped. One after the other this cannot happen.
\<close>

theorem service_log_race:
  assumes "ms_vms s vid = Some vm"
  shows "\<exists>s' w'. svc_steps flames_service ((s, q), w, [Start (Stop_VM vid), Start (Delete_VM vid)])
      ((s', q), w', [Returned, Returned]) \<and>
    map_option vm_DesiredState (ms_vms s' vid) = Some DesiredDeleted \<and>
    replay vid (ms_events s') = Some DesiredStopped \<and> length (ms_events s') = length (ms_events s) + 2"
proof -
  let ?stop = "zero_Event\<lparr>ev_VMID := vid, ev_Type := ''vm.stop_requested''\<rparr>"
  let ?del = "zero_Event\<lparr>ev_VMID := vid, ev_Type := ''vm.delete_requested''\<rparr>"
  let ?svc = "flames_service" and ?ts = "[Start (Stop_VM vid), Start (Delete_VM vid)]"
  obtain s1 w1 vm1 where 1: "task_step ?svc (?ts ! 0) (s, q) w = (Append ?stop, (s1, q), w1)" "ms_vms s1 vid = Some vm1"
    "ms_events s1 = ms_events s" using assms by (simp add: flames_service_def memstate_desired_call)
  obtain s2 w2 vm2 where 2: "task_step ?svc ([Append ?stop, Start (Delete_VM vid)] ! 1) (s1, q) w1 = (Append ?del, (s2, q), w2)"
    "ms_vms s2 vid = Some vm2" "vm_DesiredState vm2 = DesiredDeleted" "ms_events s2 = ms_events s"
    using 1(2,3) by (simp add: flames_service_def memstate_desired_call)
  let ?s3 = "s2\<lparr>ms_events := ms_events s2 @ [stored_event ?del w2]\<rparr>"
  obtain w3 where 3: "task_step ?svc ([Append ?stop, Append ?del] ! 1) (s2, q) w2 = (Returned, (?s3, q), w3)"
    by (simp add: flames_service_def memstate_append_call)
  let ?s4 = "?s3\<lparr>ms_events := ms_events ?s3 @ [stored_event ?stop w3]\<rparr>"
  obtain w4 where 4: "task_step ?svc ([Append ?stop, Returned] ! 0) (?s3, q) w3 = (Returned, (?s4, q), w4)"
    by (simp add: flames_service_def memstate_append_call)
  have "svc_steps ?svc ((s, q), w, ?ts) ((?s4, q), w4, [Returned, Returned])"
    using advance[OF _ 1(1)] advance[OF _ 2(1)] advance[OF _ 3] advance[OF _ 4]
    by (auto intro: converse_rtranclp_into_rtranclp)
  moreover have "ms_events ?s4 = (ms_events s2 @ [stored_event ?del w2]) @ [stored_event ?stop w3]" by simp
  then have "replay vid (ms_events ?s4) = Some DesiredStopped"
    by (simp only: replay_stored) (simp add: replay_event_def)
  ultimately show ?thesis using 2 by (intro exI[of _ ?s4] exI[of _ w4]) simp
qed

theorem service_log_race_witness:
  "\<exists>s q w vm. ms_vms s ''vm-1'' = Some vm \<and>
     (\<exists>s' w'. svc_steps flames_service ((s, q), w, [Start (Stop_VM ''vm-1''), Start (Delete_VM ''vm-1'')])
        ((s', q), w', [Returned, Returned]) \<and> replay ''vm-1'' (ms_events s') = Some DesiredStopped)"
proof -
  define vm where "vm = (created_vm zero_VMSpec (clock_world (sconst 5)))\<lparr>vm_ID := ''vm-1''\<rparr>"
  have "ms_vms (memstate_New\<lparr>ms_vms := [''vm-1'' \<mapsto> vm]\<rparr>) ''vm-1'' = Some vm" by simp
  from this service_log_race[OF this] show ?thesis by blast
qed

end
