(* ===== verification/Http_Concurrent.thy ===== *)
theory Http_Concurrent
  imports Http_Properties Service_Concurrent
begin

text \<open>
  The whole server under concurrent requests. \<^verbatim>\<open>net/http\<close> runs every request in a goroutine of its own, so the
  requests interleave at every critical section: the sections of the idempotency middleware of
  \<^verbatim>\<open>src/transport/httpapi/idempotency.go\<close>, the calls that a method of the service of \<^verbatim>\<open>src/api/service.go\<close> makes of
  the store, and the writing of the log line in \<^verbatim>\<open>src/transport/httpapi/handler.go\<close>. A request is at a stage and
  has one step per section. The theory shows that a request that is not interrupted is \<open>ServeHTTP\<close>, that
  no request waits for another, and what holds however the requests interleave.
\<close>

subsection \<open>Methods of the service in two calls of the store\<close>

datatype svc_result =
  Id_result "string result"
| VM_result "VM result"
| Unit_result "unit result"
| Ctrls_result "Controller list result"
| Events_result "Event list result"

text \<open>
  The first call of the store: what the method will return, and the event it still has to append. The
  calls \<open>Observe_VM\<close> and \<open>Assign_VM\<close> are not methods of the service; no handler makes them.
\<close>

fun svc_begin :: "('s, 'q) Service \<Rightarrow> service_call \<Rightarrow> ('s \<times> 'q, svc_result \<times> Event option) action" where
  "svc_begin svc (Create_VM spec) p w =
    (let (r, p, w) = on_state (ss_CreateVM (sv_state svc) spec) p w
     in ((Id_result r, case r of Inl err \<Rightarrow> None
            | Inr vid \<Rightarrow> Some (zero_Event\<lparr>ev_VMID := vid, ev_Type := ''vm.created''\<rparr>)), p, w))"
| "svc_begin svc (Stop_VM vid) p w =
    (let (r, p, w) = on_state (ss_UpdateVMDesiredState (sv_state svc) vid DesiredStopped) p w
     in ((Unit_result r, case r of Inl err \<Rightarrow> None
            | Inr _ \<Rightarrow> Some (zero_Event\<lparr>ev_VMID := vid, ev_Type := ''vm.stop_requested''\<rparr>)), p, w))"
| "svc_begin svc (Delete_VM vid) p w =
    (let (r, p, w) = on_state (ss_UpdateVMDesiredState (sv_state svc) vid DesiredDeleted) p w
     in ((Unit_result r, case r of Inl err \<Rightarrow> None
            | Inr _ \<Rightarrow> Some (zero_Event\<lparr>ev_VMID := vid, ev_Type := ''vm.delete_requested''\<rparr>)), p, w))"
| "svc_begin svc (Get_VM vid) p w = apfst (\<lambda>r. (VM_result r, None)) (Service_GetVM svc vid p w)"
| "svc_begin svc (Register_ctrl c) p w = apfst (\<lambda>r. (Unit_result r, None)) (Service_RegisterController svc c p w)"
| "svc_begin svc (Heartbeat_ctrl cid hb) p w = apfst (\<lambda>r. (Unit_result r, None)) (Service_Heartbeat svc cid hb p w)"
| "svc_begin svc (List_ctrls flt) p w = apfst (\<lambda>r. (Ctrls_result r, None)) (Service_ListControllers svc flt p w)"
| "svc_begin svc (List_evs flt) p w = apfst (\<lambda>r. (Events_result r, None)) (Service_ListEvents svc flt p w)"
| "svc_begin svc (Observe_VM vid ob cid) p w =
    apfst (\<lambda>r. (Unit_result r, None)) (on_state (ss_UpdateVMObservedState (sv_state svc) vid ob cid) p w)"
| "svc_begin svc (Assign_VM vid cid) p w =
    apfst (\<lambda>r. (Unit_result r, None)) (on_state (ss_AssignVM (sv_state svc) vid cid) p w)"

text \<open>The second one; its error is ignored.\<close>

definition svc_append :: "('s, 'q) Service \<Rightarrow> Event \<Rightarrow> 's \<times> 'q \<Rightarrow> world \<Rightarrow> ('s \<times> 'q) \<times> world" where
  "svc_append svc e p w = (let (_, p, w) = on_state (ss_AppendEvent (sv_state svc) e) p w in (p, w))"

definition task_of :: "Event option \<Rightarrow> task" where
  "task_of ev = (case ev of None \<Rightarrow> Returned | Some e \<Rightarrow> Append e)"

lemma svc_begin_task:
  "svc_begin svc call p w = ((res, ev), p', w') \<Longrightarrow> task_step svc (Start call) p w = (task_of ev, p', w')"
  by (cases call) (auto simp: task_of_def apfst_def map_prod_def Let_def split: prod.splits sum.splits)

lemma svc_append_task: "svc_append svc e p w = (p', w') \<Longrightarrow> task_step svc (Append e) p w = (Returned, p', w')"
  by (auto simp: svc_append_def split: prod.splits)

subsection \<open>Handlers around a call of the service\<close>

text \<open>What a handler does before it calls the service: answer at once, or make this call.\<close>

fun handler_call :: "endpoint \<Rightarrow> Request \<Rightarrow> writer_call list + service_call" where
  "handler_call Create_VM_ep r =
    (case decode_body dec_VMSpec zero_VMSpec r of None \<Rightarrow> Inl (bad_request ''invalid JSON body'') | Some spec \<Rightarrow> Inr (Create_VM spec))"
| "handler_call Get_VM_ep r = Inr (Get_VM (PathValue ''vm_id'' r))"
| "handler_call Stop_VM_ep r = Inr (Stop_VM (PathValue ''vm_id'' r))"
| "handler_call Delete_VM_ep r = Inr (Delete_VM (PathValue ''vm_id'' r))"
| "handler_call Register_controller_ep r =
    (case decode_body dec_Controller zero_Controller r of None \<Rightarrow> Inl (bad_request ''invalid JSON body'') | Some c \<Rightarrow> Inr (Register_ctrl c))"
| "handler_call Heartbeat_ep r =
    (case decode_body dec_Heartbeat zero_Heartbeat r of None \<Rightarrow> Inl (bad_request ''invalid JSON body'')
     | Some hb \<Rightarrow> Inr (Heartbeat_ctrl (PathValue ''controller_id'' r) hb))"
| "handler_call List_controllers_ep r =
    Inr (List_ctrls \<lparr>cf_Status = Query_Get r ''status'', cf_Limit = queryInt r ''limit''\<rparr>)"
| "handler_call List_events_ep r =
    (let flt = \<lparr>ef_VMID = Query_Get r ''vm_id'', ef_ControllerID = Query_Get r ''controller_id'',
                ef_Type = Query_Get r ''type'', ef_Since = 0, ef_Limit = queryInt r ''limit''\<rparr>;
         since = Query_Get r ''since''
     in if since = '''' then Inr (List_evs flt)
        else case time_Parse since of
               None \<Rightarrow> Inl (bad_request (''invalid '' @ [CHR 0x27] @ ''since'' @ [CHR 0x27] @ '' parameter, expected RFC 3339''))
             | Some t \<Rightarrow> Inr (List_evs (flt\<lparr>ef_Since := t\<rparr>)))"
| "handler_call Healthz_ep r = Inl (writeJSON 200 (Some ok_object))"

text \<open>And what it writes when the service has returned.\<close>

definition answer_with :: "'a result \<Rightarrow> ('a \<Rightarrow> writer_call list) \<Rightarrow> writer_call list" where
  "answer_with res f = (case res of Inl err \<Rightarrow> writeError err | Inr x \<Rightarrow> f x)"

fun handler_answer :: "service_call \<Rightarrow> svc_result \<Rightarrow> writer_call list" where
  "handler_answer (Create_VM spec) (Id_result res) = answer_with res (\<lambda>vid. writeJSON 202 (Some (id_object vid)))"
| "handler_answer (Get_VM vid) (VM_result res) = answer_with res (\<lambda>vm. writeJSON 200 (json_VM vm))"
| "handler_answer (Stop_VM vid) (Unit_result res) = answer_with res (\<lambda>_. writeJSON 202 (Some (id_object vid)))"
| "handler_answer (Delete_VM vid) (Unit_result res) = answer_with res (\<lambda>_. writeJSON 202 (Some (id_object vid)))"
| "handler_answer (Register_ctrl c) (Unit_result res) = answer_with res (\<lambda>_. writeJSON 201 (json_Controller c))"
| "handler_answer (Heartbeat_ctrl cid hb) (Unit_result res) = answer_with res (\<lambda>_. writeJSON 200 (Some ok_object))"
| "handler_answer (List_ctrls flt) (Ctrls_result res) = answer_with res (\<lambda>cs. writeJSON 200 (json_listing json_Controller cs))"
| "handler_answer (List_evs flt) (Events_result res) = answer_with res (\<lambda>evs. writeJSON 200 (json_listing json_Event evs))"
| "handler_answer _ _ = []"

fun handler_of :: "('s, 'q) Service \<Rightarrow> endpoint \<Rightarrow> ('s \<times> 'q) handler" where
  "handler_of svc Create_VM_ep = h_createVM svc"
| "handler_of svc Get_VM_ep = h_getVM svc"
| "handler_of svc Stop_VM_ep = h_stopVM svc"
| "handler_of svc Delete_VM_ep = h_deleteVM svc"
| "handler_of svc Register_controller_ep = h_registerController svc"
| "handler_of svc Heartbeat_ep = h_heartbeat svc"
| "handler_of svc List_controllers_ep = h_listControllers svc"
| "handler_of svc List_events_ep = h_listEvents svc"
| "handler_of svc Healthz_ep = h_healthz"

text \<open>Which patterns \<^verbatim>\<open>NewHandler\<close> registers through the middleware.\<close>

definition wrapped :: "endpoint \<Rightarrow> bool" where
  "wrapped ep \<longleftrightarrow> ep \<in> {Create_VM_ep, Stop_VM_ep, Delete_VM_ep, Register_controller_ep}"

lemma registered_eq: "registered svc ep = (if wrapped ep then idem_wrap (handler_of svc ep) else unwrapped (handler_of svc ep))"
  by (cases ep) (simp_all add: wrapped_def)

lemma handler_of_eq:
  "handler_of svc ep r p w =
    (case handler_call ep r of
       Inl calls \<Rightarrow> (calls, p, w)
     | Inr call \<Rightarrow>
         let ((res, ev), p, w) = svc_begin svc call p w;
             (p, w) = (case ev of None \<Rightarrow> (p, w) | Some e \<Rightarrow> svc_append svc e p w)
         in (handler_answer call res, p, w))"
  by (cases ep)
    (auto simp: handler_defs answer_with_def svc_append_def Service_CreateVM_def Service_StopVM_def Service_DeleteVM_def
      apfst_def map_prod_def Let_def split: option.splits prod.splits sum.splits)

subsection \<open>The stages of a request\<close>

text \<open>
  A request that has just been received; one that is about to look its key up, or to evict the expired entry it
  found; one whose handler is about to call the service, or to append the event; one whose handler has
  written its response, one that is only to be logged, and one that is done. A key comes with the digest
  of the body.
\<close>

datatype stage =
  Received
| Looking time endpoint Request bytes
| Evicting time endpoint Request bytes
| Handling time "(string \<times> bytes) option" "writer_call list + service_call"
| Appending time "(string \<times> bytes) option" service_call svc_result Event
| Handled time "(string \<times> bytes) option" "writer_call list"
| Written time "writer_call list"
| Done "writer_call list"

definition enter :: "time \<Rightarrow> endpoint \<Rightarrow> Request \<Rightarrow> stage" where
  "enter start ep r =
    (if wrapped ep \<and> Header_Get ''Idempotency-Key'' r \<noteq> '''' then
       (case rq_Body r of
          Inl err \<Rightarrow> Written start (http_Error ''failed to read request body'' 400)
        | Inr body \<Rightarrow> Looking start ep r body)
     else Handling start None (handler_call ep r))"

definition execute :: "time \<Rightarrow> endpoint \<Rightarrow> Request \<Rightarrow> bytes \<Rightarrow> stage" where
  "execute start ep r body =
    Handling start (Some (Header_Get ''Idempotency-Key'' r, sha256_Sum256 body)) (handler_call ep (r\<lparr>rq_Body := Inr body\<rparr>))"

fun stage_step :: "('s, 'q) Service \<Rightarrow> Request \<Rightarrow> stage \<Rightarrow> ('s \<times> 'q) Handler \<Rightarrow> world \<Rightarrow> stage \<times> ('s \<times> 'q) Handler \<times> world" where
  "stage_step svc r Received h w =
    (let (start, w) = time_Now w
     in (case findHandler r of
           Route ep vs \<Rightarrow> enter start ep (r\<lparr>rq_PathValues := vs\<rparr>)
         | res \<Rightarrow> Written start (mux_answer r res), h, w))"
| "stage_step svc r (Looking start ep r' body) h w =
    (case idem_lookup (Header_Get ''Idempotency-Key'' r') (hd_idem h) of
       None \<Rightarrow> (execute start ep r' body, h, w)
     | Some entry \<Rightarrow>
         let (expired, w) = idem_expired entry w
         in (if expired then Evicting start ep r' body
             else if ie_requestHash entry \<noteq> sha256_Sum256 body
             then Written start (writeErrorMessage 409 ''conflict'' ''idempotency key reused with different request body'')
             else Written start (idem_replay entry), h, w))"
| "stage_step svc r (Evicting start ep r' body) h w =
    (execute start ep r' body, h\<lparr>hd_idem := idem_evict (Header_Get ''Idempotency-Key'' r') (hd_idem h)\<rparr>, w)"
| "stage_step svc r (Handling start k (Inl calls)) h w = (Handled start k calls, h, w)"
| "stage_step svc r (Handling start k (Inr call)) h w =
    (let ((res, ev), p, w) = svc_begin svc call (hd_prov h) w
     in (case ev of None \<Rightarrow> Handled start k (handler_answer call res) | Some e \<Rightarrow> Appending start k call res e,
         h\<lparr>hd_prov := p\<rparr>, w))"
| "stage_step svc r (Appending start k call res e) h w =
    (let (p, w) = svc_append svc e (hd_prov h) w
     in (Handled start k (handler_answer call res), h\<lparr>hd_prov := p\<rparr>, w))"
| "stage_step svc r (Handled start None calls) h w = (Written start calls, h, w)"
| "stage_step svc r (Handled start (Some (key, hash)) calls) h w =
    (let (rec, out) = record_calls responseRecorder_call calls new_responseRecorder;
         (i, w) = idem_store key hash rec (hd_idem h) w
     in (Written start out, h\<lparr>hd_idem := i\<rparr>, w))"
| "stage_step svc r (Written start calls) h w =
    (let (rec, out) = record_calls statusRecorder_call calls \<lparr>sr_statusCode = 200, sr_wroteHeader = False\<rparr>;
         (now, w) = time_Now w;
         line = \<lparr>ll_method = rq_Method r, ll_path = pathUnescape (rq_Path r), ll_status = sr_statusCode rec,
                 ll_micros = Microseconds (time_Sub now start)\<rparr>
     in (Done out, h\<lparr>hd_log := hd_log h @ [line]\<rparr>, w))"
| "stage_step svc r (Done out) h w = (Done out, h, w)"

text \<open>The server with its requests, and its steps: a request arrives, or one that is there goes on.\<close>

record ('s, 'q) site =
  si_handler :: "('s \<times> 'q) Handler"
  si_world :: world
  si_requests :: "(Request \<times> stage) list"

definition site_start :: "'s \<times> 'q \<Rightarrow> world \<Rightarrow> ('s, 'q) site" where
  "site_start p w = \<lparr>si_handler = NewHandler p, si_world = w, si_requests = []\<rparr>"

inductive http_step :: "('s, 'q) Service \<Rightarrow> ('s, 'q) site \<Rightarrow> ('s, 'q) site \<Rightarrow> bool" for svc where
  arrive: "http_step svc s (s\<lparr>si_requests := si_requests s @ [(r, Received)]\<rparr>)"
| work: "n < length (si_requests s) \<Longrightarrow> si_requests s ! n = (r, g) \<Longrightarrow>
    stage_step svc r g (si_handler s) (si_world s) = (g', h', w') \<Longrightarrow>
    http_step svc s (s\<lparr>si_handler := h', si_world := w', si_requests := (si_requests s)[n := (r, g')]\<rparr>)"

inductive_cases http_stepE: "http_step svc s s'"

abbreviation http_steps :: "('s, 'q) Service \<Rightarrow> ('s, 'q) site \<Rightarrow> ('s, 'q) site \<Rightarrow> bool" where
  "http_steps svc \<equiv> (http_step svc)\<^sup>*\<^sup>*"

subsection \<open>No request waits for another\<close>

fun stages_left :: "stage \<Rightarrow> nat" where
  "stages_left Received = 7"
| "stages_left (Looking start ep r body) = 6"
| "stages_left (Evicting start ep r body) = 5"
| "stages_left (Handling start k c) = 4"
| "stages_left (Appending start k call res e) = 3"
| "stages_left (Handled start k calls) = 2"
| "stages_left (Written start calls) = 1"
| "stages_left (Done out) = 0"

lemma stage_step_less: "stages_left (fst (stage_step svc r g h w)) \<le> stages_left g - 1"
proof (cases "(svc, r, g, h, w)" rule: stage_step.cases)
  case (1 svc r h w)
  then show ?thesis by (auto simp: enter_def Let_def split: prod.split mux_result.split sum.split)
qed (auto simp: execute_def Let_def split: prod.split option.split)

text \<open>The steps of one request in succession; it is done after seven, and further steps change nothing.\<close>

fun stage_run :: "('s, 'q) Service \<Rightarrow> Request \<Rightarrow> nat \<Rightarrow> stage \<Rightarrow> ('s \<times> 'q) Handler \<Rightarrow> world \<Rightarrow> stage \<times> ('s \<times> 'q) Handler \<times> world" where
  "stage_run svc r 0 g h w = (g, h, w)"
| "stage_run svc r (Suc n) g h w = (let (g, h, w) = stage_step svc r g h w in stage_run svc r n g h w)"

definition complete :: "('s, 'q) Service \<Rightarrow> Request \<Rightarrow> stage \<Rightarrow> ('s \<times> 'q) Handler \<Rightarrow> world \<Rightarrow> stage \<times> ('s \<times> 'q) Handler \<times> world" where
  "complete svc r g h w = stage_run svc r (stages_left g) g h w"

lemma stage_run_Done: "stage_run svc r n (Done out) h w = (Done out, h, w)"
  by (induction n) simp_all

lemma stages_left_0: "stages_left g = 0 \<Longrightarrow> \<exists>out. g = Done out"
  by (cases g) simp_all

lemma stage_run_enough:
  "stages_left g \<le> n \<Longrightarrow> stages_left g \<le> m \<Longrightarrow> stage_run svc r n g h w = stage_run svc r m g h w"
proof (induction n arbitrary: m g h w)
  case 0
  then show ?case using stages_left_0[of g] by (auto simp: stage_run_Done)
next
  case (Suc n)
  obtain g' h' w' where step: "stage_step svc r g h w = (g', h', w')" by (rule prod_cases3)
  have less: "stages_left g' \<le> stages_left g - 1" using stage_step_less[of svc r g h w] step by simp
  show ?case
  proof (cases m)
    case 0
    with Suc.prems(2) stages_left_0[of g] show ?thesis by (auto simp: stage_run_Done)
  next
    case m: (Suc k)
    with Suc.IH[of g' k] less Suc.prems show ?thesis by (simp add: step)
  qed
qed

lemma complete_step: "complete svc r g h w = (let (g', h', w') = stage_step svc r g h w in complete svc r g' h' w')"
proof -
  obtain g' h' w' where step: "stage_step svc r g h w = (g', h', w')" by (rule prod_cases3)
  have "stages_left g' \<le> stages_left g" using stage_step_less[of svc r g h w] step by simp
  moreover have "complete svc r g h w = stage_run svc r (Suc (stages_left g)) g h w"
    unfolding complete_def by (rule stage_run_enough) simp_all
  ultimately show ?thesis using stage_run_enough[of g' "stages_left g" "stages_left g'"] by (simp add: step complete_def)
qed

lemma complete_Done: "complete svc r (Done out) h w = (Done out, h, w)"
  by (simp add: complete_def)

text \<open>From the handler's call on, a request does what the handler does.\<close>

lemma complete_Handling:
  "complete svc r (Handling start k (handler_call ep r')) h w =
    (let (calls, p, w) = handler_of svc ep r' (hd_prov h) w in complete svc r (Handled start k calls) (h\<lparr>hd_prov := p\<rparr>) w)"
proof (cases "handler_call ep r'")
  case (Inl calls)
  then show ?thesis by (subst complete_step) (simp add: handler_of_eq)
next
  case (Inr call)
  obtain res ev p w1 where b: "svc_begin svc call (hd_prov h) w = ((res, ev), p, w1)" by (metis prod.exhaust)
  show ?thesis
  proof (cases ev)
    case None
    then show ?thesis by (subst complete_step) (simp add: handler_of_eq Inr b)
  next
    case (Some e)
    obtain p2 w2 where "svc_append svc e p w1 = (p2, w2)" by (metis prod.exhaust)
    then have "complete svc r (Appending start k call res e) (h\<lparr>hd_prov := p\<rparr>) w1 =
        complete svc r (Handled start k (handler_answer call res)) (h\<lparr>hd_prov := p2\<rparr>) w2"
      by (subst complete_step) simp
    with Some \<open>svc_append svc e p w1 = (p2, w2)\<close> show ?thesis by (subst complete_step) (simp add: handler_of_eq Inr b)
  qed
qed

lemma complete_Handled:
  "complete svc r (Handled start None calls) h w = complete svc r (Written start calls) h w"
  "complete svc r (Handled start (Some (key, hash)) calls) h w =
    (let (rec, out) = record_calls responseRecorder_call calls new_responseRecorder;
         (i, w) = idem_store key hash rec (hd_idem h) w
     in complete svc r (Written start out) (h\<lparr>hd_idem := i\<rparr>) w)"
  by (subst complete_step, simp add: Let_def split: prod.splits)+

lemma Handler_updates [simp]: "h\<lparr>hd_prov := p, hd_idem := i\<rparr> = h\<lparr>hd_idem := i, hd_prov := p\<rparr>" "h\<lparr>hd_idem := hd_idem h\<rparr> = h" "h\<lparr>hd_prov := hd_prov h\<rparr> = h"
  by (cases h; simp)+

text \<open>The middleware in stages is the middleware.\<close>

lemma complete_enter:
  "complete svc r (enter start ep r') h w =
    (let (calls, st, w) = registered svc ep r' (hd_idem h, hd_prov h) w
     in complete svc r (Written start calls) (h\<lparr>hd_idem := fst st, hd_prov := snd st\<rparr>) w)"
proof (cases "wrapped ep \<and> Header_Get ''Idempotency-Key'' r' \<noteq> ''''")
  case False
  then show ?thesis
    by (auto simp: enter_def registered_eq idem_wrap_def unwrapped_def complete_Handling complete_Handled Let_def split: prod.split)
next
  case True
  show ?thesis
  proof (cases "rq_Body r'")
    case (Inl err)
    with True show ?thesis by (simp add: enter_def registered_eq idem_wrap_def)
  next
    case (Inr body)
    let ?k = "Header_Get ''Idempotency-Key'' r'"
    have exec: "complete svc r (execute start ep r' body) h w =
        (let (calls, p, w) = handler_of svc ep (r'\<lparr>rq_Body := Inr body\<rparr>) (hd_prov h) w;
             (rec, out) = record_calls responseRecorder_call calls new_responseRecorder;
             (i, w) = idem_store ?k (sha256_Sum256 body) rec (hd_idem h) w
         in complete svc r (Written start out) (h\<lparr>hd_idem := i, hd_prov := p\<rparr>) w)" for h w
      by (simp add: execute_def complete_Handling complete_Handled Let_def split: prod.splits)
    have look: "complete svc r (enter start ep r') h w = complete svc r (Looking start ep r' body) h w"
      using True Inr by (simp add: enter_def)
    show ?thesis
    proof (cases "idem_lookup ?k (hd_idem h)")
      case None
      with True Inr show ?thesis unfolding look
        by (subst complete_step) (simp add: exec registered_eq idem_wrap_def idem_find_def Let_def split: prod.split)
    next
      case (Some e)
      obtain expired w1 where ex: "idem_expired e w = (expired, w1)" by (metis prod.exhaust)
      have evict: "complete svc r (Evicting start ep r' body) h w1 =
          complete svc r (execute start ep r' body) (h\<lparr>hd_idem := idem_evict ?k (hd_idem h)\<rparr>) w1"
        by (subst complete_step) simp
      show ?thesis unfolding look using True Inr Some ex
        by (subst complete_step) (auto simp: evict exec registered_eq idem_wrap_def idem_find_def Let_def split: prod.split)
    qed
  qed
qed

lemma complete_ServeHTTP:
  "complete svc r Received h w = (let (out, h', w') = ServeHTTP svc r h w in (Done out, h', w'))"
proof -
  have written: "complete svc r (Written start calls) h w =
      (let (rec, out) = record_calls statusRecorder_call calls \<lparr>sr_statusCode = 200, sr_wroteHeader = False\<rparr>;
           (now, w) = time_Now w
       in (Done out, h\<lparr>hd_log := hd_log h @ [\<lparr>ll_method = rq_Method r, ll_path = pathUnescape (rq_Path r),
             ll_status = sr_statusCode rec, ll_micros = Microseconds (time_Sub now start)\<rparr>]\<rparr>, w))" for start calls h w
    by (subst complete_step) (simp add: complete_Done Let_def split: prod.split)
  have handler: "h\<lparr>hd_idem := i, hd_prov := p, hd_log := l\<rparr> = \<lparr>hd_idem = i, hd_prov = p, hd_log = l\<rparr>" for i p l by simp
  show ?thesis
    by (subst complete_step)
      (auto simp: complete_enter written handler ServeHTTP_def mux_ServeHTTP_def Let_def split: prod.split mux_result.split)
qed

lemma stage_run_ServeHTTP:
  "stage_run svc r 7 Received h w = (case ServeHTTP svc r h w of (out, h', w') \<Rightarrow> (Done out, h', w'))"
proof -
  have "stage_run svc r 7 Received h w = complete svc r Received h w" by (simp only: complete_def stages_left.simps)
  then show ?thesis by (simp only: complete_ServeHTTP Let_def)
qed

subsection \<open>What the requests write\<close>

text \<open>Responses with a status that handlers give, and with one that the server gives.\<close>

definition handler_writes :: "writer_call list \<Rightarrow> bool" where
  "handler_writes calls \<longleftrightarrow> status_first calls \<and> status_of calls \<in> {200, 201, 202, 400, 404, 409}"

definition server_writes :: "writer_call list \<Rightarrow> bool" where
  "server_writes calls \<longleftrightarrow> status_first calls \<and> status_of calls \<in> {200, 201, 202, 301, 400, 404, 405, 409}"

fun stage_ok :: "stage \<Rightarrow> bool" where
  "stage_ok (Handling start k (Inl calls)) \<longleftrightarrow> handler_writes calls"
| "stage_ok (Appending start k call res e) \<longleftrightarrow> handler_writes (handler_answer call res)"
| "stage_ok (Handled start k calls) \<longleftrightarrow> handler_writes calls"
| "stage_ok (Written start calls) \<longleftrightarrow> server_writes calls"
| "stage_ok (Done out) \<longleftrightarrow> server_writes out"
| "stage_ok _ \<longleftrightarrow> True"

lemma handler_call_ok: "stage_ok (Handling start k (handler_call ep r))"
  by (cases ep) (auto simp: handler_writes_def Let_def split: option.split)

lemma enter_ok: "stage_ok (enter start ep r)"
  using handler_call_ok by (auto simp: enter_def server_writes_def split: sum.split)

lemma handler_writes_server: "handler_writes calls \<Longrightarrow> server_writes calls"
  by (auto simp: handler_writes_def server_writes_def)

text \<open>The store fails only with errors that are the client's.\<close>

lemma svc_begin_ok:
  assumes "svc_begin flames_service call p w = ((res, ev), p', w')"
  shows "handler_writes (handler_answer call res)"
proof -
  have err: "handler_writes (answer_with x f)" if "\<And>e. x = Inl e \<Longrightarrow> errorToStatus e \<in> {404, 409}" "\<And>y. handler_writes (f y)"
    for x :: "'x result" and f
    using that by (cases x) (auto simp: answer_with_def handler_writes_def)
  have empty: "handler_writes []" by (simp add: handler_writes_def status_of_def response_def no_response_def)
  have json: "handler_writes (writeJSON s j)" if "s \<in> {200, 201, 202}" for s j using that by (auto simp: handler_writes_def)
  show ?thesis
  proof (cases call)
    case (Create_VM spec)
    with assms obtain x where x: "res = Id_result x" "fst (memstate_CreateVM spec (fst p) w) = x"
      by (auto simp: flames_service_def on_state_def memstate_ops_def split: prod.splits)
    show ?thesis using x by (auto simp: Create_VM memstate_CreateVM_eq intro!: err json)
  next
    case (Stop_VM vid)
    with assms obtain x where x: "res = Unit_result x" "fst (memstate_UpdateVMDesiredState vid DesiredStopped (fst p) w) = x"
      by (auto simp: flames_service_def on_state_def memstate_ops_def split: prod.splits)
    show ?thesis using x
      by (auto simp: Stop_VM memstate_UpdateVMDesiredState_def split_beta Let_def split: option.splits intro!: err json)
  next
    case (Delete_VM vid)
    with assms obtain x where x: "res = Unit_result x" "fst (memstate_UpdateVMDesiredState vid DesiredDeleted (fst p) w) = x"
      by (auto simp: flames_service_def on_state_def memstate_ops_def split: prod.splits)
    show ?thesis using x
      by (auto simp: Delete_VM memstate_UpdateVMDesiredState_def split_beta Let_def split: option.splits intro!: err json)
  next
    case (Get_VM vid)
    with assms service_errors(2)[of vid p w] show ?thesis by (auto simp: apfst_def map_prod_def split: prod.splits intro!: err json)
  next
    case (Register_ctrl c)
    with assms service_errors(5)[of c p w] show ?thesis by (auto simp: apfst_def map_prod_def split: prod.splits intro!: err json)
  next
    case (Heartbeat_ctrl cid hb)
    with assms service_errors(6)[of cid hb p w] show ?thesis by (auto simp: apfst_def map_prod_def split: prod.splits intro!: err json)
  next
    case (List_ctrls flt)
    with assms obtain x where x: "res = Ctrls_result x" "Service_ListControllers flames_service flt p w = (x, p', w')"
      by (auto simp: apfst_def map_prod_def split: prod.splits)
    have "x \<noteq> Inl e" for e using x(2) service_errors(7) by blast
    then show ?thesis using x(1) List_ctrls by (auto intro!: err json)
  next
    case (List_evs flt)
    with assms obtain x where x: "res = Events_result x" "Service_ListEvents flames_service flt p w = (x, p', w')"
      by (auto simp: apfst_def map_prod_def split: prod.splits)
    have "x \<noteq> Inl e" for e using x(2) service_errors(8) by blast
    then show ?thesis using x(1) List_evs by (auto intro!: err json)
  qed (simp_all add: empty)
qed

text \<open>What a step writes to the log: the status of the answer, when the request gets done.\<close>

fun answered :: "stage \<Rightarrow> int list" where
  "answered (Done out) = [status_of out]"
| "answered g = []"

lemma answered_early [simp]: "answered (enter start ep r) = []" "answered (execute start ep r body) = []"
  by (auto simp: enter_def execute_def split: sum.split)

lemma execute_ok [simp]: "stage_ok (execute start ep r body)"
  unfolding execute_def by (rule handler_call_ok)

lemma mux_answer_writes: "findHandler r = res \<Longrightarrow> (\<And>ep vs. res \<noteq> Route ep vs) \<Longrightarrow> server_writes (mux_answer r res)"
  using status_first_mux[of flames_service r undefined undefined]
  by (cases res) (auto simp: server_writes_def mux_ServeHTTP_def mux_answer_def)

lemma looked_up_ok:
  assumes "codes_ok i" and "idem_lookup key i = Some e"
  shows "server_writes (idem_replay e)"
  using assms by (fastforce simp: codes_ok_def idem_lookup_def server_writes_def)

lemma codes_ok_upd:
  "codes_ok i \<Longrightarrow> ie_statusCode e \<in> {200, 201, 202, 400, 404, 409} \<Longrightarrow> codes_ok (i\<lparr>is_entries := (is_entries i)(k \<mapsto> e)\<rparr>)"
  "codes_ok i \<Longrightarrow> codes_ok (i\<lparr>is_entries := (is_entries i)(k := None)\<rparr>)"
  unfolding codes_ok_def by (simp_all del: insert_iff)

lemma stored_ok:
  assumes "codes_ok i" and "handler_writes calls" and rec: "record_calls responseRecorder_call calls new_responseRecorder = (rec, out)"
    and "idem_store key hash rec i w = (i', w')"
  shows "codes_ok i' \<and> server_writes out"
proof -
  from assms(2) have first: "status_first calls" and s: "status_of calls \<in> {200, 201, 202, 400, 404, 409}" by (simp_all add: handler_writes_def)
  have "status_first out" using status_first_record(1)[OF first rec] by (simp add: new_responseRecorder_def)
  moreover have "status_of out = status_of calls" using idem_recorded(1)[OF rec first] by (simp add: status_of_def)
  ultimately have "server_writes out" using s by (auto simp: server_writes_def)
  moreover obtain now where "i' = i\<lparr>is_entries := (is_entries i)(key \<mapsto>
      \<lparr>ie_requestHash = hash, ie_statusCode = status_of calls, ie_body = rr_body rec, ie_createdAt = now\<rparr>)\<rparr>"
    using assms(4) idem_recorded(3)[OF rec first] by (auto simp: idem_store_def time_Now_def)
  then have "codes_ok i'" using codes_ok_upd(1)[OF assms(1)] s by simp
  ultimately show ?thesis by blast
qed

lemma logged_ok:
  assumes "server_writes calls" and rec: "record_calls statusRecorder_call calls \<lparr>sr_statusCode = 200, sr_wroteHeader = False\<rparr> = (rec, out)"
  shows "server_writes out \<and> sr_statusCode rec = status_of out"
proof -
  from assms(1) have first: "status_first calls" by (simp add: server_writes_def)
  have "response out = response calls" unfolding response_def
    by (rule record_status[OF rec]) (simp add: no_response_def)
  then have "status_of out = status_of calls" by (simp add: status_of_def)
  moreover have "sr_statusCode rec = status_of calls"
    using recorded_code(2)[OF rec, of no_response] first by (simp add: no_response_def status_of_def response_def)
  moreover have "status_first out" using status_first_record(2)[OF first rec] by simp
  ultimately show ?thesis using assms(1) by (simp add: server_writes_def)
qed

lemma stage_step_ok:
  assumes step: "stage_step flames_service r g h w = (g', h', w')" and ok: "stage_ok g" and codes: "codes_ok (hd_idem h)"
  shows "stage_ok g' \<and> codes_ok (hd_idem h') \<and> (\<exists>logged. map ll_status (hd_log h') = map ll_status (hd_log h) @ logged \<and>
    answered g' = answered g @ logged)"
proof (cases g)
  case Received
  with step codes mux_answer_writes[of r] enter_ok show ?thesis by (auto simp: Let_def split: prod.splits mux_result.splits)
next
  case (Looking start ep r' body)
  have "server_writes (writeErrorMessage 409 c m)" for c m by (simp add: server_writes_def)
  with Looking step codes looked_up_ok[OF codes] show ?thesis by (auto simp: Let_def split: option.splits prod.splits if_splits)
next
  case (Evicting start ep r' body)
  with step codes show ?thesis by (auto simp: idem_evict_def codes_ok_upd)
next
  case (Handling start k c)
  then show ?thesis
  proof (cases c)
    case (Inl calls)
    with Handling step ok codes show ?thesis by auto
  next
    case (Inr call)
    obtain res ev p w1 where b: "svc_begin flames_service call (hd_prov h) w = ((res, ev), p, w1)" by (metis prod.exhaust)
    with Handling Inr step codes svc_begin_ok[OF b] show ?thesis by (auto split: option.splits)
  qed
next
  case (Appending start k call res e)
  with step ok codes show ?thesis by (auto split: prod.splits)
next
  case (Handled start k calls)
  then show ?thesis
  proof (cases k)
    case None
    with Handled step ok codes handler_writes_server show ?thesis by auto
  next
    case (Some kh)
    with Handled step ok stored_ok[OF codes] show ?thesis by (cases kh) (auto simp: Let_def split: prod.splits)
  qed
next
  case (Written start calls)
  obtain rec out where rec: "record_calls statusRecorder_call calls \<lparr>sr_statusCode = 200, sr_wroteHeader = False\<rparr> = (rec, out)"
    by (rule prod.exhaust)
  with Written step ok codes logged_ok[OF _ rec] show ?thesis by (auto simp: time_Now_def)
next
  case (Done out)
  with step ok codes show ?thesis by auto
qed

subsection \<open>What the log is worth\<close>

text \<open>Where a request is within the method of the service that it calls.\<close>

fun stage_task :: "stage \<Rightarrow> task" where
  "stage_task (Handling start k (Inr call)) = Start call"
| "stage_task (Appending start k call res e) = Append e"
| "stage_task _ = Returned"

definition tasks :: "(Request \<times> stage) list \<Rightarrow> task list" where
  "tasks rgs = map (\<lambda>(r, g). stage_task g) rgs"

lemma stage_task_early: "pending [stage_task (enter start ep r)] = []" "pending [stage_task (execute start ep r body)] = []"
  by (auto simp: enter_def execute_def split: sum.split) (cases "handler_call ep r" "handler_call ep (r\<lparr>rq_Body := Inr body\<rparr>)" rule: sum.exhaust[case_product sum.exhaust], simp_all)+

lemma stage_step_task:
  assumes "stage_step svc r g h w = (g', h', w')"
  shows "task_step svc (stage_task g) (hd_prov h) w = (stage_task g', hd_prov h', w') \<or>
    hd_prov h' = hd_prov h \<and> pending [stage_task g] = [] \<and> pending [stage_task g'] = []"
proof (cases g)
  case Received
  with assms stage_task_early show ?thesis by (auto simp: Let_def split: prod.splits mux_result.splits)
next
  case (Looking start ep r' body)
  with assms stage_task_early show ?thesis by (auto simp: Let_def split: option.splits prod.splits if_splits)
next
  case (Evicting start ep r' body)
  with assms stage_task_early show ?thesis by auto
next
  case (Handling start k c)
  show ?thesis
  proof (cases c)
    case (Inr call)
    obtain res ev p w1 where b: "svc_begin svc call (hd_prov h) w = ((res, ev), p, w1)" by (metis prod.exhaust)
    with svc_begin_task[OF b] Handling Inr assms show ?thesis by (auto simp: task_of_def split: option.splits)
  qed (use assms Handling in auto)
next
  case (Appending start k call res e)
  obtain p w1 where a: "svc_append svc e (hd_prov h) w = (p, w1)" by (rule prod.exhaust)
  with svc_append_task[OF a] Appending assms show ?thesis by auto
next
  case (Handled start k calls)
  with assms show ?thesis by (cases k) (auto simp: Let_def split: prod.splits)
next
  case (Written start calls)
  with assms show ?thesis by (auto simp: Let_def split: prod.splits)
qed (use assms in auto)

lemma explains_pending:
  assumes "explains changes v ts" and "n < length ts" "pending [ts ! n] = []" "pending [t] = []"
  shows "explains changes v (ts[n := t])"
  using assms pending_update[OF assms(2), of t] by (simp add: explains_def)

lemma stage_step_explains:
  assumes step: "stage_step flames_service r g h w = (g', h', w')" and n: "n < length ts" "ts ! n = stage_task g"
    and inv: "memstate_inv (fst (hd_prov h))" and ex: "explains changes (memstate_view (fst (hd_prov h))) ts"
  shows "memstate_inv (fst (hd_prov h')) \<and> snd (hd_prov h') = snd (hd_prov h) \<and>
    (\<exists>changes. explains changes (memstate_view (fst (hd_prov h'))) (ts[n := stage_task g']))"
  using stage_step_task[OF step]
proof
  assume "task_step flames_service (stage_task g) (hd_prov h) w = (stage_task g', hd_prov h', w')"
  with n have "svc_step flames_service (hd_prov h, w, ts) (hd_prov h', w', ts[n := stage_task g'])" by (auto intro: advance)
  from memstate.svc_step_explains[OF this[unfolded flames_service_def] inv ex] show ?thesis .
next
  assume "hd_prov h' = hd_prov h \<and> pending [stage_task g] = [] \<and> pending [stage_task g'] = []"
  with explains_pending[OF ex n(1), of "stage_task g'"] n(2) inv show ?thesis by auto
qed

subsection \<open>The invariant of the site\<close>

definition statuses :: "(Request \<times> stage) list \<Rightarrow> int list" where
  "statuses rgs = concat (map (\<lambda>(r, g). answered g) rgs)"

definition site_inv :: "memqueue \<Rightarrow> (memstate, memqueue) site \<Rightarrow> bool" where
  "site_inv q s \<longleftrightarrow>
     memstate_inv (fst (hd_prov (si_handler s))) \<and> snd (hd_prov (si_handler s)) = q \<and>
     (\<exists>changes. explains changes (memstate_view (fst (hd_prov (si_handler s)))) (tasks (si_requests s))) \<and>
     codes_ok (hd_idem (si_handler s)) \<and> list_all (\<lambda>(r, g). stage_ok g) (si_requests s) \<and>
     mset (map ll_status (hd_log (si_handler s))) = mset (statuses (si_requests s))"

lemma tasks_snoc: "tasks (rgs @ [(r, Received)]) = tasks rgs @ [Returned]" "tasks (rgs[n := (r, g)]) = (tasks rgs)[n := stage_task g]"
  by (simp_all add: tasks_def map_update)

lemma explains_arrive: "explains changes v ts \<Longrightarrow> explains changes v (ts @ [Returned])"
proof -
  have "pending (ts @ [Returned]) = pending ts" by (induction ts rule: pending.induct) simp_all
  then show "explains changes v ts \<Longrightarrow> ?thesis" by (simp add: explains_def)
qed

lemma statuses_update:
  "n < length rgs \<Longrightarrow> rgs ! n = (r, g) \<Longrightarrow> answered g' = answered g @ logged \<Longrightarrow>
    mset (statuses (rgs[n := (r, g')])) = mset (statuses rgs) + mset logged"
proof (induction rgs arbitrary: n)
  case (Cons rg rgs)
  then show ?case by (cases n) (auto simp: statuses_def)
qed simp

lemma site_inv_start: "site_inv q (site_start (memstate_New, q) w)"
  by (simp add: site_inv_def site_start_def NewHandler_def memstate_inv_New tasks_def statuses_def codes_ok_def
      newIdempotencyStore_def explains_def replay_def memstate_view_def) (simp add: memstate_New_def)

lemma site_inv_step:
  assumes "http_step flames_service s s'" and inv: "site_inv q s"
  shows "site_inv q s'"
  using assms(1)
proof cases
  case (arrive r)
  with inv explains_arrive show ?thesis by (fastforce simp: site_inv_def tasks_snoc statuses_def)
next
  case (work n r g g' h' w')
  let ?h = "si_handler s" and ?rgs = "si_requests s"
  from inv obtain changes where i: "memstate_inv (fst (hd_prov ?h))" "snd (hd_prov ?h) = q" "codes_ok (hd_idem ?h)"
    and ex: "explains changes (memstate_view (fst (hd_prov ?h))) (tasks ?rgs)"
    and ok: "list_all (\<lambda>(r, g). stage_ok g) ?rgs" and log: "mset (map ll_status (hd_log ?h)) = mset (statuses ?rgs)"
    by (auto simp: site_inv_def)
  have t: "n < length (tasks ?rgs)" "tasks ?rgs ! n = stage_task g" using work(2,3) by (simp_all add: tasks_def)
  have g: "stage_ok g" using ok work(2,3) by (metis (mono_tags, lifting) case_prod_conv list_all_length)
  from stage_step_ok[OF work(4) g i(3)] obtain logged where
    s: "stage_ok g'" "codes_ok (hd_idem h')" "map ll_status (hd_log h') = map ll_status (hd_log ?h) @ logged"
    "answered g' = answered g @ logged" by blast
  have "list_all (\<lambda>(r, g). stage_ok g) (?rgs[n := (r, g')])"
    using ok s(1) by (auto simp: list_all_iff dest!: set_update_subset_insert[THEN subsetD])
  with stage_step_explains[OF work(4) t i(1) ex] s i(2) log statuses_update[OF work(2,3) s(4)] work(1) show ?thesis
    by (simp add: site_inv_def tasks_snoc)
qed

lemma site_inv_steps: "http_steps flames_service s s' \<Longrightarrow> site_inv q s \<Longrightarrow> site_inv q s'"
  by (induction rule: rtranclp_induct) (auto intro: site_inv_step)

subsection \<open>Properties\<close>



text \<open>
  C12: However the requests of any number of clients interleave, at every critical section of the server: no request
  is answered with a server error; the access log has exactly the statuses of the answers; no job is
  queued; and the event log accounts for every change of a desired state: there is an order of the changes
  whose replay gives the desired state of every VM, and the changes are, as often as they occur, the events
  in the log and those that requests in progress have still to append. So the desired state of every VM is
  the decision of an event that is in the log or about to be.
\<close>

theorem http_interleaved:
  assumes "http_steps flames_service (site_start (memstate_New, q) w) s"
  shows "(\<forall>(r, g)\<in>set (si_requests s). \<forall>out. g = Done out \<longrightarrow> status_of out \<in> {200, 201, 202, 301, 400, 404, 405, 409}) \<and>
    mset (map ll_status (hd_log (si_handler s))) = mset (statuses (si_requests s)) \<and>
    snd (hd_prov (si_handler s)) = q \<and>
    (\<exists>changes. explains changes (memstate_view (fst (hd_prov (si_handler s)))) (tasks (si_requests s))) \<and>
    (\<forall>vid vm. ms_vms (fst (hd_prov (si_handler s))) vid = Some vm \<longrightarrow>
      (\<exists>e\<in>set (ms_events (fst (hd_prov (si_handler s)))) \<union> set (pending (tasks (si_requests s))).
        ev_VMID e = vid \<and> replay_event vid e None = Some (vm_DesiredState vm)))"
proof -
  from site_inv_steps[OF assms site_inv_start] have inv: "site_inv q s" .
  then obtain changes where ex: "explains changes (memstate_view (fst (hd_prov (si_handler s)))) (tasks (si_requests s))"
    by (auto simp: site_inv_def)
  from inv have "\<forall>(r, g)\<in>set (si_requests s). stage_ok g" by (simp add: site_inv_def list_all_iff)
  then have "\<forall>(r, g)\<in>set (si_requests s). \<forall>out. g = Done out \<longrightarrow> status_of out \<in> {200, 201, 202, 301, 400, 404, 405, 409}"
    by (fastforce simp: server_writes_def)
  with inv ex explains_logged[OF ex] show ?thesis by (auto simp: site_inv_def)
qed

text \<open>A request that comes alone, as a run of the site.\<close>

lemma stage_run_steps:
  "si_requests s ! n = (r, g) \<Longrightarrow> n < length (si_requests s) \<Longrightarrow> stage_run svc r k g (si_handler s) (si_world s) = (g', h', w') \<Longrightarrow>
    http_steps svc s (s\<lparr>si_handler := h', si_world := w', si_requests := (si_requests s)[n := (r, g')]\<rparr>)"
proof (induction k arbitrary: s g)
  case 0
  then have "s\<lparr>si_handler := h', si_world := w', si_requests := (si_requests s)[n := (r, g')]\<rparr> = s" by (cases s) (auto simp: list_update_same_conv)
  then show ?case by simp
next
  case (Suc k)
  obtain g1 h1 w1 where step: "stage_step svc r g (si_handler s) (si_world s) = (g1, h1, w1)" by (rule prod_cases3)
  let ?s = "s\<lparr>si_handler := h1, si_world := w1, si_requests := (si_requests s)[n := (r, g1)]\<rparr>"
  have "http_step svc s ?s" using work[OF Suc.prems(2,1) step] .
  moreover have "http_steps svc ?s (?s\<lparr>si_handler := h', si_world := w', si_requests := (si_requests ?s)[n := (r, g')]\<rparr>)"
    by (rule Suc.IH[of _ g1]) (use Suc.prems step in simp_all)
  ultimately show ?case by (simp add: converse_rtranclp_into_rtranclp)
qed

theorem http_interleaved_witness:
  "\<exists>s out. http_steps flames_service (site_start (memstate_New, memqueue_New) (clock_world (sconst 5))) s \<and>
     si_requests s = [(get_request [''healthz''], Done out)] \<and> status_of out \<in> {200, 201, 202, 301, 400, 404, 405, 409} \<and>
     length (hd_log (si_handler s)) = 1"
proof -
  let ?r = "get_request [''healthz'']" and ?s = "site_start (memstate_New, memqueue_New) (clock_world (sconst 5))"
  let ?s1 = "?s\<lparr>si_requests := si_requests ?s @ [(?r, Received)]\<rparr>"
  have none: "si_requests ?s = []" by (simp add: site_start_def)
  have one: "http_step flames_service ?s ?s1" by (rule arrive)
  obtain out h' w' where "ServeHTTP flames_service ?r (si_handler ?s1) (si_world ?s1) = (out, h', w')" by (rule prod_cases3)
  then have "stage_run flames_service ?r 7 Received (si_handler ?s1) (si_world ?s1) = (Done out, h', w')"
    by (simp only: stage_run_ServeHTTP prod.case)
  from stage_run_steps[OF _ _ this, of 0] have "http_steps flames_service ?s1
      (?s1\<lparr>si_handler := h', si_world := w', si_requests := (si_requests ?s1)[0 := (?r, Done out)]\<rparr>)" by (simp add: none)
  from converse_rtranclp_into_rtranclp[OF one this] obtain s where
    run: "http_steps flames_service ?s s" and s: "si_requests s = [(?r, Done out)]" by (simp only: none) auto
  from http_interleaved[OF run] have status: "status_of out \<in> {200, 201, 202, 301, 400, 404, 405, 409}"
    and "mset (map ll_status (hd_log (si_handler s))) = mset (statuses (si_requests s))" using s by auto
  then have "size (mset (map ll_status (hd_log (si_handler s)))) = 1" by (simp add: s statuses_def)
  with run s status show ?thesis by (intro exI[of _ s] exI[of _ out]) simp
qed

end
