(* ===== verification/Server_Main.thy ===== *)
theory Server_Main
  imports Http_Concurrent
begin

text \<open>
  \<^verbatim>\<open>src/cmd/flames-api/main.go\<close>: the server process. It has three kinds of goroutines: the main one, which parses
  the flags, starts the server and ends the process when \<^verbatim>\<open>ListenAndServe\<close> returns; the one that waits for
  \<^verbatim>\<open>SIGINT\<close> or \<^verbatim>\<open>SIGTERM\<close> and then calls \<^verbatim>\<open>Shutdown\<close>; and one per request. They are the steps of a relation; the
  environment decides when requests and signals arrive and whether the address can be bound. Of
  \<^verbatim>\<open>http.Server\<close> the model has what the code relies on: \<^verbatim>\<open>Shutdown\<close> closes the listener, which makes
  \<^verbatim>\<open>ListenAndServe\<close> return \<^verbatim>\<open>ErrServerClosed\<close> at once, and itself returns when no request is active or when
  its context has timed out; a process that ends takes all its goroutines with it. A request is handled
  stage by stage, as in \<open>Http_Concurrent\<close>, so that requests interleave with each other and with the shutdown.
\<close>

subsection \<open>The flags\<close>

text \<open>
  \<^verbatim>\<open>flag.Parse\<close> with the one string flag \<^verbatim>\<open>addr\<close>: \<^verbatim>\<open>-addr v\<close>, \<^verbatim>\<open>-addr=v\<close>, with one dash or two; the first argument that is
  no flag, or \<^verbatim>\<open>--\<close>, ends the flags. A request for help ends the process with status 0, an error with 2.
\<close>

function flag_Parse :: "string \<Rightarrow> string list \<Rightarrow> nat + string" where
  "flag_Parse addr [] = Inr addr"
| "flag_Parse addr (s # args) =
    (if length s < 2 \<or> hd s \<noteq> CHR ''-'' \<or> s = ''--'' then Inr addr
     else
       let name = (if s ! 1 = CHR ''-'' then drop 2 s else drop 1 s)
       in if name = [] \<or> hd name = CHR ''-'' \<or> hd name = CHR ''='' then Inl 2
          else
            let key = takeWhile (\<lambda>c. c \<noteq> CHR ''='') name;
                rest = dropWhile (\<lambda>c. c \<noteq> CHR ''='') name
            in if key = ''addr'' then
                 (if rest \<noteq> [] then flag_Parse (tl rest) args
                  else case args of [] \<Rightarrow> Inl 2 | v # args \<Rightarrow> flag_Parse v args)
               else if key = ''help'' \<or> key = ''h'' then Inl 0
               else Inl 2)"
  by pat_completeness auto
termination by (relation "measure (\<lambda>(addr, args). length args)") auto

subsection \<open>The process\<close>

datatype exit = Exit nat | Killed

datatype main_at = Begin | Announce | Listen | Serving | Exited exit

text \<open>The signal goroutine: not started, started, after \<^verbatim>\<open>signal.Notify\<close>, after the signal, in \<^verbatim>\<open>Shutdown\<close>, at its end.\<close>

datatype signal_at = Unborn | Spawned | Waiting | Signalled | Shutting | Finished

record process =
  pr_main :: main_at
  pr_signal :: signal_at
  pr_addr :: string
  pr_closed :: bool
  pr_site :: "(memstate, memqueue) site"
  pr_printed :: "string list"

text \<open>The server on the providers that \<^verbatim>\<open>main\<close> makes, and a process that has not yet run.\<close>

abbreviation main_site :: "world \<Rightarrow> (memstate, memqueue) site" where
  "main_site w \<equiv> site_start (memstate_New, memqueue_New) w"

definition process_start :: "world \<Rightarrow> process" where
  "process_start w = \<lparr>pr_main = Begin, pr_signal = Unborn, pr_addr = '''', pr_closed = False,
     pr_site = main_site w, pr_printed = []\<rparr>"

fun running :: "main_at \<Rightarrow> bool" where
  "running (Exited e) = False"
| "running _ = True"

definition all_done :: "(Request \<times> stage) list \<Rightarrow> bool" where
  "all_done rgs \<longleftrightarrow> list_all (\<lambda>(r, g). stages_left g = 0) rgs"

inductive main_step :: "string list \<Rightarrow> process \<Rightarrow> process \<Rightarrow> bool" for args where
  flags_exit: "pr_main p = Begin \<Longrightarrow> flag_Parse '':8080'' args = Inl status \<Longrightarrow>
    main_step args p (p\<lparr>pr_main := Exited (Exit status)\<rparr>)"
| set_up: "pr_main p = Begin \<Longrightarrow> flag_Parse '':8080'' args = Inr addr \<Longrightarrow>
    main_step args p (p\<lparr>pr_main := Announce, pr_addr := addr, pr_signal := Spawned,
      pr_site := main_site (si_world (pr_site p))\<rparr>)"
| announce: "pr_main p = Announce \<Longrightarrow>
    main_step args p (p\<lparr>pr_main := Listen, pr_printed := pr_printed p @ [''listening on '' @ pr_addr p]\<rparr>)"
| listen: "pr_main p = Listen \<Longrightarrow> \<not> pr_closed p \<Longrightarrow> main_step args p (p\<lparr>pr_main := Serving\<rparr>)"
| fatal: "pr_main p = Listen \<or> pr_main p = Serving \<Longrightarrow> \<not> pr_closed p \<Longrightarrow>
    main_step args p (p\<lparr>pr_main := Exited (Exit 1), pr_printed := pr_printed p @ [err]\<rparr>)"
| closed: "pr_main p = Listen \<or> pr_main p = Serving \<Longrightarrow> pr_closed p \<Longrightarrow>
    main_step args p (p\<lparr>pr_main := Exited (Exit 0)\<rparr>)"
| accept: "pr_main p = Serving \<Longrightarrow> \<not> pr_closed p \<Longrightarrow>
    main_step args p (p\<lparr>pr_site := (pr_site p)\<lparr>si_requests := si_requests (pr_site p) @ [(r, Received)]\<rparr>\<rparr>)"
| serve: "running (pr_main p) \<Longrightarrow> n < length (si_requests (pr_site p)) \<Longrightarrow> si_requests (pr_site p) ! n = (r, g) \<Longrightarrow>
    0 < stages_left g \<Longrightarrow> stage_step flames_service r g (si_handler (pr_site p)) (si_world (pr_site p)) = (g', h', w') \<Longrightarrow>
    main_step args p (p\<lparr>pr_site := (pr_site p)\<lparr>si_handler := h', si_world := w',
      si_requests := (si_requests (pr_site p))[n := (r, g')]\<rparr>\<rparr>)"
| notify: "running (pr_main p) \<Longrightarrow> pr_signal p = Spawned \<Longrightarrow> main_step args p (p\<lparr>pr_signal := Waiting\<rparr>)"
| killed: "running (pr_main p) \<Longrightarrow> pr_signal p = Unborn \<or> pr_signal p = Spawned \<Longrightarrow>
    main_step args p (p\<lparr>pr_main := Exited Killed\<rparr>)"
| signal: "running (pr_main p) \<Longrightarrow> pr_signal p = Waiting \<Longrightarrow>
    main_step args p (p\<lparr>pr_signal := Signalled, pr_printed := pr_printed p @ [''shutting down...'']\<rparr>)"
| shutdown: "running (pr_main p) \<Longrightarrow> pr_signal p = Signalled \<Longrightarrow>
    main_step args p (p\<lparr>pr_signal := Shutting, pr_closed := True\<rparr>)"
| drained: "running (pr_main p) \<Longrightarrow> pr_signal p = Shutting \<Longrightarrow> all_done (si_requests (pr_site p)) \<Longrightarrow>
    main_step args p (p\<lparr>pr_signal := Finished\<rparr>)"
| timed_out: "running (pr_main p) \<Longrightarrow> pr_signal p = Shutting \<Longrightarrow> main_step args p (p\<lparr>pr_signal := Finished\<rparr>)"

inductive_cases main_stepE: "main_step args p p'"

abbreviation main_steps :: "string list \<Rightarrow> process \<Rightarrow> process \<Rightarrow> bool" where
  "main_steps args \<equiv> (main_step args)\<^sup>*\<^sup>*"

subsection \<open>Every reachable state\<close>

text \<open>
  What holds whenever the process runs \<open>args\<close> from world \<open>w\<close>: its handler and requests are those of a run of the
  concurrent server; the listener is closed exactly when \<^verbatim>\<open>Shutdown\<close> has been called.
\<close>

definition served_inv :: "world \<Rightarrow> process \<Rightarrow> bool" where
  "served_inv w p \<longleftrightarrow> http_steps flames_service (main_site w) (pr_site p) \<and> (pr_main p = Begin \<longrightarrow> pr_site p = main_site w)"

definition phase_inv :: "string list \<Rightarrow> process \<Rightarrow> bool" where
  "phase_inv args p \<longleftrightarrow>
     (pr_main p = Begin \<longrightarrow> pr_signal p = Unborn) \<and>
     (pr_signal p = Unborn \<longrightarrow> pr_main p = Begin \<or> \<not> running (pr_main p)) \<and>
     (pr_closed p \<longleftrightarrow> pr_signal p = Shutting \<or> pr_signal p = Finished) \<and>
     (pr_signal p = Signalled \<or> pr_closed p \<longrightarrow> ''shutting down...'' \<in> set (pr_printed p)) \<and>
     (pr_main p = Exited (Exit 0) \<longrightarrow> pr_closed p \<or> flag_Parse '':8080'' args = Inl 0) \<and>
     (pr_closed p \<longrightarrow> running (pr_main p) \<or> pr_main p = Exited (Exit 0))"

lemma served_inv_start: "served_inv w (process_start w)"
  by (simp add: served_inv_def process_start_def)

lemma phase_inv_start: "phase_inv args (process_start w)"
  by (simp add: phase_inv_def process_start_def)

lemma served_inv_step:
  assumes "main_step args p p'" and inv: "served_inv w p"
  shows "served_inv w p'"
  using assms(1)
proof cases
  case (accept r)
  have "http_step flames_service (pr_site p) ((pr_site p)\<lparr>si_requests := si_requests (pr_site p) @ [(r, Received)]\<rparr>)"
    by (rule http_step.arrive)
  with inv accept show ?thesis by (auto simp: served_inv_def intro: rtranclp.rtrancl_into_rtrancl)
next
  case (serve n r g g' h' w')
  with inv http_step.work[OF serve(3,4,6)] show ?thesis
    by (cases "pr_main p") (auto simp: served_inv_def site_start_def intro: rtranclp.rtrancl_into_rtrancl)
qed (use inv in \<open>auto simp: served_inv_def site_start_def\<close>)

lemma phase_inv_step: "main_step args p p' \<Longrightarrow> phase_inv args p \<Longrightarrow> phase_inv args p'"
  by (erule main_stepE) (auto simp: phase_inv_def)

lemma process_inv:
  assumes "main_steps args (process_start w) p"
  shows "served_inv w p" "phase_inv args p"
  using assms
  by (induction rule: rtranclp_induct)
    (auto intro: served_inv_start served_inv_step phase_inv_start phase_inv_step)

text \<open>Two runs: to a process with an accepted request, and on to one that is shutting down.\<close>

lemma accepted:
  "\<exists>p. main_steps [] (process_start w) p \<and> pr_main p = Serving \<and> \<not> pr_closed p \<and> pr_signal p = Waiting \<and>
     pr_site p = (main_site w)\<lparr>si_requests := [(r, Received)]\<rparr>"
proof -
  define p1 where "p1 = (process_start w)\<lparr>pr_main := Announce, pr_addr := '':8080'', pr_signal := Spawned\<rparr>"
  define p2 where "p2 = p1\<lparr>pr_main := Listen, pr_printed := [''listening on :8080'']\<rparr>"
  define p3 where "p3 = p2\<lparr>pr_main := Serving\<rparr>"
  define p4 where "p4 = p3\<lparr>pr_site := (main_site w)\<lparr>si_requests := [(r, Received)]\<rparr>\<rparr>"
  define p5 where "p5 = p4\<lparr>pr_signal := Waiting\<rparr>"
  note defs = p1_def p2_def p3_def p4_def p5_def process_start_def site_start_def
  have "main_step [] (process_start w) p1"
    using set_up[of "process_start w" "[]" "'':8080''"] by (simp add: defs)
  moreover have "main_step [] p1 p2" using announce[of p1 "[]"] by (simp add: defs)
  moreover have "main_step [] p2 p3" using listen[of p2 "[]"] by (simp add: defs)
  moreover have "main_step [] p3 p4" using accept[of p3 "[]" r] by (simp add: defs)
  moreover have "main_step [] p4 p5" using notify[of p4 "[]"] by (simp add: defs)
  ultimately have "main_steps [] (process_start w) p5" by (meson converse_rtranclp_into_rtranclp rtranclp.rtrancl_refl)
  then show ?thesis by (intro exI[of _ p5]) (simp add: defs)
qed

lemma shutting_down:
  "\<exists>p. main_steps [] (process_start w) p \<and> pr_main p = Serving \<and> pr_closed p \<and> pr_signal p = Shutting \<and>
     pr_site p = (main_site w)\<lparr>si_requests := [(r, Received)]\<rparr>"
proof -
  from accepted[of w r] obtain p where run: "main_steps [] (process_start w) p" and p: "pr_main p = Serving"
    "pr_signal p = Waiting" "pr_site p = (main_site w)\<lparr>si_requests := [(r, Received)]\<rparr>" by blast
  let ?p1 = "p\<lparr>pr_signal := Signalled, pr_printed := pr_printed p @ [''shutting down...'']\<rparr>"
  let ?p2 = "?p1\<lparr>pr_signal := Shutting, pr_closed := True\<rparr>"
  have "main_step [] p ?p1" "main_step [] ?p1 ?p2" using p by (intro signal shutdown; simp)+
  with run have "main_steps [] (process_start w) ?p2" by (meson rtranclp.rtrancl_into_rtrancl)
  with p show ?thesis by (intro exI[of _ ?p2]) simp
qed

text \<open>A world for concrete runs.\<close>

abbreviation ticks :: world where "ticks \<equiv> clock_world (sconst 5)"

subsection \<open>Properties\<close>

text \<open>
  C14: Whatever requests and signals come and however the goroutines are scheduled, the process serves as the
  concurrent server on new in-memory providers does: its handler and its requests are those of a run of
  it. So no request is answered with a server error, the access log has exactly the statuses of the answers,
  no job is queued, and the event log, with the events about to be appended, accounts for all desired states.
  The process ends with status 0 only after a shutdown was announced or when help was asked for.
\<close>

theorem main_serves:
  assumes "main_steps args (process_start w) p"
  shows "http_steps flames_service (main_site w) (pr_site p) \<and>
    (\<forall>(r, g)\<in>set (si_requests (pr_site p)). \<forall>out. g = Done out \<longrightarrow> status_of out < 500) \<and>
    mset (map ll_status (hd_log (si_handler (pr_site p)))) = mset (statuses (si_requests (pr_site p))) \<and>
    snd (hd_prov (si_handler (pr_site p))) = memqueue_New \<and>
    (\<exists>changes. explains changes (memstate_view (fst (hd_prov (si_handler (pr_site p))))) (tasks (si_requests (pr_site p)))) \<and>
    (pr_main p = Exited (Exit 0) \<longrightarrow>
      ''shutting down...'' \<in> set (pr_printed p) \<or> flag_Parse '':8080'' args = Inl 0)"
proof -
  note inv = process_inv[OF assms]
  from inv(1) have run: "http_steps flames_service (main_site w) (pr_site p)" by (simp add: served_inv_def)
  from site_inv_steps[OF run site_inv_start] have site: "site_inv memqueue_New (pr_site p)" .
  then have "\<forall>(r, g)\<in>set (si_requests (pr_site p)). stage_ok g" by (simp add: site_inv_def list_all_iff)
  then have "\<forall>(r, g)\<in>set (si_requests (pr_site p)). \<forall>out. g = Done out \<longrightarrow> status_of out < 500"
    by (fastforce simp: server_writes_def)
  with run site inv(2) show ?thesis by (auto simp: site_inv_def phase_inv_def)
qed

text \<open>How many steps a process that is shutting down can still take.\<close>

definition work_left :: "(Request \<times> stage) list \<Rightarrow> nat" where
  "work_left rgs = sum_list (map (\<lambda>(r, g). stages_left g) rgs)"

definition steps_left :: "process \<Rightarrow> nat" where
  "steps_left p = work_left (si_requests (pr_site p)) + (if pr_signal p = Shutting then 1 else 0) +
     (case pr_main p of Announce \<Rightarrow> 2 | Exited e \<Rightarrow> 0 | _ \<Rightarrow> 1)"

lemma work_left_update:
  "n < length rgs \<Longrightarrow> rgs ! n = (r, g) \<Longrightarrow> stages_left g' < stages_left g \<Longrightarrow> work_left (rgs[n := (r, g')]) < work_left rgs"
proof (induction rgs arbitrary: n)
  case (Cons rg rgs)
  then show ?case by (cases n) (auto simp: work_left_def)
qed simp

lemma closed_step:
  assumes "main_step args p p'" and "phase_inv args p" and "pr_closed p"
  shows "steps_left p' < steps_left p \<and> pr_closed p'"
  using assms(1)
proof cases
  case (serve n r g g' h' w')
  have "stages_left g' < stages_left g"
    using stage_step_less[of flames_service r g "si_handler (pr_site p)" "si_world (pr_site p)"] serve(5,6) by simp
  with assms(3) serve work_left_update[OF serve(3,4)] show ?thesis by (simp add: steps_left_def)
qed (use assms(2,3) in \<open>auto simp: phase_inv_def steps_left_def split: main_at.splits\<close>)

lemma closed_steps:
  "(main_step args ^^ n) p p' \<Longrightarrow> phase_inv args p \<Longrightarrow> pr_closed p \<Longrightarrow>
    n + steps_left p' \<le> steps_left p \<and> phase_inv args p' \<and> pr_closed p'"
proof (induction n arbitrary: p)
  case (Suc n)
  from relpowp_Suc_D2[OF Suc.prems(1)] obtain q where q: "main_step args p q" "(main_step args ^^ n) q p'" by blast
  from Suc.IH[OF q(2) phase_inv_step[OF q(1) Suc.prems(2)]] closed_step[OF q(1) Suc.prems(2,3)] show ?case by auto
qed auto

text \<open>
  C15: A process that has begun to shut down ends: whatever happens, it takes at most three more steps besides
  the steps that its requests have left, seven for each at most; it is never stuck before it has ended, and
  it ends with status 0.
\<close>

theorem main_terminates:
  assumes "main_steps args (process_start w) p" and "pr_closed p" and "(main_step args ^^ n) p p'"
  shows "n \<le> work_left (si_requests (pr_site p)) + 3 \<and>
    (if running (pr_main p') then \<exists>q. main_step args p' q else pr_main p' = Exited (Exit 0))"
proof -
  note inv = process_inv(2)[OF assms(1)]
  from closed_steps[OF assms(3) inv assms(2)] have n: "n + steps_left p' \<le> steps_left p"
    and p': "phase_inv args p'" "pr_closed p'" by simp_all
  have "steps_left p \<le> work_left (si_requests (pr_site p)) + 3" by (simp add: steps_left_def split: main_at.splits)
  moreover have "\<exists>q. main_step args p' q" if "running (pr_main p')"
  proof (cases "pr_main p'")
    case Begin
    with p' show ?thesis by (auto simp: phase_inv_def)
  next
    case Announce
    then show ?thesis by (blast intro: announce)
  qed (use p' that in \<open>auto intro: closed\<close>)
  moreover have "pr_main p' = Exited (Exit 0)" if "\<not> running (pr_main p')"
    using p' that by (simp add: phase_inv_def)
  ultimately show ?thesis using n by auto
qed

text \<open>
  C28: The shutdown is not graceful: for every request there is a run in which it is accepted, a signal then
  arrives, and the process ends with status 0 while \<^verbatim>\<open>Shutdown\<close> still waits for the request, which is never
  answered. The main goroutine does not wait for \<^verbatim>\<open>Shutdown\<close> to return.
\<close>

theorem main_drops_requests:
  "\<exists>p. main_steps [] (process_start w) p \<and> pr_main p = Exited (Exit 0) \<and> pr_signal p = Shutting \<and>
     si_requests (pr_site p) = [(r, Received)] \<and> (\<forall>q. \<not> main_step [] p q)"
proof -
  from shutting_down[of w r] obtain p where run: "main_steps [] (process_start w) p" and p: "pr_main p = Serving"
    "pr_closed p" "pr_signal p = Shutting" "si_requests (pr_site p) = [(r, Received)]" by auto
  let ?p = "p\<lparr>pr_main := Exited (Exit 0)\<rparr>"
  have "main_step [] p ?p" using p by (intro closed) simp_all
  with run have "main_steps [] (process_start w) ?p" by (rule rtranclp.rtrancl_into_rtrancl)
  moreover have "\<not> main_step [] ?p q" for q by (auto elim!: main_stepE)
  ultimately show ?thesis using p by (intro exI[of _ ?p]) simp
qed

theorem main_terminates_witness:
  "\<exists>p p'. main_steps [] (process_start ticks) p \<and> pr_closed p \<and> main_step [] p p' \<and> pr_main p' = Exited (Exit 0) \<and>
     1 \<le> work_left (si_requests (pr_site p)) + 3"
proof -
  from shutting_down[of ticks "get_request [''healthz'']"] obtain p where
    run: "main_steps [] (process_start ticks) p" "pr_closed p" "pr_main p = Serving" by blast
  let ?p = "p\<lparr>pr_main := Exited (Exit 0)\<rparr>"
  have step: "main_step [] p ?p" using run by (intro closed) simp_all
  then have "(main_step [] ^^ 1) p ?p" by (simp only: relpowp_1)
  from main_terminates[OF run(1,2) this] run step show ?thesis by (intro exI[of _ p] exI[of _ ?p]) simp
qed

theorem main_serves_witness:
  "\<exists>p. main_steps [] (process_start ticks) p \<and> length (si_requests (pr_site p)) = 1 \<and>
     snd (hd_prov (si_handler (pr_site p))) = memqueue_New"
proof -
  from accepted[of ticks "get_request [''healthz'']"] obtain p where run: "main_steps [] (process_start ticks) p"
    and "pr_site p = (main_site ticks)\<lparr>si_requests := [(get_request [''healthz''], Received)]\<rparr>" by blast
  with main_serves[OF run] show ?thesis by (intro exI[of _ p]) simp
qed

end
