(* ===== verification/Testing.thy ===== *)
theory Testing
  imports Provider_Interfaces
begin

text \<open>
  What the conformance suites of \<^verbatim>\<open>src/providertest/\<close> use of the \<^verbatim>\<open>testing\<close> and \<^verbatim>\<open>time\<close> packages. A test is
  an action on a provider that gives the list of its failures, each by the format string of the
  call that reports it: \<^verbatim>\<open>t.Errorf\<close> notes a failure and goes on, \<^verbatim>\<open>t.Fatalf\<close> notes one and ends the
  test, and a nil pointer that is followed ends it with a panic. A test passes if the list is empty.
  As everywhere in the model a provider that returns an error returns no value with it; a test that
  discards the error then goes on with the zero value.
\<close>

subsection \<open>Tests and suites\<close>

type_synonym outcome = "string list \<times> world"
type_synonym 's test = "'s \<Rightarrow> world \<Rightarrow> outcome"

definition t_Fatal :: "bool \<Rightarrow> string \<Rightarrow> world \<Rightarrow> outcome \<Rightarrow> outcome" where
  "t_Fatal failed msg w rest = (if failed then ([msg], w) else rest)"

definition t_Error :: "bool \<Rightarrow> string \<Rightarrow> outcome \<Rightarrow> outcome" where
  "t_Error failed msg rest = (if failed then (msg # fst rest, snd rest) else rest)"

definition t_done :: "world \<Rightarrow> outcome" where
  "t_done w = ([], w)"

text \<open>\<^verbatim>\<open>err != nil\<close> and \<^verbatim>\<open>errors.Is(err, target)\<close> on the error of a call, and the value if the error is discarded.\<close>

definition failed :: "'a result \<Rightarrow> bool" where
  "failed r = (case r of Inl _ \<Rightarrow> True | Inr _ \<Rightarrow> False)"

definition fails_with :: "go_error \<Rightarrow> 'a result \<Rightarrow> bool" where
  "fails_with target r = (case r of Inl e \<Rightarrow> errors_Is e target | Inr _ \<Rightarrow> False)"

definition value_or :: "'a \<Rightarrow> 'a result \<Rightarrow> 'a" where
  "value_or zero r = (case r of Inl _ \<Rightarrow> zero | Inr x \<Rightarrow> x)"

text \<open>Following the pointer that a call returned: nil if it failed.\<close>

definition deref :: "'a result \<Rightarrow> world \<Rightarrow> ('a \<Rightarrow> outcome) \<Rightarrow> outcome" where
  "deref r w f = (case r of Inl _ \<Rightarrow> ([''panic''], w) | Inr x \<Rightarrow> f x)"

text \<open>\<^verbatim>\<open>t.Run\<close> for the tests of a suite, each on a new provider; the failures are listed with the test's name.\<close>

fun t_Run :: "(string \<times> 's test) list \<Rightarrow> 's \<Rightarrow> world \<Rightarrow> (string \<times> string list) list \<times> world" where
  "t_Run [] new w = ([], w)"
| "t_Run ((name, test) # tests) new w =
    (let (fs, w) = test new w; (rest, w) = t_Run tests new w
     in ((name, fs) # rest, w))"

definition all_pass :: "(string \<times> string list) list \<times> world \<Rightarrow> bool" where
  "all_pass r \<longleftrightarrow> list_all (\<lambda>(name, fs). fs = []) (fst r)"

subsection \<open>Sleeping\<close>

text \<open>
  The clock of the world lists the readings as they come without the pause; a pause of \<open>d\<close> puts all
  later readings off by \<open>d\<close>. (A pause that takes longer is one of a clock with a larger step here.)
\<close>

definition time_Sleep :: "duration \<Rightarrow> world \<Rightarrow> world" where
  "time_Sleep d w = w\<lparr>clock := smap (\<lambda>t. t + d) (clock w)\<rparr>"

text \<open>
  The machine the suites are meant for: the clock is past the zero time and moves on with every
  reading, and at most 50 milliseconds (the shortest timeout in the suites) go by between a reading
  and the second one after it.
\<close>

definition paced :: "world \<Rightarrow> bool" where
  "paced w \<longleftrightarrow> 0 < clock w !! 0 \<and> (\<forall>i. clock w !! i < clock w !! Suc i) \<and>
     (\<forall>i. clock w !! Suc (Suc i) \<le> clock w !! i + 50 * Millisecond)"

text \<open>Identifiers drawn one after the other differ.\<close>

definition fresh_ids :: "world \<Rightarrow> bool" where
  "fresh_ids w \<longleftrightarrow> (\<forall>i. stake 16 (sdrop i (entropy w)) \<noteq> stake 16 (sdrop (i + 16) (entropy w)))"

lemmas run_test = t_Fatal_def t_Error_def t_done_def failed_def value_or_def deref_def Let_def
lemmas test_defs = run_test fails_with_def

subsection \<open>Lemmas\<close>

text \<open>A call and its three results, for contracts that are stated with the results named.\<close>

lemma triple_eq: "x = (fst x, fst (snd x), snd (snd x))"
  by simp

lemma paced_stl:
  assumes "paced w" and "clock w' = stl (clock w)"
  shows "paced w'"
proof -
  have "clock w' !! i = clock w !! Suc i" for i by (simp add: assms(2))
  moreover have "0 < clock w !! Suc 0" using assms(1) unfolding paced_def by (meson less_trans)
  ultimately show ?thesis using assms(1) by (simp add: paced_def del: snth.simps)
qed

lemma paced_Sleep: "0 \<le> d \<Longrightarrow> paced w \<Longrightarrow> paced (time_Sleep d w)"
  by (auto simp: paced_def time_Sleep_def simp del: snth.simps)

lemma paced_near:
  assumes "paced w"
  shows "0 < shd (clock w)" "shd (clock w) < shd (stl (clock w))"
    "shd (stl (clock w)) < shd (stl (stl (clock w)))"
    "shd (stl (stl (clock w))) \<le> shd (clock w) + 50 * Millisecond"
proof -
  from assms have "0 < clock w !! 0" and lt: "\<And>i. clock w !! i < clock w !! Suc i"
    and near: "\<And>i. clock w !! Suc (Suc i) \<le> clock w !! i + 50 * Millisecond" by (simp_all add: paced_def del: snth.simps)
  then show "0 < shd (clock w)" by simp
  show "shd (clock w) < shd (stl (clock w))" using lt[of 0] by simp
  show "shd (stl (clock w)) < shd (stl (stl (clock w)))" using lt[of 1] by simp
  show "shd (stl (stl (clock w))) \<le> shd (clock w) + 50 * Millisecond" using near[of 0] by simp
qed

lemma paced_tail: "paced w \<Longrightarrow> paced (w\<lparr>clock := stl (clock w)\<rparr>)"
  by (rule paced_stl) simp_all

lemma paced_sdrop: "paced w \<Longrightarrow> clock w' = sdrop n (clock w) \<Longrightarrow> paced w'"
proof (induction n arbitrary: w)
  case 0
  then show ?case by (simp add: paced_def)
next
  case (Suc n)
  show ?case by (rule Suc.IH[OF paced_tail[OF Suc.prems(1)]]) (simp add: Suc.prems(2))
qed

text \<open>A suite passes if every test passes wherever it is started, and leaves a world to go on from.\<close>

lemma t_Run_pass:
  assumes "P w" and "\<And>name test w. (name, test) \<in> set tests \<Longrightarrow> P w \<Longrightarrow> fst (test new w) = [] \<and> P (snd (test new w))"
  shows "all_pass (t_Run tests new w) \<and> P (snd (t_Run tests new w))"
  using assms
proof (induction tests new w rule: t_Run.induct)
  case (2 name test tests new w)
  from "2.prems"(2)[of name test w] "2.prems"(1) have "fst (test new w) = []" "P (snd (test new w))" by auto
  moreover from this(2) "2.IH"[of "test new w" "fst (test new w)" "snd (test new w)"] "2.prems"(2)
  have "all_pass (t_Run tests new (snd (test new w))) \<and> P (snd (t_Run tests new (snd (test new w))))" by auto
  ultimately show ?case by (simp add: all_pass_def case_prod_beta Let_def)
qed (simp add: all_pass_def)


text \<open>A world with a clock that gains a nanosecond with every reading and counting random bytes, for concrete runs.\<close>

definition ticking_world :: world where
  "ticking_world = \<lparr>clock = smap int (fromN 1), entropy = smap of_nat (fromN 0), map_orders = sconst sorted_order\<rparr>"

lemma paced_ticking: "paced ticking_world"
  by (simp add: paced_def ticking_world_def Millisecond_def del: snth.simps)

lemma fresh_ids_ticking: "fresh_ids ticking_world"
proof -
  have "hd (stake 16 (sdrop i (entropy ticking_world))) = of_nat i" for i
    by (simp add: ticking_world_def eval_nat_numeral)
  moreover have "(of_nat i :: byte) \<noteq> of_nat (i + 16)" for i
    by simp
  ultimately show ?thesis unfolding fresh_ids_def by metis
qed

end
