(* ===== verification/Cache_Test.thy ===== *)
theory Cache_Test
  imports Testing Mem_Cache
begin

text \<open>
  \<^verbatim>\<open>src/providertest/cachetest/cachetest.go\<close>: the conformance suites for caches and atomic caches, test by
  test, and the proof that the in-memory cache passes both.
\<close>

definition cache_testSetAndGet :: "('c, 'm) CacheStore_scheme \<Rightarrow> 'c test" where
  "cache_testSetAndGet s c w =
    (let val = bytes_of ''hello'';
         (r, c, w) = cs_Set s ''key1'' val 0 c w
     in t_Fatal (failed r) ''Set: %v'' w
    (let (got, c, w) = cs_Get s ''key1'' c w
     in t_Fatal (failed got) ''Get: %v'' w
       (t_Error (got \<noteq> Inr val) ''got %q, want %q''
       (t_done w))))"

definition cache_testCacheMiss :: "('c, 'm) CacheStore_scheme \<Rightarrow> 'c test" where
  "cache_testCacheMiss s c w =
    (let (r, c, w) = cs_Get s ''nonexistent'' c w
     in t_Error (\<not> fails_with ErrCacheMiss r) ''expected ErrCacheMiss, got %v''
       (t_done w))"

definition cache_testTTLExpiry :: "('c, 'm) CacheStore_scheme \<Rightarrow> 'c test" where
  "cache_testTTLExpiry s c w =
    (let val = bytes_of ''ephemeral'';
         (r, c, w) = cs_Set s ''ttl-key'' val (50 * Millisecond) c w
     in t_Fatal (failed r) ''Set: %v'' w
    (let (got, c, w) = cs_Get s ''ttl-key'' c w
     in t_Fatal (failed got) ''Get before expiry: %v'' w
       (t_Error (got \<noteq> Inr val) ''got %q, want %q''
       (let w = time_Sleep (100 * Millisecond) w;
            (r, c, w) = cs_Get s ''ttl-key'' c w
        in t_Error (\<not> fails_with ErrCacheMiss r) ''expected ErrCacheMiss after TTL expiry, got %v''
          (t_done w)))))"

definition cache_testDelete :: "('c, 'm) CacheStore_scheme \<Rightarrow> 'c test" where
  "cache_testDelete s c w =
    (let (_, c, w) = cs_Set s ''del-key'' (bytes_of ''data'') 0 c w;
         (r, c, w) = cs_Delete s ''del-key'' c w
     in t_Fatal (failed r) ''Delete: %v'' w
    (let (r, c, w) = cs_Get s ''del-key'' c w
     in t_Error (\<not> fails_with ErrCacheMiss r) ''expected ErrCacheMiss after delete, got %v''
       (t_done w)))"

definition cache_testOverwrite :: "('c, 'm) CacheStore_scheme \<Rightarrow> 'c test" where
  "cache_testOverwrite s c w =
    (let (_, c, w) = cs_Set s ''ow-key'' (bytes_of ''v1'') 0 c w;
         (_, c, w) = cs_Set s ''ow-key'' (bytes_of ''v2'') 0 c w;
         (got, c, w) = cs_Get s ''ow-key'' c w
     in t_Fatal (failed got) ''Get: %v'' w
       (t_Error (got \<noteq> Inr (bytes_of ''v2'')) ''got %q, want %q''
       (t_done w)))"

definition cachetest_Run :: "('c, 'm) CacheStore_scheme \<Rightarrow> 'c \<Rightarrow> world \<Rightarrow> (string \<times> string list) list \<times> world" where
  "cachetest_Run s = t_Run
    [(''SetAndGet'', cache_testSetAndGet s), (''CacheMiss'', cache_testCacheMiss s),
     (''TTLExpiry'', cache_testTTLExpiry s), (''Delete'', cache_testDelete s), (''Overwrite'', cache_testOverwrite s)]"

definition cache_testCompareAndSet :: "('c, 'm) AtomicCacheStore_scheme \<Rightarrow> 'c test" where
  "cache_testCompareAndSet s c w =
    (let (_, c, w) = cs_Set s ''cas-key'' (bytes_of ''old'') 0 c w;
         (ok, c, w) = cs_CompareAndSet s ''cas-key'' (Some (bytes_of ''old'')) (bytes_of ''new'') 0 c w
     in t_Fatal (failed ok) ''CompareAndSet: %v'' w
       (t_Error (ok \<noteq> Inr True) ''CompareAndSet should have succeeded''
       (let (got, c, w) = cs_Get s ''cas-key'' c w
        in t_Error (value_or [] got \<noteq> bytes_of ''new'') ''got %q, want %q''
          (t_done w))))"

definition cache_testCompareAndSetMismatch :: "('c, 'm) AtomicCacheStore_scheme \<Rightarrow> 'c test" where
  "cache_testCompareAndSetMismatch s c w =
    (let (_, c, w) = cs_Set s ''cas-key'' (bytes_of ''current'') 0 c w;
         (ok, c, w) = cs_CompareAndSet s ''cas-key'' (Some (bytes_of ''wrong'')) (bytes_of ''new'') 0 c w
     in t_Fatal (failed ok) ''CompareAndSet: %v'' w
       (t_Error (ok = Inr True) ''CompareAndSet should have failed with mismatched old value''
       (let (got, c, w) = cs_Get s ''cas-key'' c w
        in t_Error (value_or [] got \<noteq> bytes_of ''current'') ''value should not have changed, got %q''
          (t_done w))))"

definition cachetest_RunAtomic ::
    "('c, 'm) AtomicCacheStore_scheme \<Rightarrow> 'c \<Rightarrow> world \<Rightarrow> (string \<times> string list) list \<times> world" where
  "cachetest_RunAtomic s = t_Run
    [(''CompareAndSet'', cache_testCompareAndSet s), (''CompareAndSetMismatch'', cache_testCompareAndSetMismatch s)]"

subsection \<open>The in-memory cache passes\<close>

lemmas cache_test_simps = test_defs memcache_Get_def memcache_Get_read_def memcache_expired_def memcache_Get_evict_def
  memcache_entry_def memcache_Set_def memcache_Delete_def memcache_CompareAndSet_def memcache_New_def slice_bytes_def
  time_Now_def time_defs

lemma memcache_testTTLExpiry:
  assumes "paced w"
  shows "fst (cache_testTTLExpiry memcache_ops memcache_New w) = [] \<and>
    paced (snd (cache_testTTLExpiry memcache_ops memcache_New w))"
proof -
  note near = paced_near[OF assms]
  let ?w1 = "w\<lparr>clock := stl (stl (clock w))\<rparr>"
  have "paced ?w1" using paced_stl[OF paced_stl[OF assms, of "w\<lparr>clock := stl (clock w)\<rparr>"], of ?w1] by simp
  then have "paced (time_Sleep (100 * Millisecond) ?w1)" by (rule paced_Sleep[rotated]) (simp add: Millisecond_def)
  from paced_stl[OF this] have p: "paced w'" if "clock w' = stl (smap (\<lambda>t. t + 100 * Millisecond) (stl (stl (clock w))))" for w'
    using that by (simp add: time_Sleep_def)
  show ?thesis
    using near by (auto simp: cache_testTTLExpiry_def cache_test_simps time_Sleep_def Millisecond_def intro!: p)
qed

lemma memcache_untimed_tests:
  "cache_testSetAndGet memcache_ops memcache_New w = ([], w)"
  "cache_testCacheMiss memcache_ops memcache_New w = ([], w)"
  "cache_testDelete memcache_ops memcache_New w = ([], w)"
  "cache_testOverwrite memcache_ops memcache_New w = ([], w)"
  "cache_testCompareAndSet memcache_ops memcache_New w = ([], w)"
  "cache_testCompareAndSetMismatch memcache_ops memcache_New w = ([], w)"
  by (simp_all add: cache_testSetAndGet_def cache_testCacheMiss_def cache_testDelete_def cache_testOverwrite_def
      cache_testCompareAndSet_def cache_testCompareAndSetMismatch_def cache_test_simps bytes_of_def)

text \<open>
  The in-memory cache passes the conformance suite for caches and the one for atomic caches, on every
  machine whose clock advances and lets at most 50 milliseconds pass between a reading and the second one after it.
\<close>

lemma memcache_conformance:
  assumes "paced w"
  shows "all_pass (cachetest_Run memcache_ops memcache_New w) \<and>
    all_pass (cachetest_RunAtomic memcache_ops memcache_New w)"
proof
  show "all_pass (cachetest_Run memcache_ops memcache_New w)"
    unfolding cachetest_Run_def
    by (rule t_Run_pass[where P = paced, THEN conjunct1, OF assms])
      (auto simp: memcache_untimed_tests memcache_testTTLExpiry)
  show "all_pass (cachetest_RunAtomic memcache_ops memcache_New w)"
    by (simp add: cachetest_RunAtomic_def memcache_untimed_tests all_pass_def)
qed

end
