(* ===== verification/Queue_Test.thy ===== *)
theory Queue_Test
  imports Testing Mem_Queue
begin

text \<open>
  \<^verbatim>\<open>src/providertest/queuetest/queuetest.go\<close>: the conformance suite for work queues, test by test, and the
  proof that the in-memory queue passes it where the clock has moved on between two readings.
\<close>

definition queue_testEnqueueAndDequeue :: "'q WorkQueue \<Rightarrow> 'q test" where
  "queue_testEnqueueAndDequeue s q w =
    (let payload = bytes_of ''{\"action\":\"test\"}'';
         (r, q, w) = wq_Enqueue s ''tasks'' payload q w;
         jid = value_or '''' r
     in t_Fatal (failed r) ''Enqueue: %v'' w
       (t_Fatal (jid = '''') ''Enqueue returned empty ID'' w
    (let (r, q, w) = wq_Dequeue s ''tasks'' (5 * Second) q w
     in t_Fatal (failed r) ''Dequeue: %v'' w
       (deref r w (\<lambda>job.
        t_Error (jb_ID job \<noteq> jid) ''got job ID %q, want %q''
       (t_Error (jb_Payload job \<noteq> payload) ''got payload %q, want %q''
       (t_Error (jb_Topic job \<noteq> ''tasks'') ''got topic %q, want %q''
       (t_Error (jb_DequeueCount job \<noteq> 1) ''got DequeueCount %d, want 1''
       (t_done w)))))))))"

definition queue_testNoJobs :: "'q WorkQueue \<Rightarrow> 'q test" where
  "queue_testNoJobs s q w =
    (let (r, q, w) = wq_Dequeue s ''empty-topic'' (5 * Second) q w
     in t_Error (\<not> fails_with ErrNoJobs r) ''expected ErrNoJobs, got %v''
       (t_done w))"

definition queue_testAck :: "'q WorkQueue \<Rightarrow> 'q test" where
  "queue_testAck s q w =
    (let (r, q, w) = wq_Enqueue s ''ack-topic'' (bytes_of ''data'') q w;
         jid = value_or '''' r;
         (_, q, w) = wq_Dequeue s ''ack-topic'' (5 * Second) q w;
         (r, q, w) = wq_Ack s jid q w
     in t_Fatal (failed r) ''Ack: %v'' w
    (let (r, q, w) = wq_Dequeue s ''ack-topic'' (5 * Second) q w
     in t_Error (\<not> fails_with ErrNoJobs r) ''expected ErrNoJobs after ack, got %v''
       (t_done w)))"

definition queue_testNack :: "'q WorkQueue \<Rightarrow> 'q test" where
  "queue_testNack s q w =
    (let (r, q, w) = wq_Enqueue s ''nack-topic'' (bytes_of ''data'') q w;
         jid = value_or '''' r;
         (_, q, w) = wq_Dequeue s ''nack-topic'' (5 * Second) q w;
         (now, w) = time_Now w;
         (r, q, w) = wq_Nack s jid now q w
     in t_Fatal (failed r) ''Nack: %v'' w
    (let (r, q, w) = wq_Dequeue s ''nack-topic'' (5 * Second) q w
     in t_Fatal (failed r) ''Dequeue after nack: %v'' w
       (deref r w (\<lambda>job.
        t_Error (jb_ID job \<noteq> jid) ''got job ID %q, want %q''
       (t_Error (jb_DequeueCount job \<noteq> 2) ''got DequeueCount %d, want 2''
       (t_done w))))))"

definition queue_testLeaseExpiry :: "'q WorkQueue \<Rightarrow> 'q test" where
  "queue_testLeaseExpiry s q w =
    (let (r, q, w) = wq_Enqueue s ''lease-topic'' (bytes_of ''data'') q w;
         jid = value_or '''' r;
         (r, q, w) = wq_Dequeue s ''lease-topic'' (50 * Millisecond) q w
     in t_Fatal (failed r) ''Dequeue: %v'' w
    (let (r, q, w) = wq_Dequeue s ''lease-topic'' (5 * Second) q w
     in t_Error (\<not> fails_with ErrNoJobs r) ''expected ErrNoJobs during lease, got %v''
    (let w = time_Sleep (100 * Millisecond) w;
         (r, q, w) = wq_Dequeue s ''lease-topic'' (5 * Second) q w
     in t_Fatal (failed r) ''Dequeue after lease expiry: %v'' w
       (deref r w (\<lambda>job.
        t_Error (jb_ID job \<noteq> jid) ''got job ID %q, want %q''
       (t_Error (jb_DequeueCount job \<noteq> 2) ''got DequeueCount %d, want 2''
       (t_done w)))))))"

definition queue_testMultiTopic :: "'q WorkQueue \<Rightarrow> 'q test" where
  "queue_testMultiTopic s q w =
    (let (r1, q, w) = wq_Enqueue s ''topic-a'' (bytes_of ''a'') q w;
         id1 = value_or '''' r1;
         (r2, q, w) = wq_Enqueue s ''topic-b'' (bytes_of ''b'') q w;
         id2 = value_or '''' r2;
         (r, q, w) = wq_Dequeue s ''topic-a'' (5 * Second) q w
     in t_Fatal (failed r) ''Dequeue topic-a: %v'' w
       (deref r w (\<lambda>jobA.
        t_Error (jb_ID jobA \<noteq> id1) ''topic-a: got ID %q, want %q''
    (let (r, q, w) = wq_Dequeue s ''topic-b'' (5 * Second) q w
     in t_Fatal (failed r) ''Dequeue topic-b: %v'' w
       (deref r w (\<lambda>jobB.
        t_Error (jb_ID jobB \<noteq> id2) ''topic-b: got ID %q, want %q''
       (t_done w)))))))"

definition queuetest_Run :: "'q WorkQueue \<Rightarrow> 'q \<Rightarrow> world \<Rightarrow> (string \<times> string list) list \<times> world" where
  "queuetest_Run s = t_Run
    [(''EnqueueAndDequeue'', queue_testEnqueueAndDequeue s), (''NoJobs'', queue_testNoJobs s),
     (''Ack'', queue_testAck s), (''Nack'', queue_testNack s), (''LeaseExpiry'', queue_testLeaseExpiry s),
     (''MultiTopic'', queue_testMultiTopic s)]"


subsection \<open>The in-memory queue passes\<close>

lemmas queue_test_simps = test_defs memqueue_ops_def memqueue_New_def memqueue_Enqueue_def memqueue_Dequeue_def memqueue_Ack_def
  memqueue_Nack_def memqueue_entries_def memqueue_newID_eq newID_nonempty time_Now_def time_defs wrap64_def

text \<open>The tests that do not sleep read the clock a fixed number of times.\<close>

lemma memqueue_untimed_tests:
  "fst (queue_testEnqueueAndDequeue memqueue_ops memqueue_New w) = []"
  "clock (snd (queue_testEnqueueAndDequeue memqueue_ops memqueue_New w)) = sdrop 2 (clock w)"
  "fst (queue_testNoJobs memqueue_ops memqueue_New w) = []"
  "clock (snd (queue_testNoJobs memqueue_ops memqueue_New w)) = sdrop 1 (clock w)"
  "fst (queue_testAck memqueue_ops memqueue_New w) = []"
  "clock (snd (queue_testAck memqueue_ops memqueue_New w)) = sdrop 3 (clock w)"
  "fst (queue_testMultiTopic memqueue_ops memqueue_New w) = []"
  "clock (snd (queue_testMultiTopic memqueue_ops memqueue_New w)) = sdrop 4 (clock w)"
  by (simp_all add: queue_testEnqueueAndDequeue_def queue_testNoJobs_def queue_testAck_def queue_testMultiTopic_def
      queue_test_simps eval_nat_numeral)


lemma memqueue_testNack_iff:
  "fst (queue_testNack memqueue_ops memqueue_New w) = [] \<longleftrightarrow>
     clock w !! 2 = 0 \<or> clock w !! 2 < clock w !! 3"
  "clock (snd (queue_testNack memqueue_ops memqueue_New w)) = sdrop 4 (clock w)"
  by (auto simp: queue_testNack_def queue_test_simps eval_nat_numeral)

lemma memqueue_testLeaseExpiry:
  assumes "paced w"
  shows "fst (queue_testLeaseExpiry memqueue_ops memqueue_New w) = [] \<and>
    paced (snd (queue_testLeaseExpiry memqueue_ops memqueue_New w))"
proof -
  let ?w1 = "w\<lparr>clock := stl (clock w)\<rparr>" and ?w3 = "w\<lparr>clock := stl (stl (stl (clock w)))\<rparr>"
  have p1: "paced ?w1" using assms by (rule paced_tail)
  have "paced ?w3" using paced_tail[OF paced_tail[OF p1]] by simp
  then have "paced (time_Sleep (100 * Millisecond) ?w3)" by (rule paced_Sleep[rotated]) (simp add: Millisecond_def)
  from paced_stl[OF this] have p: "paced w'" if "clock w' = stl (smap (\<lambda>t. t + 100 * Millisecond) (stl (stl (stl (clock w)))))" for w'
    using that by (simp add: time_Sleep_def)
  show ?thesis
    using paced_near[OF p1] paced_near[OF assms]
    by (auto simp: queue_testLeaseExpiry_def queue_test_simps time_Sleep_def Millisecond_def intro!: p)
qed

text \<open>
  The in-memory queue passes the conformance suite for work queues on every machine whose clock advances
  with each reading and lets at most 50 milliseconds pass between a reading and the second one after it.
\<close>

lemma memqueue_conformance:
  assumes "paced w"
  shows "all_pass (queuetest_Run memqueue_ops memqueue_New w)"
proof -
  have nack: "fst (queue_testNack memqueue_ops memqueue_New w) = []" if "paced w" for w
    using paced_near(3)[OF paced_tail[OF that]] by (simp add: memqueue_testNack_iff eval_nat_numeral)
  show ?thesis
    unfolding queuetest_Run_def
    by (rule t_Run_pass[where P = paced, THEN conjunct1, OF assms])
      (auto simp: memqueue_untimed_tests memqueue_testLeaseExpiry nack memqueue_testNack_iff(2) intro: paced_sdrop paced_stl)
qed

text \<open>
  C39: The retry test of the suite needs a clock that has moved on: it retries with \<^verbatim>\<open>Nack(ctx, id, time.Now())\<close> and
  expects the job \<open>immediately\<close>, and on the in-memory queue it passes exactly if the reading in the following
  \<^verbatim>\<open>Dequeue\<close> is strictly later than the retry time (or the retry time is the zero time); with two equal readings
  it ends with \<^verbatim>\<open>ErrNoJobs\<close>.
\<close>

theorem memqueue_nack_immediately:
  "(fst (queue_testNack memqueue_ops memqueue_New w) = [] \<longleftrightarrow> clock w !! 2 = 0 \<or> clock w !! 2 < clock w !! 3) \<and>
   fst (queue_testNack memqueue_ops memqueue_New (clock_world (sconst 5))) = [''Dequeue after nack: %v'']"
proof
  show "fst (queue_testNack memqueue_ops memqueue_New (clock_world (sconst 5))) = [''Dequeue after nack: %v'']"
    by (simp add: queue_testNack_def queue_test_simps)
qed (rule memqueue_testNack_iff)

end
