(* ===== verification/State_Test.thy ===== *)
theory State_Test
  imports Testing Mem_State
begin

text \<open>
  \<^verbatim>\<open>src/providertest/statetest/statetest.go\<close>: the conformance suite for state stores, test by test, and the
  proof that the in-memory store passes it. In the test of concurrent assignment the goroutines call
  the store in an order that the scheduler picks; the order is a parameter of the test and of the suite.
\<close>

definition state_testCreateAndGet :: "'s StateStore \<Rightarrow> 's test" where
  "state_testCreateAndGet s st w =
    (let spec = zero_VMSpec\<lparr>sp_Resources := \<lparr>rs_VCPUs = 2, rs_MemoryMB = 512\<rparr>\<rparr>;
         (r, st, w) = ss_CreateVM s spec st w;
         vid = value_or '''' r
     in t_Fatal (failed r) ''CreateVM: %v'' w
       (t_Fatal (vid = '''') ''CreateVM returned empty ID'' w
    (let (r, st, w) = ss_GetVM s vid st w
     in t_Fatal (failed r) ''GetVM: %v'' w
       (deref r w (\<lambda>vm.
        t_Error (vm_ID vm \<noteq> vid) ''got ID %q, want %q''
       (t_Error (vm_DesiredState vm \<noteq> DesiredRunning) ''got DesiredState %q, want %q''
       (t_Error (vm_ObservedState vm \<noteq> ObservedPending) ''got ObservedState %q, want %q''
       (t_Error (rs_VCPUs (sp_Resources (vm_Spec vm)) \<noteq> 2) ''got VCPUs %d, want 2''
       (t_done w)))))))))"

definition state_testUpdateDesiredState :: "'s StateStore \<Rightarrow> 's test" where
  "state_testUpdateDesiredState s st w =
    (let (r, st, w) = ss_CreateVM s zero_VMSpec st w;
         vid = value_or '''' r;
         (r, st, w) = ss_UpdateVMDesiredState s vid DesiredStopped st w
     in t_Fatal (failed r) ''UpdateVMDesiredState: %v'' w
    (let (r, st, w) = ss_GetVM s vid st w
     in deref r w (\<lambda>vm.
        t_Error (vm_DesiredState vm \<noteq> DesiredStopped) ''got %q, want %q''
       (t_done w))))"

definition state_testUpdateObservedState :: "'s StateStore \<Rightarrow> 's test" where
  "state_testUpdateObservedState s st w =
    (let (r, st, w) = ss_CreateVM s zero_VMSpec st w;
         vid = value_or '''' r;
         (r, st, w) = ss_UpdateVMObservedState s vid ObservedRunning ''ctrl-1'' st w
     in t_Fatal (failed r) ''UpdateVMObservedState: %v'' w
    (let (r, st, w) = ss_GetVM s vid st w
     in deref r w (\<lambda>vm.
        t_Error (vm_ObservedState vm \<noteq> ObservedRunning) ''got %q, want %q''
       (t_Error (vm_ControllerID vm \<noteq> ''ctrl-1'') ''got ControllerID %q, want %q''
       (t_done w)))))"

definition state_testAssignVM :: "'s StateStore \<Rightarrow> 's test" where
  "state_testAssignVM s st w =
    (let (r, st, w) = ss_CreateVM s zero_VMSpec st w;
         vid = value_or '''' r;
         (r, st, w) = ss_AssignVM s vid ''ctrl-1'' st w
     in t_Fatal (failed r) ''AssignVM: %v'' w
    (let (r, st, w) = ss_GetVM s vid st w
     in deref r w (\<lambda>vm.
        t_Error (vm_ControllerID vm \<noteq> ''ctrl-1'') ''got ControllerID %q, want %q''
    (let (r, st, w) = ss_AssignVM s vid ''ctrl-2'' st w
     in t_Error (\<not> fails_with ErrConflict r) ''expected ErrConflict, got %v''
       (t_done w)))))"

text \<open>The ten goroutines, in the order of their calls, counting those that succeed.\<close>

definition goroutines :: nat where "goroutines = 10"

fun assign_goroutines :: "'s StateStore \<Rightarrow> string \<Rightarrow> nat list \<Rightarrow> nat \<Rightarrow> 's \<Rightarrow> world \<Rightarrow> nat \<times> 's \<times> world" where
  "assign_goroutines s vid [] successes st w = (successes, st, w)"
| "assign_goroutines s vid (n # ns) successes st w =
    (let (r, st, w) = ss_AssignVM s vid (''ctrl-'' @ [char_of (65 + n)]) st w
     in assign_goroutines s vid ns (if failed r then successes else successes + 1) st w)"

definition state_testConcurrentAssign :: "nat list \<Rightarrow> 's StateStore \<Rightarrow> 's test" where
  "state_testConcurrentAssign order s st w =
    (let (r, st, w) = ss_CreateVM s zero_VMSpec st w;
         vid = value_or '''' r;
         (successes, st, w) = assign_goroutines s vid order 0 st w
     in t_Error (successes \<noteq> 1) ''expected exactly 1 successful assign, got %d''
    (let (r, st, w) = ss_GetVM s vid st w
     in t_Fatal (failed r) ''GetVM after concurrent assign: %v'' w
       (deref r w (\<lambda>vm.
        t_Error (vm_ControllerID vm = '''') ''ControllerID is empty after concurrent assign''
       (t_done w)))))"

definition state_testListPendingVMs :: "'s StateStore \<Rightarrow> 's test" where
  "state_testListPendingVMs s st w =
    (let (r1, st, w) = ss_CreateVM s zero_VMSpec st w;
         id1 = value_or '''' r1;
         (r2, st, w) = ss_CreateVM s zero_VMSpec st w;
         id2 = value_or '''' r2;
         (_, st, w) = ss_UpdateVMObservedState s id2 ObservedRunning ''ctrl-1'' st w;
         (r, st, w) = ss_ListPendingVMs s st w;
         pending = value_or [] r
     in t_Fatal (failed r) ''ListPendingVMs: %v'' w
       (t_Fatal (length pending \<noteq> 1) ''expected 1 pending VM, got %d'' w
       (t_Error (vm_ID (hd pending) \<noteq> id1) ''expected pending VM %q, got %q''
       (t_done w))))"

text \<open>The loops that append events and register controllers, with what follows them.\<close>

fun append_events :: "'s StateStore \<Rightarrow> Event list \<Rightarrow> ('s \<Rightarrow> world \<Rightarrow> outcome) \<Rightarrow> 's test" where
  "append_events s [] rest st w = rest st w"
| "append_events s (e # es) rest st w =
    (let (r, st, w) = ss_AppendEvent s e st w
     in t_Fatal (failed r) ''AppendEvent: %v'' w (append_events s es rest st w))"

fun register_controllers :: "'s StateStore \<Rightarrow> Controller list \<Rightarrow> ('s \<Rightarrow> world \<Rightarrow> outcome) \<Rightarrow> 's test" where
  "register_controllers s [] rest st w = rest st w"
| "register_controllers s (c # cs) rest st w =
    (let (r, st, w) = ss_RegisterController s c st w
     in t_Fatal (failed r) ''RegisterController(%s): %v'' w (register_controllers s cs rest st w))"

definition state_testEvents :: "'s StateStore \<Rightarrow> 's test" where
  "state_testEvents s =
    (let event = (\<lambda>vid ty. zero_Event\<lparr>ev_VMID := vid, ev_Type := ty, ev_Payload := Some (bytes_of ''{}'')\<rparr>);
         e1 = event ''vm-1'' ''vm.created'';
         e2 = event ''vm-2'' ''vm.scheduled'';
         e3 = event ''vm-1'' ''vm.started''
     in append_events s [e1, e2, e3] (\<lambda>st w.
     let (r, st, w) = ss_ListEvents s (zero_EventFilter\<lparr>ef_VMID := ''vm-1''\<rparr>) st w
     in t_Fatal (failed r) ''ListEvents: %v'' w
       (t_Error (length (value_or [] r) \<noteq> 2) ''expected 2 events for vm-1, got %d''
    (let (r, st, w) = ss_ListEvents s (zero_EventFilter\<lparr>ef_Type := ''vm.scheduled''\<rparr>) st w
     in t_Fatal (failed r) ''ListEvents: %v'' w
       (t_Error (length (value_or [] r) \<noteq> 1) ''expected 1 event of type vm.scheduled, got %d''
    (let (r, st, w) = ss_ListEvents s (zero_EventFilter\<lparr>ef_Limit := 2\<rparr>) st w
     in t_Fatal (failed r) ''ListEvents: %v'' w
       (t_Error (length (value_or [] r) \<noteq> 2) ''expected 2 events with limit, got %d''
       (t_done w))))))))"

definition state_testControllers :: "'s StateStore \<Rightarrow> 's test" where
  "state_testControllers s st w =
    (let ctrl = zero_Controller\<lparr>ct_ID := ''ctrl-1'', ct_Status := ''active'',
           ct_Capacity := zero_CapacityInfo\<lparr>cap_TotalVCPUs := 16, cap_TotalMemoryMB := 32768\<rparr>\<rparr>;
         (r, st, w) = ss_RegisterController s ctrl st w
     in t_Fatal (failed r) ''RegisterController: %v'' w
    (let (r, st, w) = ss_RegisterController s ctrl st w
     in t_Error (\<not> fails_with ErrAlreadyExists r) ''expected ErrAlreadyExists, got %v''
    (let hb = \<lparr>hb_Status = ''active'', hb_Capacity = \<lparr>cap_TotalVCPUs = 16, cap_TotalMemoryMB = 32768,
           cap_UsedVCPUs = 4, cap_UsedMemoryMB = 8192\<rparr>\<rparr>;
         (before, w) = time_Now w;
         (r, st, w) = ss_UpdateControllerHeartbeat s ''ctrl-1'' hb st w
     in t_Fatal (failed r) ''UpdateControllerHeartbeat: %v'' w
       (t_done w))))"

definition state_testListControllers :: "'s StateStore \<Rightarrow> 's test" where
  "state_testListControllers s =
    (let controller = (\<lambda>cid status vcpus. zero_Controller\<lparr>ct_ID := cid, ct_Status := status,
           ct_Capacity := zero_CapacityInfo\<lparr>cap_TotalVCPUs := vcpus\<rparr>\<rparr>);
         c1 = controller ''ctrl-1'' ''active'' 8;
         c2 = controller ''ctrl-2'' ''draining'' 16;
         c3 = controller ''ctrl-3'' ''active'' 4
     in register_controllers s [c1, c2, c3] (\<lambda>st w.
     let (r, st, w) = ss_ListControllers s zero_ControllerFilter st w
     in t_Fatal (failed r) ''ListControllers (all): %v'' w
       (t_Error (length (value_or [] r) \<noteq> 3) ''expected 3 controllers, got %d''
    (let (r, st, w) = ss_ListControllers s (zero_ControllerFilter\<lparr>cf_Status := ''active''\<rparr>) st w
     in t_Fatal (failed r) ''ListControllers (active): %v'' w
       (t_Error (length (value_or [] r) \<noteq> 2) ''expected 2 active controllers, got %d''
    (let (r, st, w) = ss_ListControllers s (zero_ControllerFilter\<lparr>cf_Limit := 1\<rparr>) st w
     in t_Fatal (failed r) ''ListControllers (limit): %v'' w
       (t_Error (length (value_or [] r) \<noteq> 1) ''expected 1 controller with limit, got %d''
       (t_done w))))))))"

definition state_testNotFoundErrors :: "'s StateStore \<Rightarrow> 's test" where
  "state_testNotFoundErrors s st w =
    (let (r1, st, w) = ss_GetVM s ''nonexistent'' st w
     in t_Error (\<not> fails_with ErrNotFound r1) ''GetVM: expected ErrNotFound, got %v''
    (let (r2, st, w) = ss_UpdateVMDesiredState s ''nonexistent'' DesiredStopped st w
     in t_Error (\<not> fails_with ErrNotFound r2) ''UpdateVMDesiredState: expected ErrNotFound, got %v''
    (let (r3, st, w) = ss_UpdateVMObservedState s ''nonexistent'' ObservedRunning ''ctrl-1'' st w
     in t_Error (\<not> fails_with ErrNotFound r3) ''UpdateVMObservedState: expected ErrNotFound, got %v''
    (let (r4, st, w) = ss_AssignVM s ''nonexistent'' ''ctrl-1'' st w
     in t_Error (\<not> fails_with ErrNotFound r4) ''AssignVM: expected ErrNotFound, got %v''
    (let (r5, st, w) = ss_UpdateControllerHeartbeat s ''nonexistent'' zero_Heartbeat st w
     in t_Error (\<not> fails_with ErrNotFound r5) ''UpdateControllerHeartbeat: expected ErrNotFound, got %v''
       (t_done w))))))"

definition statetest_Run ::
    "nat list \<Rightarrow> 's StateStore \<Rightarrow> 's \<Rightarrow> world \<Rightarrow> (string \<times> string list) list \<times> world" where
  "statetest_Run order s = t_Run
    [(''CreateAndGet'', state_testCreateAndGet s), (''UpdateDesiredState'', state_testUpdateDesiredState s),
     (''UpdateObservedState'', state_testUpdateObservedState s), (''AssignVM'', state_testAssignVM s),
     (''ConcurrentAssign'', state_testConcurrentAssign order s), (''ListPendingVMs'', state_testListPendingVMs s),
     (''Events'', state_testEvents s), (''Controllers'', state_testControllers s),
     (''ListControllers'', state_testListControllers s), (''NotFoundErrors'', state_testNotFoundErrors s)]"


subsection \<open>The in-memory store passes\<close>

lemma fresh_ids_sdrop: "fresh_ids w \<Longrightarrow> entropy w' = sdrop n (entropy w) \<Longrightarrow> fresh_ids w'"
  unfolding fresh_ids_def by (simp only: sdrop_add) (metis add.assoc)

lemma fresh_ids_same: "fresh_ids w \<Longrightarrow> entropy w' = entropy w \<Longrightarrow> fresh_ids w'"
  by (simp add: fresh_ids_def)

lemma fresh_ids_differ:
  assumes "fresh_ids w"
  shows "hex_EncodeToString (stake 16 (entropy w)) \<noteq> hex_EncodeToString (stake 16 (sdrop 16 (entropy w)))"
proof -
  have "stake 16 (sdrop 0 (entropy w)) \<noteq> stake 16 (sdrop (0 + 16) (entropy w))"
    using assms unfolding fresh_ids_def by blast
  then show ?thesis by (simp add: hex_inj)
qed

lemmas state_test_simps = test_defs memstate_ops_def memstate_New_def memstate_CreateVM_def memstate_GetVM_def
  memstate_UpdateVMDesiredState_def memstate_UpdateVMObservedState_def memstate_AssignVM_def memstate_AppendEvent_def
  memstate_ListEvents_eq memstate_RegisterController_def memstate_UpdateControllerHeartbeat_def memstate_newID_eq
  newID_nonempty time_Now_def time_IsZero_def

lemma memstate_simple_tests:
  "fst (state_testCreateAndGet memstate_ops memstate_New w) = []"
  "entropy (snd (state_testCreateAndGet memstate_ops memstate_New w)) = sdrop 16 (entropy w)"
  "fst (state_testUpdateDesiredState memstate_ops memstate_New w) = []"
  "entropy (snd (state_testUpdateDesiredState memstate_ops memstate_New w)) = sdrop 16 (entropy w)"
  "fst (state_testUpdateObservedState memstate_ops memstate_New w) = []"
  "entropy (snd (state_testUpdateObservedState memstate_ops memstate_New w)) = sdrop 16 (entropy w)"
  "fst (state_testAssignVM memstate_ops memstate_New w) = []"
  "entropy (snd (state_testAssignVM memstate_ops memstate_New w)) = sdrop 16 (entropy w)"
  "fst (state_testControllers memstate_ops memstate_New w) = []"
  "entropy (snd (state_testControllers memstate_ops memstate_New w)) = entropy w"
  "fst (state_testNotFoundErrors memstate_ops memstate_New w) = []"
  "entropy (snd (state_testNotFoundErrors memstate_ops memstate_New w)) = entropy w"
  by (simp_all add: state_testCreateAndGet_def state_testUpdateDesiredState_def state_testUpdateObservedState_def
      state_testAssignVM_def state_testControllers_def state_testNotFoundErrors_def state_test_simps)

lemma memstate_testEvents:
  "fst (state_testEvents memstate_ops memstate_New w) = []"
  "entropy (snd (state_testEvents memstate_ops memstate_New w)) = sdrop 48 (entropy w)"
  by (simp_all add: state_testEvents_def state_test_simps event_matches_def zero_Event_def zero_EventFilter_def
      limited_def sdrop_add)

lemma assign_goroutines_taken:
  assumes "ms_vms st vid = Some vm" "vm_ControllerID vm \<noteq> ''''"
  shows "assign_goroutines memstate_ops vid ns successes st w = (successes, st, w)"
  using assms by (induction ns) (simp_all add: memstate_ops_def memstate_AssignVM_def failed_def)

lemma memstate_testConcurrentAssign:
  assumes "order \<noteq> []"
  shows "fst (state_testConcurrentAssign order memstate_ops memstate_New w) = []"
    "entropy (snd (state_testConcurrentAssign order memstate_ops memstate_New w)) = sdrop 16 (entropy w)"
proof -
  from assms obtain n ns where "order = n # ns" by (cases order) auto
  then show "fst (state_testConcurrentAssign order memstate_ops memstate_New w) = []"
    "entropy (snd (state_testConcurrentAssign order memstate_ops memstate_New w)) = sdrop 16 (entropy w)"
    by (simp_all add: state_testConcurrentAssign_def state_test_simps assign_goroutines_taken[unfolded memstate_ops_def])
qed


lemma memstate_testListPendingVMs:
  assumes "fresh_ids w"
  shows "fst (state_testListPendingVMs memstate_ops memstate_New w) = []"
    "entropy (snd (state_testListPendingVMs memstate_ops memstate_New w)) = sdrop 32 (entropy w)"
proof -
  let ?i1 = "hex_EncodeToString (stake 16 (entropy w))" and ?i2 = "hex_EncodeToString (stake 16 (sdrop 16 (entropy w)))"
  note differ = fresh_ids_differ[OF assms]
  define vm1 where "vm1 = created_vm zero_VMSpec w"
  define st where "st = memstate_New\<lparr>ms_vms := [?i1 \<mapsto> vm1, ?i2 \<mapsto> (created_vm zero_VMSpec (snd (time_Now (snd (memstate_newID w)))))
    \<lparr>vm_ObservedState := ObservedRunning, vm_ControllerID := ''ctrl-1'', vm_UpdatedAt := shd (stl (stl (clock w)))\<rparr>]\<rparr>"
  define w3 where "w3 = w\<lparr>entropy := sdrop 32 (entropy w), clock := stl (stl (stl (clock w)))\<rparr>"
  have inv: "memstate_inv st"
    by (auto simp: memstate_inv_def st_def memstate_New_def vm1_def created_vm_def memstate_simps split: if_splits)
  obtain vs w4 where list: "memstate_ListPendingVMs st w3 = (Inr vs, st, w4)" "entropy w4 = entropy w3"
    by (auto simp: memstate_ListPendingVMs_def map_range_def)
  have "{vm \<in> ran (ms_vms st). vm_ObservedState vm = ObservedPending} = {vm1}"
    using differ by (auto simp: st_def ran_def vm1_def created_vm_def ObservedRunning_def ObservedPending_def split: if_splits)
  with memstate_ListPendingVMs_ok[OF inv list(1)] have "distinct vs" "set vs = {vm1}" by auto
  then have "vs = [vm1]" by (cases vs rule: remdups_adj.cases) auto
  then show "fst (state_testListPendingVMs memstate_ops memstate_New w) = []"
    "entropy (snd (state_testListPendingVMs memstate_ops memstate_New w)) = sdrop 32 (entropy w)"
    using list differ
    by (simp_all add: state_testListPendingVMs_def state_test_simps st_def w3_def vm1_def created_vm_def sdrop_add)
qed

definition test_controllers :: "string \<rightharpoonup> Controller" where
  "test_controllers =
    [''ctrl-1'' \<mapsto> zero_Controller\<lparr>ct_ID := ''ctrl-1'', ct_Status := ''active'', ct_Capacity := zero_CapacityInfo\<lparr>cap_TotalVCPUs := 8\<rparr>\<rparr>,
     ''ctrl-2'' \<mapsto> zero_Controller\<lparr>ct_ID := ''ctrl-2'', ct_Status := ''draining'', ct_Capacity := zero_CapacityInfo\<lparr>cap_TotalVCPUs := 16\<rparr>\<rparr>,
     ''ctrl-3'' \<mapsto> zero_Controller\<lparr>ct_ID := ''ctrl-3'', ct_Status := ''active'', ct_Capacity := zero_CapacityInfo\<lparr>cap_TotalVCPUs := 4\<rparr>\<rparr>]"

lemma list_test_controllers:
  fixes f w
  defines "st \<equiv> memstate_New\<lparr>ms_controllers := test_controllers\<rparr>"
  assumes "K = {k \<in> {''ctrl-1'', ''ctrl-2'', ''ctrl-3''}. controller_matches f (the (test_controllers k))}"
  shows "\<exists>cs w'. memstate_ListControllers f st w = (Inr cs, st, w') \<and> entropy w' = entropy w \<and>
    int (length cs) = (if 0 < cf_Limit f then min (cf_Limit f) (int (card K)) else int (card K))"
proof -
  have inv: "memstate_inv st"
    by (auto simp: memstate_inv_def st_def memstate_New_def test_controllers_def split: if_splits)
  obtain cs w' where list: "memstate_ListControllers f st w = (Inr cs, st, w')" "entropy w' = entropy w"
    by (auto simp: memstate_ListControllers_def map_range_def)
  have "dom (ms_controllers st) = {''ctrl-1'', ''ctrl-2'', ''ctrl-3''}" by (auto simp: st_def test_controllers_def)
  with memstate_ListControllers_ok[OF inv list(1)] list assms(2) show ?thesis by (simp add: st_def Let_def)
qed

lemma memstate_testListControllers:
  "fst (state_testListControllers memstate_ops memstate_New w) = []"
  "entropy (snd (state_testListControllers memstate_ops memstate_New w)) = entropy w"
proof -
  let ?st = "memstate_New\<lparr>ms_controllers := test_controllers\<rparr>"
  have all: "{k \<in> {''ctrl-1'', ''ctrl-2'', ''ctrl-3''}. controller_matches zero_ControllerFilter (the (test_controllers k))} =
      {''ctrl-1'', ''ctrl-2'', ''ctrl-3''}"
    "{k \<in> {''ctrl-1'', ''ctrl-2'', ''ctrl-3''}. controller_matches (zero_ControllerFilter\<lparr>cf_Limit := 1\<rparr>) (the (test_controllers k))} =
      {''ctrl-1'', ''ctrl-2'', ''ctrl-3''}"
    by (auto simp: controller_matches_def zero_ControllerFilter_def)
  have active: "{k \<in> {''ctrl-1'', ''ctrl-2'', ''ctrl-3''}. controller_matches (zero_ControllerFilter\<lparr>cf_Status := ''active''\<rparr>) (the (test_controllers k))} =
      {''ctrl-1'', ''ctrl-3''}"
    by (auto simp: controller_matches_def test_controllers_def zero_ControllerFilter_def)
  obtain cs1 w1 where 1: "memstate_ListControllers zero_ControllerFilter ?st w = (Inr cs1, ?st, w1)"
    "entropy w1 = entropy w" "length cs1 = 3"
    using list_test_controllers[OF refl, of zero_ControllerFilter w] unfolding all by (auto simp: zero_ControllerFilter_def)
  obtain cs2 w2 where 2: "memstate_ListControllers (zero_ControllerFilter\<lparr>cf_Status := ''active''\<rparr>) ?st w1 = (Inr cs2, ?st, w2)"
    "entropy w2 = entropy w1" "length cs2 = 2"
    using list_test_controllers[OF refl, of "zero_ControllerFilter\<lparr>cf_Status := ''active''\<rparr>" w1] unfolding active
    by (auto simp: zero_ControllerFilter_def)
  obtain cs3 w3 where 3: "memstate_ListControllers (zero_ControllerFilter\<lparr>cf_Limit := 1\<rparr>) ?st w2 = (Inr cs3, ?st, w3)"
    "entropy w3 = entropy w2" "length cs3 = 1"
    using list_test_controllers[OF refl, of "zero_ControllerFilter\<lparr>cf_Limit := 1\<rparr>" w2] unfolding all by auto
  from 1 2 3 show "fst (state_testListControllers memstate_ops memstate_New w) = []"
    "entropy (snd (state_testListControllers memstate_ops memstate_New w)) = entropy w"
    by (simp_all add: state_testListControllers_def state_test_simps test_controllers_def)
qed

text \<open>
  The in-memory state store passes the conformance suite for state stores in whatever order the goroutines
  of the concurrency test get to run, provided no two identifiers drawn one after the other are equal.
\<close>

lemma memstate_conformance:
  assumes "fresh_ids w" and "distinct order" and "set order = {..<goroutines}"
  shows "all_pass (statetest_Run order memstate_ops memstate_New w)"
proof -
  have "0 \<in> set order" unfolding assms(3) by (simp add: goroutines_def)
  then have "order \<noteq> []" by auto
  then show ?thesis
    unfolding statetest_Run_def
    by (intro t_Run_pass[where P = fresh_ids, THEN conjunct1, OF assms(1)])
      (auto simp: memstate_simple_tests memstate_testEvents memstate_testConcurrentAssign memstate_testListPendingVMs
        memstate_testListControllers intro: fresh_ids_sdrop fresh_ids_same)
qed

end
