(* ===== verification/Blob_Test.thy ===== *)
theory Blob_Test
  imports Testing Mem_Blob
begin

text \<open>
  \<^verbatim>\<open>src/providertest/blobtest/blobtest.go\<close>: the conformance suite for blob stores, test by test. Every store
  that meets the contract \<open>blob_store\<close> passes it, in particular the in-memory one.
\<close>

definition blob_testPutAndGet :: "'b BlobStore \<Rightarrow> 'b test" where
  "blob_testPutAndGet s b w =
    (let data = bytes_of ''hello, blobs!'';
         meta = zero_BlobMeta\<lparr>bm_ContentType := ''text/plain''\<rparr>;
         (r, b, w) = bs_Put s ''test/key'' (Inr data) meta b w
     in t_Fatal (failed r) ''Put: %v'' w
    (let (rc, b, w) = bs_Get s ''test/key'' b w
     in t_Fatal (failed rc) ''Get: %v'' w
       (deref rc w (\<lambda>got.
        t_Fatal (failed got) ''ReadAll: %v'' w
       (t_Error (got \<noteq> Inr data) ''got %q, want %q''
       (t_done w))))))"

definition blob_testHead :: "'b BlobStore \<Rightarrow> 'b test" where
  "blob_testHead s b w =
    (let data = bytes_of ''head test data'';
         meta = zero_BlobMeta\<lparr>bm_ContentType := ''application/octet-stream''\<rparr>;
         (r, b, w) = bs_Put s ''head/key'' (Inr data) meta b w
     in t_Fatal (failed r) ''Put: %v'' w
    (let (r, b, w) = bs_Head s ''head/key'' b w
     in t_Fatal (failed r) ''Head: %v'' w
       (deref r w (\<lambda>m.
        t_Error (bm_Key m \<noteq> ''head/key'') ''got Key %q, want %q''
       (t_Error (bm_Size m \<noteq> int (length data)) ''got Size %d, want %d''
       (t_Error (bm_ContentType m \<noteq> ''application/octet-stream'') ''got ContentType %q, want %q''
       (t_Error (bm_Checksum m = '''') ''Checksum is empty''
       (t_done w))))))))"

definition blob_testDelete :: "'b BlobStore \<Rightarrow> 'b test" where
  "blob_testDelete s b w =
    (let (_, b, w) = bs_Put s ''del/key'' (Inr (bytes_of ''x'')) zero_BlobMeta b w;
         (r, b, w) = bs_Delete s ''del/key'' b w
     in t_Fatal (failed r) ''Delete: %v'' w
    (let (r, b, w) = bs_Exists s ''del/key'' b w
     in t_Error (value_or False r) ''blob still exists after delete''
       (t_done w)))"

definition blob_testExists :: "'b BlobStore \<Rightarrow> 'b test" where
  "blob_testExists s b w =
    (let (r, b, w) = bs_Exists s ''nonexistent'' b w
     in t_Fatal (failed r) ''Exists: %v'' w
       (t_Error (value_or False r) ''expected false for nonexistent key''
    (let (_, b, w) = bs_Put s ''exists/key'' (Inr (bytes_of ''data'')) zero_BlobMeta b w;
         (r, b, w) = bs_Exists s ''exists/key'' b w
     in t_Fatal (failed r) ''Exists: %v'' w
       (t_Error (\<not> value_or False r) ''expected true for existing key''
       (t_done w)))))"

definition blob_testList :: "'b BlobStore \<Rightarrow> 'b test" where
  "blob_testList s b w =
    (let (_, b, w) = bs_Put s ''images/a.png'' (Inr (bytes_of ''a'')) zero_BlobMeta b w;
         (_, b, w) = bs_Put s ''images/b.png'' (Inr (bytes_of ''b'')) zero_BlobMeta b w;
         (_, b, w) = bs_Put s ''docs/c.txt'' (Inr (bytes_of ''c'')) zero_BlobMeta b w;
         (r, b, w) = bs_List s ''images/'' b w
     in t_Fatal (failed r) ''List: %v'' w
       (t_Error (length (value_or [] r) \<noteq> 2) ''expected 2 blobs with prefix images/, got %d''
    (let (r, b, w) = bs_List s '''' b w
     in t_Fatal (failed r) ''List all: %v'' w
       (t_Error (length (value_or [] r) \<noteq> 3) ''expected 3 total blobs, got %d''
       (t_done w)))))"

definition blob_testNotFoundErrors :: "'b BlobStore \<Rightarrow> 'b test" where
  "blob_testNotFoundErrors s b w =
    (let (r1, b, w) = bs_Get s ''missing'' b w
     in t_Error (\<not> fails_with ErrNotFound r1) ''Get: expected ErrNotFound, got %v''
    (let (r2, b, w) = bs_Head s ''missing'' b w
     in t_Error (\<not> fails_with ErrNotFound r2) ''Head: expected ErrNotFound, got %v''
    (let (r3, b, w) = bs_Delete s ''missing'' b w
     in t_Error (\<not> fails_with ErrNotFound r3) ''Delete: expected ErrNotFound, got %v''
       (t_done w))))"

definition blobtest_Run :: "'b BlobStore \<Rightarrow> 'b \<Rightarrow> world \<Rightarrow> (string \<times> string list) list \<times> world" where
  "blobtest_Run s = t_Run
    [(''PutAndGet'', blob_testPutAndGet s), (''Head'', blob_testHead s), (''Delete'', blob_testDelete s),
     (''Exists'', blob_testExists s), (''List'', blob_testList s), (''NotFoundErrors'', blob_testNotFoundErrors s)]"

subsection \<open>The contract implies the suite\<close>

context blob_store
begin

lemma put_run:
  assumes "inv b"
  shows "fst (bs_Put ops k (Inr data) given b w) = Inr ()" "inv (fst (snd (bs_Put ops k (Inr data) given b w)))"
    and "\<exists>meta. describes k data meta \<and> carries_over given meta \<and>
      contents (fst (snd (bs_Put ops k (Inr data) given b w))) = (contents b)(k \<mapsto> (data, meta))"
  using put_ok[OF assms triple_eq, of k data given w] by auto

lemma get_run:
  assumes "inv b"
  shows "contents b k = None \<Longrightarrow> fails_with ErrNotFound (fst (bs_Get ops k b w))"
    and "contents b k = Some (data, meta) \<Longrightarrow> fst (bs_Get ops k b w) = Inr (Inr data)"
    and "inv (fst (snd (bs_Get ops k b w)))" and "contents (fst (snd (bs_Get ops k b w))) = contents b"
  using get_ok[OF assms triple_eq, of k w] by (auto simp: fails_with_def)

lemma head_run:
  assumes "inv b"
  shows "contents b k = None \<Longrightarrow> fails_with ErrNotFound (fst (bs_Head ops k b w))"
    and "contents b k = Some (data, meta) \<Longrightarrow> fst (bs_Head ops k b w) = Inr meta"
    and "inv (fst (snd (bs_Head ops k b w)))" and "contents (fst (snd (bs_Head ops k b w))) = contents b"
  using head_ok[OF assms triple_eq, of k w] by (auto simp: fails_with_def)

lemma delete_run:
  assumes "inv b"
  shows "contents b k = None \<Longrightarrow> fails_with ErrNotFound (fst (bs_Delete ops k b w))"
    and "contents b k \<noteq> None \<Longrightarrow> fst (bs_Delete ops k b w) = Inr ()"
    and "inv (fst (snd (bs_Delete ops k b w)))" and "contents (fst (snd (bs_Delete ops k b w))) = (contents b)(k := None)"
  using delete_ok[OF assms triple_eq, of k w] by (auto simp: fails_with_def)

lemma exists_run:
  assumes "inv b"
  shows "fst (bs_Exists ops k b w) = Inr (contents b k \<noteq> None)"
    and "inv (fst (snd (bs_Exists ops k b w)))" and "contents (fst (snd (bs_Exists ops k b w))) = contents b"
  using exists_ok[OF assms triple_eq, of k w] by auto

lemma list_view:
  assumes "inv b"
  shows "inv (fst (snd (bs_List ops p b w)))" and "contents (fst (snd (bs_List ops p b w))) = contents b"
  using list_ok[OF assms triple_eq, of p w] by auto

text \<open>The length of a listing is the number of keys with the prefix.\<close>

lemma list_run:
  assumes "inv b" and "finite K" and "\<And>k. prefix p k \<and> contents b k \<noteq> None \<longleftrightarrow> k \<in> K"
  shows "\<exists>ms. fst (bs_List ops p b w) = Inr ms \<and> length ms = card K"
proof -
  from list_ok[OF assms(1) triple_eq, of p w] obtain ms where
    ms: "fst (bs_List ops p b w) = Inr ms" "distinct (map bm_Key ms)"
    "set ms = {meta. \<exists>k data. prefix p k \<and> contents b k = Some (data, meta)}" by auto
  have key: "bm_Key meta = k" if "contents b k = Some (data, meta)" for k data meta
    using described[OF assms(1) that] by (simp add: describes_def)
  have "bm_Key ` set ms = K"
  proof (intro set_eqI iffI)
    fix k assume "k \<in> bm_Key ` set ms"
    with ms(3) key assms(3) show "k \<in> K" by fastforce
  next
    fix k assume "k \<in> K"
    then obtain data meta where "prefix p k" "contents b k = Some (data, meta)" using assms(3) by fastforce
    with ms(3) key[OF this(2)] show "k \<in> bm_Key ` set ms" by (auto simp: image_iff)
  qed
  with ms(2) have "length ms = card K" by (metis distinct_card length_map list.set_map)
  with ms(1) show ?thesis by blast
qed

lemmas suite_simps = case_prod_beta run_test put_run(1,2) get_run head_run delete_run exists_run

lemma pass_PutAndGet: "inv b \<Longrightarrow> fst (blob_testPutAndGet ops b w) = []"
  using put_run(3)[of b "''test/key''" "bytes_of ''hello, blobs!''" "zero_BlobMeta\<lparr>bm_ContentType := ''text/plain''\<rparr>" w]
  by (auto simp: blob_testPutAndGet_def suite_simps)

lemma pass_Head:
  assumes "inv b"
  shows "fst (blob_testHead ops b w) = []"
proof -
  let ?data = "bytes_of ''head test data''"
  from put_run(3)[OF assms, of "''head/key''" ?data "zero_BlobMeta\<lparr>bm_ContentType := ''application/octet-stream''\<rparr>" w]
  obtain meta where m: "describes ''head/key'' ?data meta"
    and c: "carries_over (zero_BlobMeta\<lparr>bm_ContentType := ''application/octet-stream''\<rparr>) meta"
    and b: "contents (fst (snd (bs_Put ops ''head/key'' (Inr ?data)
       (zero_BlobMeta\<lparr>bm_ContentType := ''application/octet-stream''\<rparr>) b w))) = (contents b)(''head/key'' \<mapsto> (?data, meta))"
    by blast
  have "bm_Checksum meta \<noteq> ''''"
    using m length_hex[of "sha256_Sum256 ?data"] by (simp add: describes_def flip: length_greater_0_conv)
  moreover have "bm_Size meta = int (length ?data)" "bm_Key meta = ''head/key''"
    using m by (simp_all add: describes_def bytes_of_def wrap64_def)
  moreover have "bm_ContentType meta = ''application/octet-stream''" using c by (simp add: carries_over_def)
  ultimately show ?thesis using b assms by (simp add: blob_testHead_def suite_simps)
qed

lemma pass_Delete: "inv b \<Longrightarrow> fst (blob_testDelete ops b w) = []"
  using put_run(3)[of b "''del/key''" "bytes_of ''x''" zero_BlobMeta w]
  by (auto simp: blob_testDelete_def suite_simps)

lemma pass_Exists:
  assumes "inv b" and "contents b = Map.empty"
  shows "fst (blob_testExists ops b w) = []"
  using put_run(3)[OF exists_run(2)[OF assms(1), of "''nonexistent''" w], of "''exists/key''" "bytes_of ''data''" zero_BlobMeta
      "snd (snd (bs_Exists ops ''nonexistent'' b w))"] assms
  by (auto simp: blob_testExists_def suite_simps)

lemma pass_NotFoundErrors:
  "inv b \<Longrightarrow> contents b = Map.empty \<Longrightarrow> fst (blob_testNotFoundErrors ops b w) = []"
  by (simp add: blob_testNotFoundErrors_def suite_simps)

text \<open>The keys a listing test has put.\<close>

lemma put_dom:
  assumes "inv b"
  shows "dom (contents (fst (snd (bs_Put ops k (Inr data) given b w)))) = insert k (dom (contents b))"
  using put_run(3)[OF assms, of k data given w] by auto

lemma list_length:
  assumes "inv b" and "finite (dom (contents b))"
  shows "\<exists>ms. fst (bs_List ops p b w) = Inr ms \<and> length ms = card {k \<in> dom (contents b). prefix p k}"
  using assms by (intro list_run) auto

lemma pass_List:
  assumes "inv b" and "contents b = Map.empty"
  shows "fst (blob_testList ops b w) = []"
proof -
  define r1 where "r1 = bs_Put ops ''images/a.png'' (Inr (bytes_of ''a'')) zero_BlobMeta b w"
  define r2 where "r2 = bs_Put ops ''images/b.png'' (Inr (bytes_of ''b'')) zero_BlobMeta (fst (snd r1)) (snd (snd r1))"
  define r3 where "r3 = bs_Put ops ''docs/c.txt'' (Inr (bytes_of ''c'')) zero_BlobMeta (fst (snd r2)) (snd (snd r2))"
  define r4 where "r4 = bs_List ops ''images/'' (fst (snd r3)) (snd (snd r3))"
  define r5 where "r5 = bs_List ops '''' (fst (snd r4)) (snd (snd r4))"
  note rs = r1_def[symmetric] r2_def[symmetric] r3_def[symmetric] r4_def[symmetric] r5_def[symmetric]
  have inv: "inv (fst (snd r1))" "inv (fst (snd r2))" "inv (fst (snd r3))"
    by (simp_all add: r3_def r2_def r1_def put_run assms(1))
  have dom: "dom (contents (fst (snd r3))) = {''images/a.png'', ''images/b.png'', ''docs/c.txt''}"
    unfolding r3_def r2_def r1_def by (subst put_dom, simp add: put_run assms(1))+ (simp add: assms(2) insert_commute)
  have r4: "inv (fst (snd r4))" "contents (fst (snd r4)) = contents (fst (snd r3))"
    by (simp_all add: r4_def list_view inv(3))
  have "{k \<in> dom (contents (fst (snd r3))). prefix ''images/'' k} = {''images/a.png'', ''images/b.png''}"
    unfolding dom by auto
  then have l1: "\<exists>ms. fst r4 = Inr ms \<and> length ms = Suc (Suc 0)"
    using list_length[OF inv(3), of "''images/''" "snd (snd r3)"] unfolding r4_def by (simp add: dom)
  have "{k \<in> dom (contents (fst (snd r4))). prefix '''' k} = {''images/a.png'', ''images/b.png'', ''docs/c.txt''}"
    unfolding r4(2) dom by auto
  then have l2: "\<exists>ms. fst r5 = Inr ms \<and> length ms = Suc (Suc (Suc 0))"
    using list_length[OF r4(1), of "''''" "snd (snd r4)"] unfolding r5_def r4(2) by (simp add: dom)
  from l1 l2 show ?thesis by (auto simp: blob_testList_def case_prod_beta run_test rs)
qed

lemma conformance:
  assumes "inv new" and "contents new = Map.empty"
  shows "all_pass (blobtest_Run ops new w)"
  unfolding blobtest_Run_def using assms
  by (intro t_Run_pass[where P = "\<lambda>_. True", THEN conjunct1])
    (auto simp only: list.set insert_iff empty_iff prod.inject simp_thms pass_PutAndGet pass_Head pass_Delete pass_Exists pass_List pass_NotFoundErrors)

end

text \<open>
  The in-memory blob store passes the conformance suite for blob stores; the proof needs only its contract,
  so that every store with this contract passes.
\<close>

lemma memblob_conformance: "all_pass (blobtest_Run memblob_ops memblob_New w)"
  by (rule memblob.conformance) (simp_all add: memblob_New_def memblob_inv_def memblob_contents_def fun_eq_iff)

end
