(* ===== verification/Ingress_Test.thy ===== *)
theory Ingress_Test
  imports Testing Noop_Ingress
begin

text \<open>
  \<^verbatim>\<open>src/providertest/ingresstest/ingresstest.go\<close>: the conformance suite for ingress providers, test by test.
  Every provider that meets the contract \<open>ingress_provider\<close> passes it, in particular the no-op one.
\<close>

definition ingress_testRegisterAndGet :: "'i IngressProvider \<Rightarrow> 'i test" where
  "ingress_testRegisterAndGet s p w =
    (let route = \<lparr>ro_Host = ''app.example.com'', ro_Path = ''/''\<rparr>;
         target = \<lparr>ta_Address = ''10.0.0.1'', ta_Port = 8080\<rparr>;
         (r, p, w) = ip_RegisterEndpoint s ''vm-1'' route target p w
     in t_Fatal (failed r) ''RegisterEndpoint: %v'' w
       (deref r w (\<lambda>ep.
        t_Error (ep_VMID ep \<noteq> ''vm-1'') ''got VMID %q, want %q''
       (t_Error (ro_Host (ep_Route ep) \<noteq> ''app.example.com'') ''got Host %q, want %q''
       (t_Error (ta_Port (ep_Target ep) \<noteq> 8080) ''got Port %d, want 8080''
    (let (r, p, w) = ip_GetEndpoint s ''vm-1'' p w
     in t_Fatal (failed r) ''GetEndpoint: %v'' w
       (deref r w (\<lambda>got.
        t_Error (ep_VMID got \<noteq> ''vm-1'') ''got VMID %q, want %q''
       (t_done w)))))))))"

definition ingress_testUnregister :: "'i IngressProvider \<Rightarrow> 'i test" where
  "ingress_testUnregister s p w =
    (let route = \<lparr>ro_Host = ''app.example.com'', ro_Path = ''/''\<rparr>;
         target = \<lparr>ta_Address = ''10.0.0.1'', ta_Port = 8080\<rparr>;
         (_, p, w) = ip_RegisterEndpoint s ''vm-1'' route target p w;
         (r, p, w) = ip_UnregisterEndpoint s ''vm-1'' p w
     in t_Fatal (failed r) ''UnregisterEndpoint: %v'' w
    (let (r, p, w) = ip_GetEndpoint s ''vm-1'' p w
     in t_Error (\<not> fails_with ErrNotFound r) ''expected ErrNotFound after unregister, got %v''
       (t_done w)))"

definition ingress_testGetNotFound :: "'i IngressProvider \<Rightarrow> 'i test" where
  "ingress_testGetNotFound s p w =
    (let (r, p, w) = ip_GetEndpoint s ''nonexistent'' p w
     in t_Error (\<not> fails_with ErrNotFound r) ''expected ErrNotFound, got %v''
       (t_done w))"

definition ingress_testOverwriteEndpoint :: "'i IngressProvider \<Rightarrow> 'i test" where
  "ingress_testOverwriteEndpoint s p w =
    (let route1 = \<lparr>ro_Host = ''v1.example.com'', ro_Path = ''/''\<rparr>;
         target1 = \<lparr>ta_Address = ''10.0.0.1'', ta_Port = 8080\<rparr>;
         (_, p, w) = ip_RegisterEndpoint s ''vm-1'' route1 target1 p w;
         route2 = \<lparr>ro_Host = ''v2.example.com'', ro_Path = ''/api''\<rparr>;
         target2 = \<lparr>ta_Address = ''10.0.0.2'', ta_Port = 9090\<rparr>;
         (_, p, w) = ip_RegisterEndpoint s ''vm-1'' route2 target2 p w;
         (r, p, w) = ip_GetEndpoint s ''vm-1'' p w
     in t_Fatal (failed r) ''GetEndpoint: %v'' w
       (deref r w (\<lambda>got.
        t_Error (ro_Host (ep_Route got) \<noteq> ''v2.example.com'') ''got Host %q, want %q''
       (t_Error (ta_Port (ep_Target got) \<noteq> 9090) ''got Port %d, want 9090''
       (t_done w)))))"

definition ingresstest_Run :: "'i IngressProvider \<Rightarrow> 'i \<Rightarrow> world \<Rightarrow> (string \<times> string list) list \<times> world" where
  "ingresstest_Run s = t_Run
    [(''RegisterAndGet'', ingress_testRegisterAndGet s), (''Unregister'', ingress_testUnregister s),
     (''GetNotFound'', ingress_testGetNotFound s), (''OverwriteEndpoint'', ingress_testOverwriteEndpoint s)]"


subsection \<open>The contract implies the suite\<close>

context ingress_provider
begin

lemma register_run:
  "fst (ip_RegisterEndpoint ops k ro ta p w) = Inr \<lparr>ep_VMID = k, ep_Route = ro, ep_Target = ta\<rparr>"
  "routes (fst (snd (ip_RegisterEndpoint ops k ro ta p w))) = (routes p)(k \<mapsto> \<lparr>ep_VMID = k, ep_Route = ro, ep_Target = ta\<rparr>)"
  using register_ok[OF triple_eq] by simp_all

lemma unregister_run:
  "fst (ip_UnregisterEndpoint ops k p w) = Inr ()"
  "routes (fst (snd (ip_UnregisterEndpoint ops k p w))) = (routes p)(k := None)"
  using unregister_ok[OF triple_eq] by simp_all

lemma get_run:
  "routes (fst (snd (ip_GetEndpoint ops k p w))) = routes p"
  "routes p k = None \<Longrightarrow> fails_with ErrNotFound (fst (ip_GetEndpoint ops k p w))"
  "routes p k = Some ep \<Longrightarrow> fst (ip_GetEndpoint ops k p w) = Inr ep"
  using get_ok[OF triple_eq, of k p w] by (auto simp: fails_with_def)

lemmas suite_simps = case_prod_beta run_test register_run unregister_run get_run

lemma conformance:
  assumes "routes new = Map.empty"
  shows "all_pass (ingresstest_Run ops new w)"
proof -
  have "fst (ingress_testRegisterAndGet ops new w) = []" for w
    by (simp add: ingress_testRegisterAndGet_def suite_simps)
  moreover have "fst (ingress_testUnregister ops new w) = []" for w
    by (simp add: ingress_testUnregister_def suite_simps)
  moreover have "fst (ingress_testGetNotFound ops new w) = []" for w
    using assms by (simp add: ingress_testGetNotFound_def suite_simps)
  moreover have "fst (ingress_testOverwriteEndpoint ops new w) = []" for w
    by (simp add: ingress_testOverwriteEndpoint_def suite_simps)
  ultimately show ?thesis
    unfolding ingresstest_Run_def by (intro t_Run_pass[where P = "\<lambda>_. True", THEN conjunct1]) auto
qed

end

text \<open>
  The no-op ingress provider passes the conformance suite for ingress providers; the proof needs only its
  contract, so that every provider with this contract passes.
\<close>

lemma noop_conformance: "all_pass (ingresstest_Run noop_ops noop_New w)"
  by (rule noop.conformance) (simp add: noop_New_def)

end
