(* ===== verification/Spec2Isabelle.thy ===== *)
theory Spec2Isabelle
  imports Mem_State Mem_Queue Cache_Slices Mem_Blob Noop_Ingress Http_Types Json_Fuel Idem_Concurrent
    Service_Concurrent Http_Concurrent Server_Main Cache_Test Queue_Test State_Test Blob_Test Ingress_Test
begin

text \<open>
  The flames control plane (\<^verbatim>\<open>src/\<close>): a verification library of its Go sources.

  \<^bold>\<open>The program.\<close> Flames manages virtual machines. Clients talk JSON over HTTP to an API server
  (\<^verbatim>\<open>cmd/flames-api\<close>), whose handlers (\<^verbatim>\<open>transport/httpapi\<close>) call a service (\<^verbatim>\<open>api/service.go\<close>), which keeps the
  desired state of the VMs, the controllers and an event log in a state store and is given a work
  queue. Stores and queues are interfaces (\<^verbatim>\<open>provider/*/\<close>), each with one in-memory implementation;
  cache, blob store and ingress are further provider interfaces that the server does not use yet.
  \<^verbatim>\<open>providertest/\<close> holds a conformance suite for every interface.

  \<^bold>\<open>Theories and sources.\<close>
  \<^item> \<open>Prelude\<close>: generic lemmas on lists, maps and loops over maps, the collections \<open>flames_ops\<close> and
    \<open>flames_inv\<close>. \<open>Go_Stdlib\<close>: times, 64-bit integers, \<^verbatim>\<open>strconv.Atoi\<close>, hexadecimal texts, and the \<open>world\<close>:
    the readings of the clock, the random bytes and the orders of map iterations still to come.
    \<open>Sha256\<close>: SHA-256, its constants computed from the primes. \<open>Json\<close>, \<open>Time_Format\<close>: parser, printer and
    string escapes of \<^verbatim>\<open>encoding/json\<close>, RFC 3339 times. These model the standard library.
  \<^item> \<open>Model\<close> (\<^verbatim>\<open>model/*.go\<close>), \<open>Json_Codec\<close> (their \<^verbatim>\<open>json\<close> tags), \<open>Provider_Err\<close> (\<^verbatim>\<open>provider/providererr\<close>),
    \<open>Provider_Interfaces\<close> (\<^verbatim>\<open>provider/*/*.go\<close>): structs are records, errors a datatype with \<^verbatim>\<open>errors.Is\<close> and
    \<^verbatim>\<open>errors.As\<close> as functions on the chain, an interface value is a record of its methods.
  \<^item> \<open>Mem_State\<close>, \<open>Mem_Queue\<close>, \<open>Mem_Cache\<close>, \<open>Mem_Blob\<close>, \<open>Noop_Ingress\<close> (the files \<^verbatim>\<open>memstate.go\<close>, \<^verbatim>\<open>memqueue.go\<close>,
    \<^verbatim>\<open>memcache.go\<close>, \<^verbatim>\<open>memblob.go\<close>, \<^verbatim>\<open>noop.go\<close>): every method as a function from state and world to result, new
    state and new world. A method that holds its mutex throughout is one atomic action; the two
    critical sections of the cache's \<^verbatim>\<open>Get\<close> are separate definitions. In \<open>Cache_Slices\<close> the cache works on byte
    slices as references to arrays that it shares with its callers.
  \<^item> \<open>Api_Service\<close> (\<^verbatim>\<open>api/service.go\<close> and the wiring in \<^verbatim>\<open>main\<close>), \<open>Http_Core\<close> (requests, responses and recorders;
    \<^verbatim>\<open>errors.go\<close>), \<open>Idempotency\<close> (\<^verbatim>\<open>idempotency.go\<close>), \<open>Router\<close> (the routes of \<^verbatim>\<open>NewHandler\<close> and the matching rules of
    \<^verbatim>\<open>http.ServeMux\<close>), \<open>Http_Handler\<close> (\<^verbatim>\<open>handler.go\<close>). A handler is a function from request, state and world to
    the sequence of calls it makes on the \<^verbatim>\<open>ResponseWriter\<close>, so that the recorders of the middleware and
    of the logger are functions on such sequences.
  \<^item> \<open>Server_Main\<close> (\<^verbatim>\<open>cmd/flames-api/main.go\<close>): the server process as a step relation on its goroutines: the main
    one with the flags, the wiring and \<^verbatim>\<open>ListenAndServe\<close>, the one that waits for a signal and shuts down, and the
    requests. \<open>Http_Concurrent\<close>, on which it rests, has the whole requests under concurrency: each is at a stage and
    makes one step per critical section of the middleware, per call of the store and per line of the access log.
    \<open>Service_Concurrent\<close> has the methods of the service alone as sequences of calls of the store that may
    interleave, \<open>Idem_Concurrent\<close> the critical sections of the middleware around arbitrary handlers.
  \<^item> \<open>Testing\<close>, \<open>State_Test\<close>, \<open>Queue_Test\<close>, \<open>Cache_Test\<close>, \<open>Blob_Test\<close>, \<open>Ingress_Test\<close> (\<^verbatim>\<open>providertest/*\<close>): every test
    of the suites as an action on an arbitrary provider that yields its failures.

  \<^bold>\<open>Interfaces.\<close> What clients may rely on is stated as locales: \<open>state_store\<close> and
    \<open>reliable_state_store\<close> (an abstract control plane of VMs, controllers and log), \<open>work_queue\<close> (a list of
    jobs per topic), \<open>cache_store\<close> (what is visible at a time), \<open>blob_store\<close>, \<open>ingress_provider\<close>, and
    \<open>keyed_calls\<close>, which the last two extend. Each is interpreted on the in-memory provider, and the
    theorems about clients (consumers of the queue, users of the cache, the service, the suites for blobs
    and ingress) are proved inside the locale once. \<open>kept_by_handlers\<close> is the contract of an invariant of the
    providers: what the five handlers that change them keep, every sequence of requests keeps.

  \<^bold>\<open>What is shown.\<close>
  \<^item> Providers: each implements its contract on every branch; no job is lost, duplicated or altered,
    a job whose lease has run out is delivered again, leases exclude each other, one of many claims
    to a VM and one of many compare-and-sets wins; stored records keep identity and time order; blobs keep
    size and checksum; values written are read back. The overlap of the cache's \<^verbatim>\<open>Get\<close> with \<^verbatim>\<open>Set\<close> that loses
    a value is derived too. \<open>Cache_Slices\<close> shows for which callers the value model describes the cache on shared
    slices, and that writing into a slice that \<^verbatim>\<open>Get\<close> returned changes the cached value.
  \<^item> Service and server: along every sequence of requests the event log of a VM replays to its desired
    state, an error response means that nothing was changed and is never a server error, read requests
    change nothing, every request is logged with the status the client gets, a request with an
    idempotency key is executed at most once in 24 hours (and the key is shared by all routes, which is
    recorded as a finding), and the router picks the one pattern that matches. \<open>Idem_Concurrent\<close> lets the
    critical sections of any number of keyed requests interleave: every answer stems from an execution with
    the same key, but requests that overlap are executed each. \<open>Service_Concurrent\<close> lets the store calls of any
    number of service calls interleave: the log and the events still to be appended account for every
    change of a desired state, but a stop and a delete that overlap can be logged in the wrong order.
    \<open>Http_Concurrent\<close> composes the two: a request that nobody interrupts is \<open>ServeHTTP\<close>, no request waits for
    another (seven own steps answer it whatever the others do in between), and in every interleaving of whole
    requests no answer is a server error, the access log has the statuses of the answers, and the event
    log and the events about to be appended account for all desired states.
  \<^item> The process (\<open>Server_Main\<close>): its handler and requests are those of a run of the concurrent server; once it has
    begun to shut down it ends within a bounded number of steps, with status 0, but without waiting for the requests
    in progress, which is recorded as a finding.
  \<^item> Types (\<open>Decode_Types\<close>, \<open>Http_Types\<close>): whatever bytes are sent, the decoders produce only UTF-8 and 64-bit numbers
    and the store holds only records with proper identifiers, states and event types.
  \<^item> Wire format (\<open>Json_Roundtrip\<close>, \<open>Time_Roundtrip\<close>, \<open>Codec_Roundtrip\<close>, \<open>Http_Wire\<close>): strings survive escaping, the parser reads
    back what the printer prints, times are read back to the nanosecond, specifications survive a post and
    the read that follows, controllers their registration.
  \<^item> Conformance (\<open>providers_conform\<close> below): the in-memory providers pass the suites; the clock and identifiers that the suites
    silently assume are the hypotheses \<open>paced\<close> and \<open>fresh_ids\<close>, and the retry test of the queue is shown to
    need a clock that has moved on.

  \<^bold>\<open>Bounds.\<close> All functions terminate. The JSON parser takes a recursion depth of twice the length of its
  input plus two; \<open>json_parse_fuel\<close> shows that a larger one gives the same result on every text. It has the limit of
  10000 on nesting that \<^verbatim>\<open>encoding/json\<close> has. Machine integers are \<open>int\<close> with \<open>wrap64\<close> where the code can
  overflow; SHA-256 works on words.

  \<^bold>\<open>Not modelled.\<close> Sockets, connections and the transport of \<^verbatim>\<open>net/http\<close> below its handlers; \<^verbatim>\<open>context.Context\<close>, which no provider looks at;
  the locations of Go times (times print in UTC); the sharing of payloads, labels and maps between
  the other providers and their callers; requests for \<^verbatim>\<open>*\<close>; what a repeated key of a JSON object
  finds in the spare capacity of a slice; the text of failure messages in the suites beyond their format strings.
\<close>

subsection \<open>Conformance\<close>

text \<open>
  C29: Every provider passes the conformance suite of its interface: the state store in whatever order the
  goroutines of the concurrency test get to run, the work queue, the cache (both suites), the blob store
  and the ingress provider. The suites silently assume that the clock advances with each reading, that at
  most 50 milliseconds pass between a reading and the second one after it, and that no two identifiers
  drawn one after the other are equal.
\<close>

theorem providers_conform:
  assumes "paced w" and "fresh_ids w" and "distinct order" and "set order = {..<goroutines}"
  shows "all_pass (statetest_Run order memstate_ops memstate_New w) \<and>
    all_pass (queuetest_Run memqueue_ops memqueue_New w) \<and>
    all_pass (cachetest_Run memcache_ops memcache_New w) \<and> all_pass (cachetest_RunAtomic memcache_ops memcache_New w) \<and>
    all_pass (blobtest_Run memblob_ops memblob_New w) \<and> all_pass (ingresstest_Run noop_ops noop_New w)"
  using memstate_conformance[OF assms(2-4)] memqueue_conformance[OF assms(1)] memcache_conformance[OF assms(1)]
    memblob_conformance[of w] noop_conformance[of w] by blast

theorem providers_conform_witness:
  "paced ticking_world \<and> fresh_ids ticking_world \<and>
   all_pass (statetest_Run [3, 1, 4, 0, 5, 9, 2, 6, 8, 7] memstate_ops memstate_New ticking_world) \<and>
   all_pass (queuetest_Run memqueue_ops memqueue_New ticking_world)"
proof -
  have "set [3, 1, 4, 0, 5, 9, 2, 6, 8, 7] = {..<goroutines}" by code_simp
  from providers_conform[OF paced_ticking fresh_ids_ticking _ this] paced_ticking fresh_ids_ticking show ?thesis by simp
qed

end
